(* ===== verification/Prelude.thy ===== *)
theory Prelude
  imports Main "HOL-Library.Word" "HOL-Library.Finite_Map" "HOL-Library.FSet"
    "HOL-Library.Code_Target_Nat"
begin

text \<open>
  Shared vocabulary of the development: the result of a fallible Rust function as a sum
  (\<open>Inl\<close> the error), the \<open>?\<close> operator in its two uses (inside a pure function and inside
  a \<open>&mut self\<close> method), checked arithmetic on fixed-width integers, big-endian byte
  strings, ASCII literals, and the ordered containers: \<open>BTreeMap\<close> is the finite map
  \<open>fmap\<close>, \<open>BTreeSet\<close> the finite set \<open>fset\<close>, and iteration is the key-sorted list.
\<close>

named_theorems result_simps \<open>inversion of the result bind and of the ? operator\<close>
named_theorems container_simps \<open>lookups, membership and sorted iteration\<close>
named_theorems no_panic_intros \<open>compositional rules for the absence of panics\<close>

type_synonym byte = "8 word"
type_synonym u16 = "16 word"
type_synonym u32 = "32 word"
type_synonym u64 = "64 word"
type_synonym usize = "64 word"

section \<open>Results, panics and the ? operator\<close>

text \<open>
  \<open>fault\<close> is the error side of a function whose body also contains an \<open>expect\<close>: the
  panic is a value, so that "never panics" is a statement about the model.
\<close>

datatype 'e fault = Panic | Fail 'e

definition res_bind :: "'e + 'a \<Rightarrow> ('a \<Rightarrow> 'e + 'b) \<Rightarrow> 'e + 'b" where
  "res_bind r f = (case r of Inl e \<Rightarrow> Inl e | Inr x \<Rightarrow> f x)"

definition ok_or :: "'e \<Rightarrow> 'a option \<Rightarrow> 'e + 'a" where
  "ok_or e o1 = (case o1 of None \<Rightarrow> Inl e | Some x \<Rightarrow> Inr x)"

definition map_err :: "('e \<Rightarrow> 'f) \<Rightarrow> 'e + 'a \<Rightarrow> 'f + 'a" where
  "map_err g r = (case r of Inl e \<Rightarrow> Inl (g e) | Inr x \<Rightarrow> Inr x)"

definition map_ok :: "('a \<Rightarrow> 'b) \<Rightarrow> 'e + 'a \<Rightarrow> 'e + 'b" where
  "map_ok g r = (case r of Inl e \<Rightarrow> Inl e | Inr x \<Rightarrow> Inr (g x))"

definition is_ok :: "'e + 'a \<Rightarrow> bool" where
  "is_ok r = (case r of Inl _ \<Rightarrow> False | Inr _ \<Rightarrow> True)"

text \<open>
  \<open>try_in s r k\<close> is \<open>let x = r?; k\<close> in a method that mutates its receiver: on an error
  the method returns it together with the receiver as it stands at that point.
\<close>

definition try_in :: "'s \<Rightarrow> 'e + 'a \<Rightarrow> ('a \<Rightarrow> ('e + 'b) \<times> 's) \<Rightarrow> ('e + 'b) \<times> 's" where
  "try_in s r k = (case r of Inl e \<Rightarrow> (Inl e, s) | Inr x \<Rightarrow> k x)"

lemma res_bind_Inl [simp]: "res_bind (Inl e) f = Inl e"
  by (simp add: res_bind_def)

lemma res_bind_Inr [simp]: "res_bind (Inr x) f = f x"
  by (simp add: res_bind_def)

lemma res_bind_Ok_iff [result_simps]:
  "res_bind r f = Inr y \<longleftrightarrow> (\<exists>x. r = Inr x \<and> f x = Inr y)"
  by (cases r) auto

lemma res_bind_cong [fundef_cong]:
  "r = r' \<Longrightarrow> (\<And>x. r' = Inr x \<Longrightarrow> f x = g x) \<Longrightarrow> res_bind r f = res_bind r' g"
  by (cases r') auto

lemma ok_or_simps [simp]: "ok_or e None = Inl e" "ok_or e (Some x) = Inr x"
  by (simp_all add: ok_or_def)

lemma ok_or_Ok_iff [result_simps]: "ok_or e o1 = Inr x \<longleftrightarrow> o1 = Some x"
  by (cases o1) auto

lemma ok_or_Err_iff [result_simps]: "ok_or e o1 = Inl e' \<longleftrightarrow> o1 = None \<and> e' = e"
  by (cases o1) auto

lemma map_err_simps [simp]: "map_err g (Inl e) = Inl (g e)" "map_err g (Inr x) = Inr x"
  by (simp_all add: map_err_def)

lemma map_err_Ok_iff [result_simps]: "map_err g r = Inr x \<longleftrightarrow> r = Inr x"
  by (cases r) auto

lemma map_ok_simps [simp]: "map_ok g (Inl e) = Inl e" "map_ok g (Inr x) = Inr (g x)"
  by (simp_all add: map_ok_def)

lemma map_ok_Ok_iff [result_simps]: "map_ok g r = Inr y \<longleftrightarrow> (\<exists>x. r = Inr x \<and> y = g x)"
  by (cases r) auto

lemma is_ok_simps [simp]: "is_ok (Inr x)" "\<not> is_ok (Inl e)"
  by (simp_all add: is_ok_def)

lemma is_ok_iff [result_simps]: "is_ok r \<longleftrightarrow> (\<exists>x. r = Inr x)"
  by (cases r) auto

lemma try_in_simps [simp]: "try_in s (Inl e) k = (Inl e, s)" "try_in s (Inr x) k = k x"
  by (simp_all add: try_in_def)

lemma try_in_Ok_iff [result_simps]:
  "try_in s r k = (Inr y, t) \<longleftrightarrow> (\<exists>x. r = Inr x \<and> k x = (Inr y, t))"
  by (cases r) auto

lemma try_in_Err_iff [result_simps]:
  "try_in s r k = (Inl e, t) \<longleftrightarrow> (r = Inl e \<and> t = s) \<or> (\<exists>x. r = Inr x \<and> k x = (Inl e, t))"
  by (cases r) auto

lemma guard_in_Ok [result_simps]:
  "(if b then (Inl e, s) else k) = (Inr y, t) \<longleftrightarrow> \<not> b \<and> k = (Inr y, t)"
  by simp

text \<open>
  A method call is atomic on a state when a returned error comes with that state: whatever
  the method wrote before the error is gone.
\<close>

named_theorems atomic_intros \<open>compositional rules for atomic method calls\<close>

definition atomic :: "'s \<Rightarrow> ('e + 'r) \<times> 's \<Rightarrow> bool" where
  "atomic s r = (case r of (Inl _, t) \<Rightarrow> t = s | (Inr _, _) \<Rightarrow> True)"

lemma atomic_values [atomic_intros]: "atomic s (Inl e, s)" "atomic s (Inr x, t)"
  by (simp_all add: atomic_def)

lemma atomic_try [atomic_intros]:
  "(\<And>x. r = Inr x \<Longrightarrow> atomic s (k x)) \<Longrightarrow> atomic s (try_in s r k)"
  by (cases r) (simp_all add: atomic_def)

lemma atomic_if [atomic_intros]:
  "(b \<Longrightarrow> atomic s r) \<Longrightarrow> (\<not> b \<Longrightarrow> atomic s r') \<Longrightarrow> atomic s (if b then r else r')"
  by simp

lemma atomicD: "atomic s (Inl e, t) \<Longrightarrow> t = s"
  by (simp add: atomic_def)

lemma atomic_Err: "atomic s r \<Longrightarrow> r = (Inl e, t) \<Longrightarrow> t = s"
  by (simp add: atomic_def)

text \<open>A method call whose payload is dropped, for sequences of calls of different result types.\<close>

definition forget :: "('e + 'r) \<times> 's \<Rightarrow> ('e + unit) \<times> 's" where
  "forget p = (map_ok (\<lambda>_. ()) (fst p), snd p)"

lemma forget_Ok: "forget x = (Inr u, q) \<longleftrightarrow> (\<exists>y. x = (Inr y, q))"
  by (cases x) (auto simp: forget_def result_simps)

lemma forget_Err: "forget x = (Inl e, q) \<longleftrightarrow> x = (Inl e, q)"
  by (cases x; cases "fst x") (auto simp: forget_def)

lemma atomic_forget: "atomic s r \<Longrightarrow> atomic s (forget r)"
  by (cases r; cases "fst r") (auto simp: forget_def atomic_def)

text \<open>A \<open>for\<close> loop over a slice whose body may leave the function with \<open>?\<close>.\<close>

fun for_each :: "('x \<Rightarrow> 's \<Rightarrow> 'e + 's) \<Rightarrow> 'x list \<Rightarrow> 's \<Rightarrow> 'e + 's" where
  "for_each f [] s = Inr s"
| "for_each f (x # xs) s = res_bind (f x s) (for_each f xs)"

lemma for_each_cong [fundef_cong]:
  assumes "xs = ys" "s = t" "\<And>x s. x \<in> set ys \<Longrightarrow> f x s = g x s"
  shows "for_each f xs s = for_each g ys t"
  unfolding assms(1,2) using assms(3) by (induction ys arbitrary: t) (auto intro: res_bind_cong)

lemma for_each_append: "for_each f (xs @ ys) s = res_bind (for_each f xs s) (for_each f ys)"
proof (induction xs arbitrary: s)
  case (Cons x xs)
  then show ?case by (cases "f x s") simp_all
qed simp

text \<open>A call is safe when it does not end in a panic; the rules follow the control structure.\<close>

definition no_panic :: "'e fault + 'a \<Rightarrow> bool" where
  "no_panic r = (r \<noteq> Inl Panic)"

lemma no_panic_bind [no_panic_intros]:
  "no_panic r \<Longrightarrow> (\<And>x. r = Inr x \<Longrightarrow> no_panic (f x)) \<Longrightarrow> no_panic (res_bind r f)"
  by (cases r) (auto simp: no_panic_def)

lemma no_panic_ok_or [no_panic_intros]: "no_panic (ok_or (Fail e) r)"
  by (cases r) (auto simp: no_panic_def)

lemma no_panic_map_ok [no_panic_intros]: "no_panic r \<Longrightarrow> no_panic (map_ok f r)"
  by (cases r) (auto simp: no_panic_def)

lemma no_panic_values [no_panic_intros]: "no_panic (Inr x)" "no_panic (Inl (Fail e))"
  by (auto simp: no_panic_def)

lemma no_panic_if [no_panic_intros]:
  "(b \<Longrightarrow> no_panic r) \<Longrightarrow> (\<not> b \<Longrightarrow> no_panic s) \<Longrightarrow> no_panic (if b then r else s)"
  by simp

lemma no_panic_prod [no_panic_intros]:
  "(\<And>x y. p = (x, y) \<Longrightarrow> no_panic (f x y)) \<Longrightarrow> no_panic (case p of (x, y) \<Rightarrow> f x y)"
  by (cases p) simp

lemma no_panic_prod_app [no_panic_intros]:
  "(\<And>x y. p = (x, y) \<Longrightarrow> no_panic (f x y s)) \<Longrightarrow> no_panic ((case p of (x, y) \<Rightarrow> f x y) s)"
  by (cases p) simp

section \<open>Checked arithmetic\<close>

definition checked_add :: "'a::len word \<Rightarrow> 'a word \<Rightarrow> 'a word option" where
  "checked_add a b = (if unat a + unat b < 2 ^ LENGTH('a) then Some (a + b) else None)"

definition checked_sub :: "'a::len word \<Rightarrow> 'a word \<Rightarrow> 'a word option" where
  "checked_sub a b = (if b \<le> a then Some (a - b) else None)"

text \<open>Lengths and counters of type \<open>usize\<close> are natural numbers; the host is 64-bit.\<close>

definition checked_add_usize :: "nat \<Rightarrow> nat \<Rightarrow> nat option" where
  "checked_add_usize a b = (if a + b < 2 ^ 64 then Some (a + b) else None)"

lemma checked_add_Some_iff [result_simps]:
  fixes a b c :: "'a::len word"
  shows "checked_add a b = Some c \<longleftrightarrow> unat c = unat a + unat b"
proof
  assume "checked_add a b = Some c"
  then show "unat c = unat a + unat b"
    by (auto simp: checked_add_def unat_word_ariths split: if_splits)
next
  assume h: "unat c = unat a + unat b"
  then have "unat a + unat b < 2 ^ LENGTH('a)" by (metis unsigned_less)
  moreover from h have "c = a + b"
    by (metis of_nat_add of_nat_unat ucast_id)
  ultimately show "checked_add a b = Some c" by (simp add: checked_add_def)
qed

lemma checked_add_None_iff [result_simps]:
  fixes a b :: "'a::len word"
  shows "checked_add a b = None \<longleftrightarrow> 2 ^ LENGTH('a) \<le> unat a + unat b"
  by (simp add: checked_add_def)

lemma checked_sub_Some_iff [result_simps]:
  fixes a b c :: "'a::len word"
  shows "checked_sub a b = Some c \<longleftrightarrow> unat a = unat c + unat b"
proof
  assume "checked_sub a b = Some c"
  then have "b \<le> a" "c = a - b" by (auto simp: checked_sub_def split: if_splits)
  then show "unat a = unat c + unat b"
    by (simp add: unat_sub word_le_nat_alt)
next
  assume h: "unat a = unat c + unat b"
  then have "b \<le> a" by (simp add: word_le_nat_alt)
  moreover from h this have "unat (a - b) = unat c" by (simp add: unat_sub)
  then have "a - b = c" by (simp add: word_unat_eq_iff)
  ultimately show "checked_sub a b = Some c" by (simp add: checked_sub_def)
qed

lemma checked_sub_None_iff [result_simps]:
  fixes a b :: "'a::len word"
  shows "checked_sub a b = None \<longleftrightarrow> unat a < unat b"
  by (simp add: checked_sub_def word_le_nat_alt not_le)

section \<open>Shifts and masks as arithmetic\<close>

unbundle bit_operations_syntax

lemma nat_push_or: "y < 2 ^ n \<Longrightarrow> push_bit n x OR y = x * 2 ^ n + (y::nat)"
proof -
  assume y: "y < 2 ^ n"
  have "push_bit n x + y = push_bit n x OR y"
  proof (rule disjunctive_add)
    fix m
    have "bit y m \<Longrightarrow> m < n" using y
      by (metis bit_take_bit_iff take_bit_nat_eq_self)
    then show "\<not> bit (push_bit n x) m \<or> \<not> bit y m"
      by (auto simp: bit_push_bit_iff)
  qed
  then show ?thesis by (simp add: push_bit_eq_mult)
qed

lemma unat_drop_bit: "unat (drop_bit n w) = unat w div 2 ^ n"
  by (simp only: unat_drop_bit_eq drop_bit_eq_div [where ?'a = nat])

lemma unat_ucast_mod: "unat (ucast w :: 'b::len word) = unat w mod 2 ^ LENGTH('b)"
  by (simp only: unsigned_ucast_eq take_bit_eq_mod [where ?'a = nat])

lemma unat_and_mask: "unat (w AND mask n) = unat w mod 2 ^ n"
  by (simp only: take_bit_eq_mask [symmetric] unsigned_take_bit_eq take_bit_eq_mod [where ?'a = nat])

lemma unat_push_or:
  fixes b y :: "'a::len word"
  assumes "unat b * 2 ^ n < 2 ^ LENGTH('a)" "unat y < 2 ^ n"
  shows "unat (push_bit n b OR y) = unat b * 2 ^ n + unat y"
proof -
  have "unat (push_bit n b) = push_bit n (unat b)"
    using assms(1)
    by (simp only: unsigned_push_bit_eq push_bit_eq_mult [where ?'a = nat] take_bit_nat_eq_self)
  then have "unat (push_bit n b OR y) = push_bit n (unat b) OR unat y"
    by (simp only: unsigned_or_eq)
  also have "\<dots> = unat b * 2 ^ n + unat y" using assms(2) by (rule nat_push_or)
  finally show ?thesis .
qed

lemma mask_1f: "(0x1f :: 'a::len word) = mask 5"
  by (simp add: mask_eq_exp_minus_1)

section \<open>Big-endian byte strings and ASCII text\<close>

text \<open>\<open>to_be_bytes\<close> and \<open>from_be_bytes\<close> of the fixed-width integers, over the number they denote.\<close>

primrec be_bytes :: "nat \<Rightarrow> nat \<Rightarrow> byte list" where
  "be_bytes 0 x = []"
| "be_bytes (Suc n) x = be_bytes n (x div 256) @ [of_nat (x mod 256)]"

definition be_val :: "byte list \<Rightarrow> nat" where
  "be_val bs = foldl (\<lambda>a b. a * 256 + unat b) 0 bs"

text \<open>A Rust string is its UTF-8 byte string; literals of the source are ASCII.\<close>

definition ascii :: "string \<Rightarrow> byte list" where
  "ascii s = map of_char s"

lemma be_val_Nil [simp]: "be_val [] = 0"
  by (simp add: be_val_def)

lemma be_val_snoc [simp]: "be_val (bs @ [b]) = be_val bs * 256 + unat b"
  by (simp add: be_val_def)

lemma length_be_bytes [simp]: "length (be_bytes n x) = n"
  by (induction n arbitrary: x) auto

lemma unat_of_nat_byte [simp]: "unat (of_nat (x mod 256) :: byte) = x mod 256"
  by (simp add: unat_of_nat)

lemma byte_less [simp]: "unat (b :: byte) < 256"
  using unsigned_less [where w = b and ?'a = nat] by simp

lemma be_val_less: "be_val bs < 256 ^ length bs"
proof (induction bs rule: rev_induct)
  case Nil
  then show ?case by simp
next
  case (snoc b bs)
  have "unat b < 256" by (rule byte_less)
  with snoc have "be_val bs * 256 + unat b < (be_val bs + 1) * 256" by simp
  also have "\<dots> \<le> 256 ^ length bs * 256" using snoc by (simp add: mult_le_mono1)
  finally show ?case by (simp add: mult.commute)
qed

lemma be_val_be_bytes: "be_val (be_bytes n x) = x mod 256 ^ n"
  by (induction n arbitrary: x) (auto simp: mod_mult2_eq mult.commute)

lemma be_val_be_bytes_id [simp]: "x < 256 ^ n \<Longrightarrow> be_val (be_bytes n x) = x"
  by (simp add: be_val_be_bytes)

lemma be_bytes_be_val: "length bs = n \<Longrightarrow> be_bytes n (be_val bs) = bs"
proof (induction bs arbitrary: n rule: rev_induct)
  case Nil
  then show ?case by simp
next
  case (snoc b bs)
  then obtain m where m: "n = Suc m" "length bs = m" by auto
  have b: "unat b < 256" by (rule byte_less)
  have "(be_val bs * 256 + unat b) div 256 = be_val bs" using b by simp
  moreover have "(be_val bs * 256 + unat b) mod 256 = unat b" using b by simp
  ultimately show ?case using snoc.IH [OF m(2)] m(1) by simp
qed

lemma be_bytes_inj:
  "x < 256 ^ n \<Longrightarrow> y < 256 ^ n \<Longrightarrow> be_bytes n x = be_bytes n y \<Longrightarrow> x = y"
  by (metis be_val_be_bytes_id)

lemma length_ascii [simp]: "length (ascii s) = length s"
  by (simp add: ascii_def)

section \<open>Ordered containers\<close>

text \<open>
  Iteration over a \<open>BTreeMap\<close> or a \<open>BTreeSet\<close> is in increasing key order.
  \<open>fm_any\<close> is \<open>iter().any(..)\<close>, \<open>fm_values\<close> is \<open>values().copied().collect()\<close>.
\<close>

definition fm_values :: "('k::linorder, 'v) fmap \<Rightarrow> 'v list" where
  "fm_values m = map snd (sorted_list_of_fmap m)"

definition fm_any :: "('k::linorder \<Rightarrow> 'v \<Rightarrow> bool) \<Rightarrow> ('k, 'v) fmap \<Rightarrow> bool" where
  "fm_any P m = list_ex (\<lambda>(k, v). P k v) (sorted_list_of_fmap m)"

definition contains_key :: "('k, 'v) fmap \<Rightarrow> 'k \<Rightarrow> bool" where
  "contains_key m k = (fmlookup m k \<noteq> None)"

lemma set_sorted_list_of_fmap [simp]:
  "set (sorted_list_of_fmap m) = {(k, v). fmlookup m k = Some v}"
  by (auto simp: sorted_list_of_fmap_def fmlookup_dom_iff image_iff)

lemma fst_sorted_list_of_fmap:
  "map fst (sorted_list_of_fmap m) = sorted_list_of_fset (fmdom m)"
  by (simp add: sorted_list_of_fmap_def o_def)

lemma distinct_sorted_list_of_fmap [simp]: "distinct (map fst (sorted_list_of_fmap m))"
  by (simp add: fst_sorted_list_of_fmap sorted_list_of_fset.rep_eq)

lemma sorted_sorted_list_of_fmap [simp]: "sorted (map fst (sorted_list_of_fmap m))"
  by (simp add: fst_sorted_list_of_fmap sorted_list_of_fset.rep_eq)

lemma set_fm_values [container_simps]: "set (fm_values m) = {v. \<exists>k. fmlookup m k = Some v}"
  by (auto simp: fm_values_def image_iff)

lemma fm_any_iff [container_simps]:
  "fm_any P m \<longleftrightarrow> (\<exists>k v. fmlookup m k = Some v \<and> P k v)"
  by (auto simp: fm_any_def list_ex_iff)

lemma contains_key_iff [container_simps]: "contains_key m k \<longleftrightarrow> (\<exists>v. fmlookup m k = Some v)"
  by (auto simp: contains_key_def)

lemma not_contains_key: "\<not> contains_key m k \<longleftrightarrow> fmlookup m k = None"
  by (simp add: contains_key_def)

lemma fmupd_twice [container_simps]: "fmupd k v (fmupd k u m) = fmupd k v m"
  by (rule fmap_ext) simp

lemmas op_Ok = try_in_Ok_iff ok_or_Ok_iff guard_in_Ok not_contains_key not_not not_le

lemma sorted_list_of_fmap_empty [simp]: "sorted_list_of_fmap fmempty = []"
  by (simp add: sorted_list_of_fmap_def sorted_list_of_fset.rep_eq)

text \<open>
  \<open>fm_count P m\<close> is the number of entries whose value satisfies \<open>P\<close>; counters kept beside a
  map are compared with it.
\<close>

definition fm_count :: "('v \<Rightarrow> bool) \<Rightarrow> ('k::linorder, 'v) fmap \<Rightarrow> nat" where
  "fm_count P m = length (filter P (fm_values m))"

lemma fm_count_card:
  "fm_count P m = card {k. \<exists>v. fmlookup m k = Some v \<and> P v}"
proof -
  have "fm_count P m = length (filter (\<lambda>e. P (snd e)) (sorted_list_of_fmap m))"
    by (simp add: fm_count_def fm_values_def filter_map o_def)
  also have "\<dots> = length (map fst (filter (\<lambda>e. P (snd e)) (sorted_list_of_fmap m)))" by simp
  also have "\<dots> = card (fst ` set (filter (\<lambda>e. P (snd e)) (sorted_list_of_fmap m)))"
    by (metis distinct_card distinct_map_filter distinct_sorted_list_of_fmap list.set_map)
  also have "fst ` set (filter (\<lambda>e. P (snd e)) (sorted_list_of_fmap m)) = {k. \<exists>v. fmlookup m k = Some v \<and> P v}"
    by force
  finally show ?thesis .
qed

lemma finite_fm_keys [simp]: "finite {k. \<exists>v. fmlookup m k = Some v \<and> P v}"
proof (rule finite_subset)
  show "{k. \<exists>v. fmlookup m k = Some v \<and> P v} \<subseteq> fset (fmdom m)" by (auto simp: fmlookup_dom_iff)
qed simp

lemma fm_count_upd_new [container_simps]:
  assumes "fmlookup m k = None"
  shows "fm_count P (fmupd k v m) = fm_count P m + (if P v then 1 else 0)"
proof -
  have "{l. \<exists>u. fmlookup (fmupd k v m) l = Some u \<and> P u} =
      (if P v then {k} else {}) \<union> {l. \<exists>u. fmlookup m l = Some u \<and> P u}"
    using assms by auto
  moreover have "k \<notin> {l. \<exists>u. fmlookup m l = Some u \<and> P u}" using assms by simp
  ultimately show ?thesis
    by (simp only: fm_count_card) (simp add: card_insert_if del: fmupd_lookup)
qed

lemma fm_count_drop:
  assumes "fmlookup m k = Some v"
  shows "fm_count P m = fm_count P (fmdrop k m) + (if P v then 1 else 0)"
proof -
  have "{l. \<exists>u. fmlookup m l = Some u \<and> P u} =
      (if P v then {k} else {}) \<union> {l. \<exists>u. fmlookup (fmdrop k m) l = Some u \<and> P u}"
    using assms by (auto split: if_splits)
  moreover have "k \<notin> {l. \<exists>u. fmlookup (fmdrop k m) l = Some u \<and> P u}" by simp
  ultimately show ?thesis
    by (simp only: fm_count_card) (simp add: card_insert_if del: fmlookup_drop)
qed

lemma fm_count_empty [simp]: "fm_count P fmempty = 0"
  by (simp add: fm_count_card)

lemma fm_count_pos: "fmlookup m k = Some v \<Longrightarrow> P v \<Longrightarrow> 0 < fm_count P m"
  using fm_count_drop [of m k v P] by simp

lemma fm_count_zero: "(\<And>k v. fmlookup m k = Some v \<Longrightarrow> \<not> P v) \<Longrightarrow> fm_count P m = 0"
  by (simp add: fm_count_card)

text \<open>
  A map is recovered from its sorted listing; this is what rehydration from a persisted
  image relies on.
\<close>

lemma fmap_of_sorted_list [simp]: "fmap_of_list (sorted_list_of_fmap m) = m"
  by (rule fmap_ext) (simp add: fmlookup_of_list)

lemma fset_of_sorted_list [simp]: "fset_of_list (sorted_list_of_fset s) = s"
  by (rule fset_eqI) (simp add: sorted_list_of_fset.rep_eq fset_of_list_elem)

lemma distinct_sorted_list_of_fset [simp]: "distinct (sorted_list_of_fset s)"
  by (simp add: sorted_list_of_fset.rep_eq)

end
