(* ===== verification/Domain_Ids.thy ===== *)
theory Domain_Ids
  imports Prelude
begin

text \<open>
  The crate \<open>dtx-domain\<close>: typed identifiers and the aggregate revision.
  A \<open>[u8; 32]\<close> digest is the 256-bit word with those big-endian bytes and a \<open>Uuid\<close> the
  128-bit word, so that the derived lexicographic \<open>Ord\<close> is the order of the words. The
  macros \<open>define_public_id!\<close> and \<open>define_uuid_v7_id!\<close> are types with a phantom kind.
\<close>

unbundle bit_operations_syntax

section \<open>Revisions\<close>

datatype Revision = Revision (rev_get: u64)

datatype RevisionError = OutOfRange | Overflow

definition Revision_MAX :: u64 where
  "Revision_MAX = push_bit 53 1 - 1"

definition Revision_INITIAL :: Revision where
  "Revision_INITIAL = Revision 1"

definition Revision_new :: "u64 \<Rightarrow> RevisionError + Revision" where
  "Revision_new value =
     (if value = 0 \<or> value > Revision_MAX then Inl OutOfRange else Inr (Revision value))"

definition checked_next :: "Revision \<Rightarrow> RevisionError + Revision" where
  "checked_next self =
     (if rev_get self = Revision_MAX then Inl Overflow else Inr (Revision (rev_get self + 1)))"

instantiation Revision :: linorder
begin

definition less_eq_Revision :: "Revision \<Rightarrow> Revision \<Rightarrow> bool" where
  "less_eq_Revision a b = (rev_get a \<le> rev_get b)"

definition less_Revision :: "Revision \<Rightarrow> Revision \<Rightarrow> bool" where
  "less_Revision a b = (rev_get a < rev_get b)"

instance
  by standard (auto simp: less_eq_Revision_def less_Revision_def intro: Revision.expand)

end

definition valid_revision :: "Revision \<Rightarrow> bool" where
  "valid_revision r = (0 < rev_get r \<and> rev_get r \<le> Revision_MAX)"

lemma Revision_MAX_val [simp]: "unat Revision_MAX = 2 ^ 53 - 1"
  by (simp add: Revision_MAX_def)

lemma Revision_new_valid: "Revision_new v = Inr r \<longleftrightarrow> valid_revision r \<and> r = Revision v"
  by (cases r) (auto simp: Revision_new_def valid_revision_def word_gt_0 not_less)

lemma valid_revision_initial [simp]: "valid_revision Revision_INITIAL"
  by (simp add: valid_revision_def Revision_INITIAL_def Revision_MAX_def)

lemma checked_next_succ:
  assumes "checked_next r = Inr s" "valid_revision r"
  shows "unat (rev_get s) = unat (rev_get r) + 1" and "valid_revision s" and "r < s"
proof -
  from assms have ne: "rev_get r \<noteq> Revision_MAX" and s: "s = Revision (rev_get r + 1)"
    by (auto simp: checked_next_def split: if_splits)
  from assms(2) ne have lt: "unat (rev_get r) < 2 ^ 53 - 1"
    by (metis Revision_MAX_val order_le_less valid_revision_def word_less_nat_alt)
  then have u: "unat (rev_get r + 1) = unat (rev_get r) + 1"
    by (simp add: unat_word_ariths)
  then show "unat (rev_get s) = unat (rev_get r) + 1" by (simp add: s)
  show "valid_revision s" using u lt
    by (simp add: s valid_revision_def word_le_nat_alt word_less_nat_alt)
  show "r < s" using u by (simp add: s less_Revision_def word_less_nat_alt)
qed

section \<open>UUIDv7 identifiers\<close>

datatype 'kind uuid_id = UuidId (as_uuid: "128 word")

datatype conversation_kind = ConversationKind
datatype device_kind = DeviceKind
datatype request_kind = RequestKind
datatype invite_kind = InviteKind
datatype join_kind = JoinKind

type_synonym ConversationId = "conversation_kind uuid_id"
type_synonym DeviceId = "device_kind uuid_id"
type_synonym RequestId = "request_kind uuid_id"
type_synonym InviteCapabilityId = "invite_kind uuid_id"
type_synonym JoinRequestId = "join_kind uuid_id"

instantiation uuid_id :: (type) linorder
begin

definition less_eq_uuid_id :: "'a uuid_id \<Rightarrow> 'a uuid_id \<Rightarrow> bool" where
  "less_eq_uuid_id a b = (as_uuid a \<le> as_uuid b)"

definition less_uuid_id :: "'a uuid_id \<Rightarrow> 'a uuid_id \<Rightarrow> bool" where
  "less_uuid_id a b = (as_uuid a < as_uuid b)"

instance
  by standard (auto simp: less_eq_uuid_id_def less_uuid_id_def intro: uuid_id.expand)

end

text \<open>
  \<open>parse_uuid_v7\<close> calls the \<open>uuid\<close> crate, which is not part of the repository: its parser,
  its hyphenated printer and its two field readers are arguments.
\<close>

datatype IdParseError = InvalidUuid | NonCanonicalText | UnsupportedVersion nat | UnsupportedVariant

definition parse_uuid_v7 ::
  "(byte list \<Rightarrow> (128 word) option) \<Rightarrow> (128 word \<Rightarrow> byte list) \<Rightarrow> (128 word \<Rightarrow> bool)
    \<Rightarrow> (128 word \<Rightarrow> nat) \<Rightarrow> byte list \<Rightarrow> IdParseError + 'kind uuid_id" where
  "parse_uuid_v7 parse_str hyphenated is_rfc4122 version_num value =
     res_bind (ok_or InvalidUuid (parse_str value)) (\<lambda>uuid.
       if hyphenated uuid \<noteq> value then Inl NonCanonicalText
       else if \<not> is_rfc4122 uuid then Inl UnsupportedVariant
       else if version_num uuid \<noteq> 7 then Inl (UnsupportedVersion (version_num uuid))
       else Inr (UuidId uuid))"

section \<open>Public identifiers\<close>

datatype 'kind public_id = PublicId (digest_word: "256 word")

datatype identity_kind = IdentityKind
datatype channel_kind = ChannelKind
datatype agent_kind = AgentKind

type_synonym IdentityId = "identity_kind public_id"
type_synonym ChannelId = "channel_kind public_id"
type_synonym AgentId = "agent_kind public_id"

instantiation public_id :: (type) linorder
begin

definition less_eq_public_id :: "'a public_id \<Rightarrow> 'a public_id \<Rightarrow> bool" where
  "less_eq_public_id a b = (digest_word a \<le> digest_word b)"

definition less_public_id :: "'a public_id \<Rightarrow> 'a public_id \<Rightarrow> bool" where
  "less_public_id a b = (digest_word a < digest_word b)"

instance
  by standard (auto simp: less_eq_public_id_def less_public_id_def intro: public_id.expand)

end

definition digest_bytes :: "'kind public_id \<Rightarrow> byte list" where
  "digest_bytes self = be_bytes 32 (unat (digest_word self))"

end
