(* ===== verification/Codec.thy ===== *)
theory Codec
  imports Prelude
begin

text \<open>
  The contract of a canonical codec: \<open>render\<close> writes the well-formed values and \<open>parse\<close>
  reads exactly what \<open>render\<close> writes. The textual identifiers, the hexadecimal digests, the
  protocol version and the deterministic CBOR profile all promise it.
\<close>

locale canonical_codec =
  fixes render :: "'a \<Rightarrow> byte list"
    and parse :: "byte list \<Rightarrow> 'e + 'a"
    and wf :: "'a \<Rightarrow> bool"
  assumes parse_render: "wf a \<Longrightarrow> parse (render a) = Inr a"
    and render_parse: "parse s = Inr a \<Longrightarrow> render a = s"
    and parse_wf: "parse s = Inr a \<Longrightarrow> wf a"
begin

lemma parse_Ok_iff: "parse s = Inr a \<longleftrightarrow> wf a \<and> s = render a"
  using parse_render render_parse parse_wf by blast

lemma render_inj: "wf a \<Longrightarrow> wf b \<Longrightarrow> render a = render b \<Longrightarrow> a = b"
  using parse_render by (metis sum.inject(2))

lemma parse_unique: "parse s = Inr a \<Longrightarrow> parse t = Inr a \<Longrightarrow> s = t"
  using render_parse by metis

lemma accepts_iff: "is_ok (parse s) \<longleftrightarrow> s \<in> render ` {a. wf a}"
  using parse_Ok_iff by (auto simp: result_simps)

end

end
