(* ===== verification/Public_Id.thy ===== *)
theory Public_Id
  imports Domain_Ids Codec
begin

text \<open>
  The public identifiers of \<open>dtx-domain/src/public_id.rs\<close>: derivation from a subject key, the
  Base32 codec, modelled loop by loop on its 16-bit buffer, and the textual forms. The
  codec is shown to be a bijection between 32-byte digests and canonical texts, and its
  decoder never to panic.
\<close>

unbundle bit_operations_syntax

section \<open>Definitions\<close>

definition PUBLIC_ID_LENGTH :: nat where
  "PUBLIC_ID_LENGTH = 57"

definition ENCODED_DIGEST_LENGTH :: nat where
  "ENCODED_DIGEST_LENGTH = 52"

definition BASE32_ALPHABET :: "byte list" where
  "BASE32_ALPHABET = ascii ''abcdefghijklmnopqrstuvwxyz234567''"

datatype PublicIdParseError =
    InvalidLength nat
  | InvalidPrefix "byte list"
  | InvalidCharacter
  | NonCanonicalTrailingBits

subsection \<open>The Base32 codec\<close>

definition low_bits_mask :: "nat \<Rightarrow> u16" where
  "low_bits_mask bits = (if bits = 0 then 0 else push_bit bits 1 - 1)"

text \<open>The inner loop \<open>while bits >= 5\<close> of \<open>encode_base32\<close>.\<close>

fun encode_drain :: "u16 \<Rightarrow> nat \<Rightarrow> byte list \<Rightarrow> u16 \<times> nat \<times> byte list" where
  "encode_drain buffer bits output =
     (if bits \<ge> 5 then
        let bits' = bits - 5;
            alphabet_index = unat (drop_bit bits' buffer AND 0x1f)
        in encode_drain (buffer AND low_bits_mask bits') bits'
             (output @ [BASE32_ALPHABET ! alphabet_index])
      else (buffer, bits, output))"

fun encode_bytes :: "byte list \<Rightarrow> u16 \<times> nat \<times> byte list \<Rightarrow> u16 \<times> nat \<times> byte list" where
  "encode_bytes [] st = st"
| "encode_bytes (b # bs) (buffer, bits, output) =
     encode_bytes bs (encode_drain (push_bit 8 buffer OR ucast b) (bits + 8) output)"

definition encode_base32 :: "byte list \<Rightarrow> byte list" where
  "encode_base32 digest =
     (case encode_bytes digest (0, 0, []) of (buffer, bits, output) \<Rightarrow>
        if bits > 0
        then output @ [BASE32_ALPHABET ! unat (push_bit (5 - bits) buffer AND 0x1f)]
        else output)"

definition alphabet_position :: "byte \<Rightarrow> nat option" where
  "alphabet_position c =
     (let i = length (takeWhile (\<lambda>x. x \<noteq> c) BASE32_ALPHABET)
      in if i < length BASE32_ALPHABET then Some i else None)"

text \<open>
  \<open>decode_base32\<close> writes into a 32-byte array; a byte that no longer fits in it is dropped,
  and \<open>u8::try_from(..).expect(..)\<close> is a panic when the shifted buffer exceeds a byte.
\<close>

fun decode_chars ::
  "byte list \<Rightarrow> u16 \<times> nat \<times> byte list \<Rightarrow> PublicIdParseError fault + (u16 \<times> nat \<times> byte list)" where
  "decode_chars [] st = Inr st"
| "decode_chars (c # cs) (buffer, bits, output) =
     (case alphabet_position c of
        None \<Rightarrow> Inl (Fail InvalidCharacter)
      | Some alphabet_index \<Rightarrow>
          let buffer' = push_bit 5 buffer OR of_nat alphabet_index;
              bits' = bits + 5
          in if bits' \<ge> 8 then
               let bits'' = bits' - 8;
                   decoded = drop_bit bits'' buffer'
               in if length output < 32 then
                    if unat decoded < 256
                    then decode_chars cs (buffer' AND low_bits_mask bits'', bits'',
                           output @ [ucast decoded])
                    else Inl Panic
                  else decode_chars cs (buffer' AND low_bits_mask bits'', bits'', output)
             else decode_chars cs (buffer', bits', output))"

definition decode_base32 :: "byte list \<Rightarrow> PublicIdParseError fault + byte list" where
  "decode_base32 value =
     res_bind (decode_chars value (0, 0, [])) (\<lambda>(buffer, bits, output).
       if length output \<noteq> 32 \<or> bits \<noteq> 4 \<or> buffer \<noteq> 0
       then Inl (Fail NonCanonicalTrailingBits)
       else Inr output)"

definition strip_prefix :: "byte list \<Rightarrow> byte list \<Rightarrow> (byte list) option" where
  "strip_prefix prefix value =
     (if take (length prefix) value = prefix then Some (drop (length prefix) value) else None)"

definition parse_public_id ::
  "byte list \<Rightarrow> byte list \<Rightarrow> PublicIdParseError fault + 'kind public_id" where
  "parse_public_id prefix value =
     (if length value \<noteq> PUBLIC_ID_LENGTH then Inl (Fail (InvalidLength (length value)))
      else res_bind (ok_or (Fail (InvalidPrefix prefix)) (strip_prefix prefix value)) (\<lambda>encoded.
        map_ok (\<lambda>bytes. PublicId (of_nat (be_val bytes))) (decode_base32 encoded)))"

definition display_public_id :: "byte list \<Rightarrow> 'kind public_id \<Rightarrow> byte list" where
  "display_public_id prefix self = prefix @ encode_base32 (digest_bytes self)"

subsection \<open>Subject keys and derivation\<close>

text \<open>
  Ed25519 comes from the \<open>ed25519-dalek\<close> crate: decompression, recompression and the small-order
  test are arguments. \<open>sha256\<close> is the hash of the \<open>sha2\<close> crate.
\<close>

datatype Ed25519PublicKey = Ed25519PublicKey (key_bytes: "byte list")

datatype PublicKeyError =
    KeyInvalidLength nat
  | InvalidEncoding
  | NonCanonicalEncoding
  | WeakKey

definition key_try_from_array ::
  "(byte list \<Rightarrow> 'point option) \<Rightarrow> ('point \<Rightarrow> byte list) \<Rightarrow> ('point \<Rightarrow> bool)
    \<Rightarrow> byte list \<Rightarrow> PublicKeyError + Ed25519PublicKey" where
  "key_try_from_array from_bytes compress is_weak value =
     res_bind (ok_or InvalidEncoding (from_bytes value)) (\<lambda>key.
       if compress key \<noteq> value then Inl NonCanonicalEncoding
       else if is_weak key then Inl WeakKey
       else Inr (Ed25519PublicKey value))"

definition key_try_from_slice ::
  "(byte list \<Rightarrow> 'point option) \<Rightarrow> ('point \<Rightarrow> byte list) \<Rightarrow> ('point \<Rightarrow> bool)
    \<Rightarrow> byte list \<Rightarrow> PublicKeyError + Ed25519PublicKey" where
  "key_try_from_slice from_bytes compress is_weak value =
     (if length value \<noteq> 32 then Inl (KeyInvalidLength (length value))
      else key_try_from_array from_bytes compress is_weak value)"

definition derive_digest :: "(byte list \<Rightarrow> 256 word) \<Rightarrow> byte list \<Rightarrow> Ed25519PublicKey \<Rightarrow> 256 word" where
  "derive_digest sha256 domain key = sha256 (domain @ key_bytes key)"

definition identity_domain :: "byte list" where
  "identity_domain = ascii ''dirextalk.identity.v1'' @ [0]"

definition channel_domain :: "byte list" where
  "channel_domain = ascii ''dirextalk.channel.v1'' @ [0]"

definition agent_domain :: "byte list" where
  "agent_domain = ascii ''dirextalk.agent.v1'' @ [0]"

definition derive ::
  "(byte list \<Rightarrow> 256 word) \<Rightarrow> byte list \<Rightarrow> Ed25519PublicKey \<Rightarrow> 'kind public_id" where
  "derive sha256 domain key = PublicId (derive_digest sha256 domain key)"

datatype PublicIdBindingError = PublicIdBindingError

definition verify_subject_key ::
  "(byte list \<Rightarrow> 256 word) \<Rightarrow> byte list \<Rightarrow> 'kind public_id \<Rightarrow> Ed25519PublicKey
    \<Rightarrow> PublicIdBindingError + unit" where
  "verify_subject_key sha256 domain self key =
     (if self = derive sha256 domain key then Inr () else Inl PublicIdBindingError)"

definition identity_prefix :: "byte list" where "identity_prefix = ascii ''dtxi1''"
definition channel_prefix :: "byte list" where "channel_prefix = ascii ''dtxc1''"
definition agent_prefix :: "byte list" where "agent_prefix = ascii ''dtxa1''"

definition identity_to_string :: "IdentityId \<Rightarrow> byte list" where
  "identity_to_string = display_public_id identity_prefix"

definition channel_to_string :: "ChannelId \<Rightarrow> byte list" where
  "channel_to_string = display_public_id channel_prefix"

definition agent_to_string :: "AgentId \<Rightarrow> byte list" where
  "agent_to_string = display_public_id agent_prefix"

datatype PublicSubjectId = Identity IdentityId | Channel ChannelId | Agent AgentId

fun subject_to_string :: "PublicSubjectId \<Rightarrow> byte list" where
  "subject_to_string (Identity value) = identity_to_string value"
| "subject_to_string (Channel value) = channel_to_string value"
| "subject_to_string (Agent value) = agent_to_string value"

definition subject_from_str :: "byte list \<Rightarrow> PublicIdParseError fault + PublicSubjectId" where
  "subject_from_str value =
     (if strip_prefix identity_prefix value \<noteq> None
        then map_ok Identity (parse_public_id identity_prefix value)
      else if strip_prefix channel_prefix value \<noteq> None
        then map_ok Channel (parse_public_id channel_prefix value)
      else if strip_prefix agent_prefix value \<noteq> None
        then map_ok Agent (parse_public_id agent_prefix value)
      else Inl (Fail (InvalidPrefix (ascii ''dtxi1, dtxc1, or dtxa1''))))"

section \<open>The codec as positional notation\<close>

text \<open>
  Both loops keep one equation: the number read so far is the number written so far, shifted
  by the pending bits, plus the buffer, which fits in the pending bits.
\<close>

definition val32 :: "nat list \<Rightarrow> nat" where
  "val32 ds = foldl (\<lambda>a d. a * 32 + d) 0 ds"

definition letters :: "nat list \<Rightarrow> byte list" where
  "letters ds = map (\<lambda>d. BASE32_ALPHABET ! d) ds"

lemma val32_Nil [simp]: "val32 [] = 0"
  by (simp add: val32_def)

lemma val32_snoc [simp]: "val32 (ds @ [d]) = val32 ds * 32 + d"
  by (simp add: val32_def)

lemma letters_snoc [simp]: "letters (ds @ [d]) = letters ds @ [BASE32_ALPHABET ! d]"
  by (simp add: letters_def)

lemma letters_Nil [simp]: "letters [] = []"
  by (simp add: letters_def)

lemma length_letters [simp]: "length (letters ds) = length ds"
  by (simp add: letters_def)

lemma val32_inj:
  assumes "length ds = length es" "\<forall>d\<in>set ds. d < 32" "\<forall>e\<in>set es. e < 32" "val32 ds = val32 es"
  shows "ds = es"
  using assms
proof (induction ds arbitrary: es rule: rev_induct)
  case Nil
  then show ?case by simp
next
  case (snoc d ds)
  then obtain e es' where es: "es = es' @ [e]" by (cases es rule: rev_cases) auto
  with snoc.prems have eq: "val32 ds * 32 + d = val32 es' * 32 + e" and d: "d < 32" and e: "e < 32"
    by auto
  from eq have "(val32 ds * 32 + d) mod 32 = (val32 es' * 32 + e) mod 32" by simp
  with d e have "d = e" by simp
  with eq have "val32 ds = val32 es'" by simp
  with snoc es \<open>d = e\<close> show ?case by auto
qed

lemma alphabet_bytes:
  "BASE32_ALPHABET =
     [97, 98, 99, 100, 101, 102, 103, 104, 105, 106, 107, 108, 109, 110, 111, 112, 113, 114,
      115, 116, 117, 118, 119, 120, 121, 122, 50, 51, 52, 53, 54, 55]"
  unfolding BASE32_ALPHABET_def ascii_def by code_simp

lemma length_alphabet [simp]: "length BASE32_ALPHABET = 32"
  by (simp add: alphabet_bytes)

lemma distinct_alphabet: "distinct BASE32_ALPHABET"
  by (simp add: alphabet_bytes)

lemma ascii_alphabet: "list_all (\<lambda>b. b < 0x80) BASE32_ALPHABET"
  unfolding alphabet_bytes by code_simp

section \<open>The two loops and the round trips\<close>

lemma low_bits_mask_eq: "low_bits_mask n = mask n"
  by (simp add: low_bits_mask_def mask_eq_exp_minus_1 push_bit_eq_mult)

definition enc_inv :: "nat \<Rightarrow> nat \<Rightarrow> u16 \<times> nat \<times> byte list \<Rightarrow> nat list \<Rightarrow> bool" where
  "enc_inv V L st ds = (case st of (buffer, bits, out) \<Rightarrow>
     out = letters ds \<and> (\<forall>d\<in>set ds. d < 32) \<and> V = val32 ds * 2 ^ bits + unat buffer
     \<and> unat buffer < 2 ^ bits \<and> L = length ds * 5 + bits)"

declare encode_drain.simps [simp del]

lemma encode_drain_inv:
  assumes "enc_inv V L (buffer, bits, out) ds" "bits \<le> 12"
  shows "\<exists>ds'. enc_inv V L (encode_drain buffer bits out) ds'
     \<and> fst (snd (encode_drain buffer bits out)) < 5"
  using assms
proof (induction buffer bits out arbitrary: ds rule: encode_drain.induct)
  case (1 buffer bits out)
  show ?case
  proof (cases "bits \<ge> 5")
    case False
    then have "encode_drain buffer bits out = (buffer, bits, out)"
      by (subst encode_drain.simps) simp
    with False "1.prems" show ?thesis by auto
  next
    case True
    define bits' where "bits' = bits - 5"
    define d where "d = unat (drop_bit bits' buffer AND 0x1f)"
    have bits: "bits = bits' + 5" using True by (simp add: bits'_def)
    have B: "unat buffer < 2 ^ bits' * 32" using "1.prems" by (simp add: enc_inv_def bits power_add)
    have d: "d = unat buffer div 2 ^ bits'"
    proof -
      have "unat buffer div 2 ^ bits' < 32" using B by (simp add: less_mult_imp_div_less mult.commute)
      then show ?thesis by (simp add: d_def mask_1f unat_and_mask unat_drop_bit)
    qed
    have d32: "d < 32" using B by (simp add: d less_mult_imp_div_less mult.commute)
    have "val32 ds * 2 ^ bits + unat buffer = val32 (ds @ [d]) * 2 ^ bits' + unat buffer mod 2 ^ bits'"
      by (simp add: bits d power_add algebra_simps)
    with "1.prems" d32 have
      "enc_inv V L (buffer AND low_bits_mask bits', bits', out @ [BASE32_ALPHABET ! d]) (ds @ [d])"
      by (auto simp: enc_inv_def low_bits_mask_eq unat_and_mask bits)
    from "1.IH" [OF True bits'_def d_def this] "1.prems"(2)
    obtain ds' where "enc_inv V L (encode_drain (buffer AND low_bits_mask bits') bits'
        (out @ [BASE32_ALPHABET ! d])) ds'
      \<and> fst (snd (encode_drain (buffer AND low_bits_mask bits') bits'
        (out @ [BASE32_ALPHABET ! d]))) < 5"
      by (auto simp: bits)
    moreover have "encode_drain buffer bits out
       = encode_drain (buffer AND low_bits_mask bits') bits' (out @ [BASE32_ALPHABET ! d])"
      using True by (subst encode_drain.simps) (simp add: bits'_def d_def Let_def)
    ultimately show ?thesis by auto
  qed
qed

lemma encode_bytes_inv:
  assumes "enc_inv (be_val as) (8 * length as) (buffer, bits, out) ds" "bits < 5"
  shows "\<exists>buffer' bits' out' ds'. encode_bytes bs (buffer, bits, out) = (buffer', bits', out')
     \<and> bits' < 5 \<and> enc_inv (be_val (as @ bs)) (8 * length (as @ bs)) (buffer', bits', out') ds'"
  using assms
proof (induction bs arbitrary: as buffer bits out ds)
  case Nil
  then show ?case by auto
next
  case (Cons b bs)
  have "(2::nat) ^ bits \<le> 2 ^ 4" using Cons.prems(2) by (intro power_increasing) auto
  with Cons.prems(1) have "unat buffer < 16" by (auto simp: enc_inv_def)
  then have u: "unat (push_bit 8 buffer OR ucast b) = unat buffer * 256 + unat b"
    using unat_push_or [of buffer 8 "ucast b"] by (simp add: unat_ucast_mod less_trans [OF byte_less])
  have lt: "unat buffer * 256 + unat b < 2 ^ (bits + 8)"
  proof -
    have "unat buffer + 1 \<le> 2 ^ bits" using Cons.prems(1) by (simp add: enc_inv_def)
    then have "(unat buffer + 1) * 256 \<le> 2 ^ bits * 256" by (rule mult_le_mono1)
    then have "unat buffer * 256 + 256 \<le> 2 ^ (bits + 8)" by (simp add: power_add)
    then show ?thesis by (rule less_le_trans [rotated]) simp
  qed
  have "enc_inv (be_val (as @ [b])) (8 * length (as @ [b]))
          (push_bit 8 buffer OR ucast b, bits + 8, out) ds"
    using Cons.prems(1) lt u by (auto simp: enc_inv_def power_add)
  from encode_drain_inv [OF this] Cons.prems(2)
  obtain buffer1 bits1 out1 ds1 where
    st: "encode_drain (push_bit 8 buffer OR ucast b) (bits + 8) out = (buffer1, bits1, out1)"
    and inv: "enc_inv (be_val (as @ [b])) (8 * length (as @ [b])) (buffer1, bits1, out1) ds1"
    and lt5: "bits1 < 5"
    by (cases "encode_drain (push_bit 8 buffer OR ucast b) (bits + 8) out") auto
  show ?case using Cons.IH [OF inv lt5] st by simp
qed

lemma encode_base32_digits:
  assumes "length bs = 32"
  shows "\<exists>ds. encode_base32 bs = letters ds \<and> length ds = 52 \<and> (\<forall>d\<in>set ds. d < 32)
     \<and> val32 ds = 16 * be_val bs"
proof -
  have "enc_inv (be_val []) (8 * length ([]::byte list)) (0, 0, []) []" by (simp add: enc_inv_def)
  from encode_bytes_inv [OF this, of bs]
  obtain buffer bits out ds where run: "encode_bytes bs (0, 0, []) = (buffer, bits, out)"
    and bits: "bits < 5" and inv: "enc_inv (be_val bs) 256 (buffer, bits, out) ds"
    by (auto simp: assms)
  from inv have L: "256 = length ds * 5 + bits" by (simp add: enc_inv_def)
  with bits have b1: "bits = 1" and len: "length ds = 51" by arith+
  define d where "d = unat (push_bit (5 - bits) buffer AND 0x1f)"
  have lt: "unat buffer < 2" using inv b1 by (simp add: enc_inv_def)
  have p: "unat (push_bit 4 buffer) = unat buffer * 16"
    using unat_push_or [of buffer 4 0] lt by simp
  have d: "d = unat buffer * 16" using lt by (simp add: d_def b1 mask_1f unat_and_mask p)
  have "encode_base32 bs = letters (ds @ [d])"
    using inv by (simp add: encode_base32_def run b1 enc_inv_def d_def)
  moreover have "val32 (ds @ [d]) = 16 * be_val bs" using inv by (simp add: enc_inv_def b1 d)
  moreover have "\<forall>x\<in>set (ds @ [d]). x < 32" using inv lt by (auto simp: enc_inv_def d)
  ultimately show ?thesis using len by (metis length_append_singleton numeral_eq_Suc Suc_numeral semiring_norm(2,5,8))
qed

definition dec_inv :: "nat list \<Rightarrow> u16 \<times> nat \<times> byte list \<Rightarrow> bool" where
  "dec_inv ds st = (case st of (buffer, bits, out) \<Rightarrow>
     val32 ds = be_val out * 2 ^ bits + unat buffer \<and> unat buffer < 2 ^ bits \<and> bits < 8
     \<and> length ds * 5 = length out * 8 + bits)"

lemma alphabet_position_nth [simp]: "d < 32 \<Longrightarrow> alphabet_position (BASE32_ALPHABET ! d) = Some d"
proof -
  assume d: "d < 32"
  have "takeWhile (\<lambda>x. x \<noteq> BASE32_ALPHABET ! d) BASE32_ALPHABET = take d BASE32_ALPHABET"
    using d distinct_alphabet by (intro takeWhile_eq_take_P_nth) (auto simp: nth_eq_iff_index_eq)
  then show ?thesis using d by (simp add: alphabet_position_def Let_def)
qed

lemma alphabet_position_Some: "alphabet_position c = Some d \<Longrightarrow> d < 32 \<and> BASE32_ALPHABET ! d = c"
  using nth_length_takeWhile [of "\<lambda>x. x \<noteq> c" BASE32_ALPHABET]
  by (auto simp: alphabet_position_def Let_def split: if_splits)

lemma decode_step:
  assumes inv: "dec_inv ds (buffer, bits, out)" and c: "alphabet_position c = Some d"
    and len: "length ds < 52"
  shows "\<exists>st. dec_inv (ds @ [d]) st \<and> decode_chars (c # cs) (buffer, bits, out) = decode_chars cs st"
proof -
  from c have d: "d < 32" by (simp add: alphabet_position_Some)
  define b1 where "b1 = push_bit 5 buffer OR (of_nat d :: u16)"
  have B: "unat buffer < 2 ^ bits" and bits: "bits < 8" using inv by (auto simp: dec_inv_def)
  have "(2::nat) ^ bits \<le> 2 ^ 7" using bits by (intro power_increasing) auto
  with B have B128: "unat buffer < 128" by simp
  have "unat (of_nat d :: u16) = d" using d by (simp add: unat_of_nat)
  then have u: "unat b1 = unat buffer * 32 + d"
    using unat_push_or [of buffer 5 "of_nat d"] B128 d by (simp add: b1_def)
  have lt: "unat b1 < 2 ^ (bits + 5)"
  proof -
    have "(unat buffer + 1) * 32 \<le> 2 ^ bits * 32" using B by (intro mult_le_mono1) simp
    then show ?thesis using d by (simp add: u power_add)
  qed
  have V: "val32 (ds @ [d]) = be_val out * 2 ^ (bits + 5) + unat b1"
    using inv by (simp add: dec_inv_def u power_add)
  show ?thesis
  proof (cases "bits + 5 \<ge> 8")
    case False
    then have "dec_inv (ds @ [d]) (b1, bits + 5, out)" using inv V lt by (auto simp: dec_inv_def)
    moreover have "decode_chars (c # cs) (buffer, bits, out) = decode_chars cs (b1, bits + 5, out)"
      using False c by (simp add: b1_def Let_def)
    ultimately show ?thesis by blast
  next
    case True
    define k where "k = bits + 5 - 8"
    have k: "bits + 5 = k + 8" using True by (simp add: k_def)
    define y where "y = drop_bit k b1"
    have y: "unat y = unat b1 div 2 ^ k" by (simp add: y_def unat_drop_bit)
    have y256: "unat y < 256" using lt by (simp add: y k power_add less_mult_imp_div_less mult.commute)
    have uc: "unat (ucast y :: byte) = unat y" using y256 by (simp add: unat_ucast_mod)
    have out32: "length out < 32" using inv len bits by (simp add: dec_inv_def)
    have "be_val out * 2 ^ (bits + 5) + unat b1 = be_val (out @ [ucast y]) * 2 ^ k + unat b1 mod 2 ^ k"
      by (simp add: k uc y power_add algebra_simps)
    then have "dec_inv (ds @ [d]) (b1 AND low_bits_mask k, k, out @ [ucast y])"
      using inv V bits k by (auto simp: dec_inv_def low_bits_mask_eq unat_and_mask)
    moreover have "decode_chars (c # cs) (buffer, bits, out)
        = decode_chars cs (b1 AND low_bits_mask k, k, out @ [ucast y])"
      using True c out32 y256 by (simp add: b1_def y_def k_def Let_def)
    ultimately show ?thesis by blast
  qed
qed

lemma decode_chars_letters:
  assumes "dec_inv ds st" "\<forall>e\<in>set es. e < 32" "length ds + length es \<le> 52"
  shows "\<exists>st'. decode_chars (letters es) st = Inr st' \<and> dec_inv (ds @ es) st'"
  using assms
proof (induction es arbitrary: ds st)
  case Nil
  then show ?case by (cases st) auto
next
  case (Cons e es)
  obtain buffer bits out where st: "st = (buffer, bits, out)" by (cases st)
  from decode_step [of ds buffer bits out "BASE32_ALPHABET ! e" e "letters es"] Cons.prems st
  obtain st1 where inv: "dec_inv (ds @ [e]) st1"
    and run: "decode_chars (letters (e # es)) st = decode_chars (letters es) st1"
    by (auto simp: letters_def)
  from Cons.IH [OF inv] Cons.prems(2,3) run show ?case by simp
qed

lemma decode_chars_Ok:
  assumes "dec_inv ds st" "decode_chars cs st = Inr st'" "length ds + length cs \<le> 52"
  shows "\<exists>es. cs = letters es \<and> (\<forall>e\<in>set es. e < 32) \<and> dec_inv (ds @ es) st'"
  using assms
proof (induction cs arbitrary: ds st)
  case Nil
  then show ?case by (intro exI [of _ "[]"]) (cases st, auto)
next
  case (Cons c cs)
  obtain buffer bits out where st: "st = (buffer, bits, out)" by (cases st)
  with Cons.prems(2) obtain d where d: "alphabet_position c = Some d"
    by (auto split: option.splits)
  from decode_step [OF _ d, of ds buffer bits out cs] Cons.prems st
  obtain st1 where inv: "dec_inv (ds @ [d]) st1" and "decode_chars cs st1 = Inr st'"
    by auto
  from Cons.IH [OF this] Cons.prems(3) obtain es where
    "cs = letters es" "\<forall>e\<in>set es. e < 32" "dec_inv (ds @ d # es) st'" by auto
  with alphabet_position_Some [OF d] show ?case
    by (intro exI [of _ "d # es"]) (auto simp: letters_def)
qed

lemma decode_encode_base32: "length bs = 32 \<Longrightarrow> decode_base32 (encode_base32 bs) = Inr bs"
proof -
  assume len: "length bs = 32"
  from encode_base32_digits [OF this] obtain ds where
    enc: "encode_base32 bs = letters ds" and ds: "length ds = 52" "\<forall>d\<in>set ds. d < 32"
    and val: "val32 ds = 16 * be_val bs" by blast
  have "dec_inv [] (0, 0, [])" by (simp add: dec_inv_def)
  from decode_chars_letters [OF this ds(2)] ds(1) obtain buffer bits out where
    run: "decode_chars (letters ds) (0, 0, []) = Inr (buffer, bits, out)"
    and inv: "dec_inv ds (buffer, bits, out)" by auto
  from inv ds(1) have L: "260 = length out * 8 + bits" and b8: "bits < 8" by (auto simp: dec_inv_def)
  then have b4: "bits = 4" and out: "length out = 32" by arith+
  from inv val b4 have eq: "16 * be_val bs = be_val out * 16 + unat buffer" and lt: "unat buffer < 16"
    by (auto simp: dec_inv_def)
  then have "unat buffer = 0" "be_val bs = be_val out" by arith+
  then have "buffer = 0" by (simp add: unat_eq_zero)
  moreover have "bs = out"
    using be_bytes_be_val [OF len] be_bytes_be_val [OF out] \<open>be_val bs = be_val out\<close> by metis
  ultimately show ?thesis using run enc b4 out by (simp add: decode_base32_def)
qed

lemma encode_decode_base32:
  assumes "length cs = 52" "decode_base32 cs = Inr bs"
  shows "length bs = 32" and "encode_base32 bs = cs"
proof -
  from assms(2) have run: "decode_chars cs (0, 0, []) = Inr (0, 4, bs)" and len: "length bs = 32"
    by (auto simp: decode_base32_def result_simps split: if_splits)
  show "length bs = 32" by fact
  have "dec_inv [] (0, 0, [])" by (simp add: dec_inv_def)
  from decode_chars_Ok [OF this run] assms(1) obtain es where
    es: "cs = letters es" "\<forall>e\<in>set es. e < 32" "dec_inv es (0, 4, bs)" by auto
  from encode_base32_digits [OF len] obtain ds where
    enc: "encode_base32 bs = letters ds" and ds: "length ds = 52" "\<forall>d\<in>set ds. d < 32"
    and val: "val32 ds = 16 * be_val bs" by blast
  from es(3) have "val32 es = 16 * be_val bs" by (simp add: dec_inv_def)
  with val ds es assms(1) have "ds = es" by (intro val32_inj) auto
  with enc es(1) show "encode_base32 bs = cs" by simp
qed

lemma decode_base32_no_panic:
  assumes "length cs = 52"
  shows "decode_base32 cs \<noteq> Inl Panic"
proof -
  have "decode_chars cs st \<noteq> Inl Panic" if "dec_inv ds st" "length ds + length cs \<le> 52" for ds st
    using that
  proof (induction cs arbitrary: ds st)
    case (Cons c cs)
    obtain buffer bits out where st: "st = (buffer, bits, out)" by (cases st)
    show ?case
    proof (cases "alphabet_position c")
      case None
      then show ?thesis by (simp add: st)
    next
      case (Some d)
      from decode_step [OF _ Some, of ds buffer bits out cs] Cons.prems st obtain st1 where
        "dec_inv (ds @ [d]) st1" "decode_chars (c # cs) st = decode_chars cs st1" by auto
      with Cons.IH Cons.prems(2) show ?thesis by simp
    qed
  qed simp
  from this [of "[]" "(0, 0, [])"] assms show ?thesis
    by (auto simp: decode_base32_def dec_inv_def res_bind_def split: sum.splits if_splits)
qed

section \<open>Textual identifiers\<close>

lemma be_val_256: "length bs = 32 \<Longrightarrow> unat (of_nat (be_val bs) :: 256 word) = be_val bs"
  using be_val_less [of bs] by (simp add: unat_of_nat)

lemma length_encode_base32: "length bs = 32 \<Longrightarrow> length (encode_base32 bs) = 52"
  using encode_base32_digits by fastforce

lemma digest_bytes_val: "be_val (digest_bytes i) = unat (digest_word i)"
proof -
  have "unat (digest_word i) < 256 ^ 32" using unsigned_less [where w = "digest_word i" and ?'a = nat] by simp
  then show ?thesis by (simp add: digest_bytes_def)
qed

lemma parse_display_public_id:
  "length prefix = 5 \<Longrightarrow> parse_public_id prefix (display_public_id prefix i) = Inr i"
  by (simp add: parse_public_id_def display_public_id_def PUBLIC_ID_LENGTH_def strip_prefix_def
      length_encode_base32 decode_encode_base32 digest_bytes_val [unfolded digest_bytes_def] digest_bytes_def)

lemma display_parse_public_id:
  assumes "length prefix = 5" "parse_public_id prefix s = Inr i"
  shows "display_public_id prefix i = s"
proof -
  from assms(2) have len: "length s = 57" and pre: "take 5 s = prefix"
    and dec: "\<exists>bs. decode_base32 (drop 5 s) = Inr bs \<and> i = PublicId (of_nat (be_val bs))"
    by (auto simp: parse_public_id_def PUBLIC_ID_LENGTH_def strip_prefix_def assms(1) result_simps
        split: if_splits)
  from dec obtain bs where bs: "decode_base32 (drop 5 s) = Inr bs" "i = PublicId (of_nat (be_val bs))"
    by blast
  have l52: "length (drop 5 s) = 52" using len by simp
  note enc = encode_decode_base32 [OF l52 bs(1)]
  have "digest_bytes i = bs"
    using be_val_256 [OF enc(1)] be_bytes_be_val [OF enc(1)] by (simp add: digest_bytes_def bs(2))
  then show ?thesis using enc(2) pre by (metis append_take_drop_id display_public_id_def)
qed

lemma length_prefixes [simp]:
  "length identity_prefix = 5" "length channel_prefix = 5" "length agent_prefix = 5"
  by (simp_all add: identity_prefix_def channel_prefix_def agent_prefix_def)

lemma prefixes_distinct:
  "identity_prefix \<noteq> channel_prefix" "identity_prefix \<noteq> agent_prefix" "channel_prefix \<noteq> agent_prefix"
  unfolding identity_prefix_def channel_prefix_def agent_prefix_def ascii_def by code_simp+

interpretation identity_text: canonical_codec identity_to_string "parse_public_id identity_prefix" "\<lambda>_. True"
  by unfold_locales
    (auto simp: identity_to_string_def parse_display_public_id display_parse_public_id)

interpretation channel_text: canonical_codec channel_to_string "parse_public_id channel_prefix" "\<lambda>_. True"
  by unfold_locales
    (auto simp: channel_to_string_def parse_display_public_id display_parse_public_id)

interpretation agent_text: canonical_codec agent_to_string "parse_public_id agent_prefix" "\<lambda>_. True"
  by unfold_locales
    (auto simp: agent_to_string_def parse_display_public_id display_parse_public_id)

lemma strip_prefix_display:
  "length p = length q \<Longrightarrow> strip_prefix p (display_public_id q i) =
     (if p = q then Some (encode_base32 (digest_bytes i)) else None)"
  by (auto simp: strip_prefix_def display_public_id_def)

lemma parse_public_id_prefix: "parse_public_id p s = Inr i \<Longrightarrow> strip_prefix p s \<noteq> None"
  by (auto simp: parse_public_id_def result_simps split: if_splits)

lemma subject_from_to_string: "subject_from_str (subject_to_string i) = Inr i"
  using prefixes_distinct identity_text.parse_render channel_text.parse_render agent_text.parse_render
  by (cases i) (auto simp: subject_from_str_def identity_to_string_def channel_to_string_def
      agent_to_string_def strip_prefix_display)

lemma subject_to_from_string: "subject_from_str s = Inr i \<Longrightarrow> subject_to_string i = s"
  using identity_text.render_parse channel_text.render_parse agent_text.render_parse
  by (auto simp: subject_from_str_def result_simps split: if_splits)

interpretation subject_text: canonical_codec subject_to_string subject_from_str "\<lambda>_. True"
  by unfold_locales (auto simp: subject_from_to_string subject_to_from_string)

lemma parse_public_id_no_panic: "length p = 5 \<Longrightarrow> parse_public_id p s \<noteq> Inl Panic"
  using decode_base32_no_panic [of "drop 5 s"]
  by (auto simp: parse_public_id_def PUBLIC_ID_LENGTH_def strip_prefix_def map_ok_def
      split: sum.splits)

lemma letters_ascii: "\<forall>d\<in>set ds. d < 32 \<Longrightarrow> list_all (\<lambda>b. b < 0x80) (letters ds)"
  using ascii_alphabet by (auto simp: letters_def list_all_iff)

lemma display_public_id_ascii:
  assumes "list_all (\<lambda>b. b < 0x80) p"
  shows "list_all (\<lambda>b. b < 0x80) (display_public_id p i)"
proof -
  obtain ds where "encode_base32 (digest_bytes i) = letters ds" "\<forall>d\<in>set ds. d < 32"
    using encode_base32_digits [of "digest_bytes i"] by (auto simp: digest_bytes_def)
  with assms letters_ascii show ?thesis by (auto simp: display_public_id_def)
qed

lemma length_display_public_id: "length p = 5 \<Longrightarrow> length (display_public_id p i) = 57"
  by (simp add: display_public_id_def digest_bytes_def length_encode_base32)

lemma prefixes_ascii:
  "list_all (\<lambda>b. b < 0x80) identity_prefix" "list_all (\<lambda>b. b < 0x80) channel_prefix"
  "list_all (\<lambda>b. b < 0x80) agent_prefix"
  unfolding identity_prefix_def channel_prefix_def agent_prefix_def ascii_def by code_simp+

section \<open>Subject keys\<close>

lemma key_try_from_slice_bytes:
  "key_try_from_slice fb cp wk value = Inr key \<Longrightarrow> key_bytes key = value \<and> length value = 32"
  by (auto simp: key_try_from_slice_def key_try_from_array_def result_simps split: if_splits)

lemma domains_prefix_free:
  assumes "D \<in> {identity_domain, channel_domain, agent_domain}"
    and "E \<in> {identity_domain, channel_domain, agent_domain}"
    and "length k = 32" "length l = 32" "D @ k = E @ l"
  shows "D = E \<and> k = l"
proof -
  have "length D = length E" using arg_cong [OF assms(5), of length] assms(3,4) by simp
  then show ?thesis using assms(5) by simp
qed

section \<open>Properties\<close>

text \<open>C1. A text is accepted as a public subject identifier exactly when it is the printed form of
  that identifier: parsing and printing are inverse, for identities, channels and agents alike, and
  no identifier has two spellings.\<close>
theorem subject_text_canonical: "subject_from_str s = Inr i \<longleftrightarrow> s = subject_to_string i"
  by (simp add: subject_text.parse_Ok_iff)

text \<open>Parsing a public subject identifier is total: no input reaches the \<open>expect\<close> in the Base32
  decoder.\<close>
theorem subject_from_str_no_panic: "subject_from_str s \<noteq> Inl Panic"
  using parse_public_id_no_panic [of identity_prefix s] parse_public_id_no_panic [of channel_prefix s]
    parse_public_id_no_panic [of agent_prefix s]
  by (auto simp: subject_from_str_def map_ok_def split: sum.splits)

text \<open>C2. An identifier bound to one subject is refused for every other: if a validated key verifies
  against the identifier under one kind, then any other validated key, and the same key under
  another kind, fails with \<open>PublicIdBindingError\<close>, unless the two hashed messages are a SHA-256
  collision.\<close>
theorem subject_binding_unique:
  assumes D: "D \<in> {identity_domain, channel_domain, agent_domain}"
    and E: "E \<in> {identity_domain, channel_domain, agent_domain}"
    and k: "key_try_from_slice fb cp wk kb = Inr k" and l: "key_try_from_slice fb cp wk lb = Inr l"
    and ne: "(D, k) \<noteq> (E, l)"
    and no_collision: "inj_on sha256 {D @ key_bytes k, E @ key_bytes l}"
    and "verify_subject_key sha256 D (PublicId w :: 'a public_id) k = Inr ()"
  shows "verify_subject_key sha256 E (PublicId w :: 'b public_id) l = Inl PublicIdBindingError"
proof -
  have "D @ key_bytes k \<noteq> E @ key_bytes l"
    using domains_prefix_free [OF D E] key_try_from_slice_bytes [OF k] key_try_from_slice_bytes [OF l] ne
    by (metis Ed25519PublicKey.expand)
  with no_collision have "sha256 (D @ key_bytes k) \<noteq> sha256 (E @ key_bytes l)" by (simp add: inj_on_def)
  then show ?thesis using assms(7)
    by (auto simp: verify_subject_key_def derive_def derive_digest_def split: if_splits)
qed

lemma subject_binding_unique_witness:
  "verify_subject_key (\<lambda>m. of_nat (length m)) channel_domain
     (PublicId 54 :: channel_kind public_id) (Ed25519PublicKey (replicate 32 7))
   = Inl PublicIdBindingError"
proof (rule subject_binding_unique [where D = identity_domain and E = channel_domain
      and fb = Some and cp = "\<lambda>p. p" and wk = "\<lambda>_. False" and kb = "replicate 32 7"
      and lb = "replicate 32 7" and k = "Ed25519PublicKey (replicate 32 7)" and ?'a = identity_kind])
  show "(identity_domain, Ed25519PublicKey (replicate 32 7))
      \<noteq> (channel_domain, Ed25519PublicKey (replicate 32 7))"
    by (simp add: identity_domain_def channel_domain_def ascii_def)
qed (simp_all add: key_try_from_slice_def key_try_from_array_def inj_on_def identity_domain_def
      channel_domain_def verify_subject_key_def derive_def derive_digest_def)

end
