(* ===== verification/Cbor.thy ===== *)
theory Cbor
  imports Codec "HOL-Library.List_Lexorder"
begin

text \<open>
  The deterministic CBOR profile of \<open>dtx-wire/src/canonical_cbor.rs\<close>: the value model, the
  encoder and the parser with their budgets (bytes, depth, container entries, items). Methods
  of \<open>Encoder\<close> and \<open>Parser\<close> return the updated receiver; a failed call drops it, as the two
  public entry points do. Byte strings are ordered lexicographically, as slices are.
\<close>

unbundle bit_operations_syntax

section \<open>Values and errors\<close>

definition MAX_ENCODED_BYTES :: usize where "MAX_ENCODED_BYTES = 1024 * 1024"
definition MAX_DEPTH :: nat where "MAX_DEPTH = 32"
definition MAX_CONTAINER_ENTRIES :: nat where "MAX_CONTAINER_ENTRIES = 4096"
definition MAX_TOTAL_ITEMS :: nat where "MAX_TOTAL_ITEMS = 65536"

text \<open>\<open>Negative\<close> holds the 64-bit pattern of an \<open>i64\<close>, read by \<open>sint\<close>; \<open>Text\<close> the UTF-8 bytes of a string.\<close>

datatype CanonicalValue =
    Unsigned u64
  | Negative "64 word"
  | Bytes "byte list"
  | Text "byte list"
  | Array "CanonicalValue list"
  | Map "(CanonicalValue \<times> CanonicalValue) list"
  | Bool bool
  | Null

datatype CanonicalCborError =
    InputTooLarge
  | DepthLimit
  | ContainerTooLarge
  | UnexpectedEnd
  | ReservedAdditionalInformation
  | IndefiniteLength
  | NonPreferredArgument
  | InvalidNegativeValue
  | IntegerOutOfRange
  | LengthOutOfRange
  | InvalidUtf8
  | MapKeyOrder
  | DuplicateMapKey
  | TagNotAllowed
  | FloatingPointNotAllowed
  | SimpleValueNotAllowed
  | TrailingBytes

type_synonym 'a cbor_result = "CanonicalCborError fault + 'a"

abbreviation cbor_err :: "CanonicalCborError \<Rightarrow> 'a cbor_result" where
  "cbor_err e \<equiv> Inl (Fail e)"

section \<open>The encoder\<close>

record Encoder =
  enc_output :: "byte list"
  enc_items :: nat
  enc_max :: usize

definition Encoder_new :: "usize \<Rightarrow> Encoder" where
  "Encoder_new max_encoded_bytes = \<lparr>enc_output = [], enc_items = 0, enc_max = max_encoded_bytes\<rparr>"

definition check_container :: "nat \<Rightarrow> unit cbor_result" where
  "check_container entries =
     (if entries > MAX_CONTAINER_ENTRIES then cbor_err ContainerTooLarge else Inr ())"

definition charge_items :: "nat \<Rightarrow> Encoder \<Rightarrow> Encoder cbor_result" where
  "charge_items count self =
     res_bind (ok_or (Fail ContainerTooLarge) (checked_add_usize (enc_items self) count)) (\<lambda>items.
       if items > MAX_TOTAL_ITEMS then cbor_err ContainerTooLarge
       else Inr (self\<lparr>enc_items := items\<rparr>))"

definition enc_write :: "byte list \<Rightarrow> Encoder \<Rightarrow> Encoder cbor_result" where
  "enc_write bytes self =
     res_bind (ok_or (Fail InputTooLarge) (checked_add_usize (length (enc_output self)) (length bytes)))
       (\<lambda>new_length.
          if new_length > unat (enc_max self) then cbor_err InputTooLarge
          else Inr (self\<lparr>enc_output := enc_output self @ bytes\<rparr>))"

definition write_head :: "byte \<Rightarrow> u64 \<Rightarrow> Encoder \<Rightarrow> Encoder cbor_result" where
  "write_head major argument self =
     (let marker = push_bit 5 major in
      if argument < 24 then
        (if unat argument < 256 then enc_write [marker OR ucast argument] self else Inl Panic)
      else if unat argument < 2 ^ 8 then enc_write [marker OR 0x18, ucast argument] self
      else if unat argument < 2 ^ 16 then
        res_bind (enc_write [marker OR 0x19] self) (enc_write (be_bytes 2 (unat argument)))
      else if unat argument < 2 ^ 32 then
        res_bind (enc_write [marker OR 0x1a] self) (enc_write (be_bytes 4 (unat argument)))
      else
        res_bind (enc_write [marker OR 0x1b] self) (enc_write (be_bytes 8 (unat argument))))"

definition write_length :: "byte \<Rightarrow> nat \<Rightarrow> Encoder \<Rightarrow> Encoder cbor_result" where
  "write_length major len self =
     (if len < 2 ^ 64 then write_head major (of_nat len) self else cbor_err LengthOutOfRange)"

fun adjacent_equal :: "'a list \<Rightarrow> bool" where
  "adjacent_equal (x # y # zs) = (x = y \<or> adjacent_equal (y # zs))"
| "adjacent_equal _ = False"

function encode :: "CanonicalValue \<Rightarrow> nat \<Rightarrow> Encoder \<Rightarrow> Encoder cbor_result" where
  "encode v depth self =
     (if depth > MAX_DEPTH then cbor_err DepthLimit
      else res_bind (charge_items 1 self) (\<lambda>self.
        case v of
          Unsigned n \<Rightarrow> write_head 0 n self
        | Negative i \<Rightarrow>
            if sint i \<ge> 0 then cbor_err InvalidNegativeValue
            else let argument = - 1 - sint i in
              if 0 \<le> argument \<and> argument < 2 ^ 64 then write_head 1 (of_int argument) self
              else cbor_err IntegerOutOfRange
        | Bytes bs \<Rightarrow> res_bind (write_length 2 (length bs) self) (enc_write bs)
        | Text bs \<Rightarrow> res_bind (write_length 3 (length bs) self) (enc_write bs)
        | Array vs \<Rightarrow>
            res_bind (check_container (length vs)) (\<lambda>_.
            res_bind (write_length 4 (length vs) self) (\<lambda>self.
              for_each (\<lambda>v. encode v (depth + 1)) vs self))
        | Map entries \<Rightarrow>
            res_bind (check_container (length entries)) (\<lambda>_.
            res_bind (for_each (\<lambda>(key, val) (self, pending_key_bytes, sorted).
                res_bind (encode key (depth + 1) (Encoder_new (enc_max self))) (\<lambda>key_encoder.
                res_bind (charge_items (enc_items key_encoder) self) (\<lambda>self.
                res_bind (ok_or (Fail InputTooLarge)
                    (checked_add_usize pending_key_bytes (length (enc_output key_encoder)))) (\<lambda>pending.
                res_bind (ok_or (Fail InputTooLarge)
                    (checked_add_usize (length (enc_output self)) pending)) (\<lambda>projected_bytes.
                  if projected_bytes > unat (enc_max self) then cbor_err InputTooLarge
                  else Inr (self, pending, sorted @ [(enc_output key_encoder, val)]))))))
              entries (self, 0, [])) (\<lambda>(self, _, pairs).
            let sorted = sort_key fst pairs in
            if adjacent_equal (map fst sorted) then cbor_err DuplicateMapKey
            else res_bind (write_length 5 (length sorted) self) (\<lambda>self.
              for_each (\<lambda>(key, val) self.
                res_bind (enc_write key self) (\<lambda>self. encode val (depth + 1) self)) sorted self)))
        | Bool b \<Rightarrow> enc_write [if b then 0xf5 else 0xf4] self
        | Null \<Rightarrow> enc_write [0xf6] self))"
  by pat_completeness auto
termination
  by (relation "measure (\<lambda>(_, depth, _). 33 - depth)") (auto simp: MAX_DEPTH_def)

declare encode.simps [simp del]

definition encode_deterministic_cbor_with_limit :: "CanonicalValue \<Rightarrow> usize \<Rightarrow> byte list cbor_result" where
  "encode_deterministic_cbor_with_limit v max_encoded_bytes =
     (if max_encoded_bytes = 0 then cbor_err InputTooLarge
      else map_ok enc_output (encode v 0 (Encoder_new max_encoded_bytes)))"

definition encode_deterministic_cbor :: "CanonicalValue \<Rightarrow> byte list cbor_result" where
  "encode_deterministic_cbor v = encode_deterministic_cbor_with_limit v MAX_ENCODED_BYTES"

section \<open>The parser\<close>

text \<open>
  \<open>std::str::from_utf8\<close> accepts the well-formed byte sequences of the Unicode standard: no
  overlong form, no surrogate, nothing above U+10FFFF.
\<close>

definition is_cont :: "byte \<Rightarrow> bool" where
  "is_cont b = (0x80 \<le> b \<and> b \<le> 0xbf)"

fun utf8_valid :: "byte list \<Rightarrow> bool" where
  "utf8_valid [] = True"
| "utf8_valid (a # bs) =
     (if a < 0x80 then utf8_valid bs
      else if 0xc2 \<le> a \<and> a \<le> 0xdf then
        (case bs of b # rest \<Rightarrow> is_cont b \<and> utf8_valid rest | _ \<Rightarrow> False)
      else if 0xe0 \<le> a \<and> a \<le> 0xef then
        (case bs of b # c # rest \<Rightarrow>
             is_cont b \<and> (a = 0xe0 \<longrightarrow> 0xa0 \<le> b) \<and> (a = 0xed \<longrightarrow> b \<le> 0x9f)
             \<and> is_cont c \<and> utf8_valid rest
         | _ \<Rightarrow> False)
      else if 0xf0 \<le> a \<and> a \<le> 0xf4 then
        (case bs of b # c # d # rest \<Rightarrow>
             is_cont b \<and> (a = 0xf0 \<longrightarrow> 0x90 \<le> b) \<and> (a = 0xf4 \<longrightarrow> b \<le> 0x8f)
             \<and> is_cont c \<and> is_cont d \<and> utf8_valid rest
         | _ \<Rightarrow> False)
      else False)"

record Parser =
  par_input :: "byte list"
  par_position :: nat
  par_items :: nat
  par_max :: usize

definition read_byte :: "Parser \<Rightarrow> (byte \<times> Parser) cbor_result" where
  "read_byte self =
     (if par_position self < length (par_input self)
      then Inr (par_input self ! par_position self, self\<lparr>par_position := par_position self + 1\<rparr>)
      else cbor_err UnexpectedEnd)"

definition read_exact :: "nat \<Rightarrow> Parser \<Rightarrow> (byte list \<times> Parser) cbor_result" where
  "read_exact len self =
     res_bind (ok_or (Fail UnexpectedEnd) (checked_add_usize (par_position self) len)) (\<lambda>stop.
       if par_position self \<le> stop \<and> stop \<le> length (par_input self)
       then Inr (take len (drop (par_position self) (par_input self)), self\<lparr>par_position := stop\<rparr>)
       else cbor_err UnexpectedEnd)"

text \<open>\<open>read_array\<close> followed by \<open>from_be_bytes\<close>: the conversion to \<open>[u8; N]\<close> fails on another length.\<close>

definition read_array :: "nat \<Rightarrow> Parser \<Rightarrow> (byte list \<times> Parser) cbor_result" where
  "read_array n self =
     res_bind (read_exact n self) (\<lambda>(bytes, self).
       if length bytes = n then Inr (bytes, self) else cbor_err UnexpectedEnd)"

definition read_argument :: "byte \<Rightarrow> Parser \<Rightarrow> (u64 \<times> Parser) cbor_result" where
  "read_argument additional self =
     (if additional \<le> 23 then Inr (ucast additional, self)
      else if additional = 24 then
        res_bind (read_byte self) (\<lambda>(value, self).
          if value < 24 then cbor_err NonPreferredArgument else Inr (ucast value, self))
      else if additional = 25 then
        res_bind (read_array 2 self) (\<lambda>(bytes, self).
          if be_val bytes < 2 ^ 8 then cbor_err NonPreferredArgument
          else Inr (of_nat (be_val bytes), self))
      else if additional = 26 then
        res_bind (read_array 4 self) (\<lambda>(bytes, self).
          if be_val bytes < 2 ^ 16 then cbor_err NonPreferredArgument
          else Inr (of_nat (be_val bytes), self))
      else if additional = 27 then
        res_bind (read_array 8 self) (\<lambda>(bytes, self).
          if be_val bytes < 2 ^ 32 then cbor_err NonPreferredArgument
          else Inr (of_nat (be_val bytes), self))
      else if additional \<le> 30 then cbor_err ReservedAdditionalInformation
      else if additional = 31 then cbor_err IndefiniteLength
      else Inl Panic)"

definition read_length :: "byte \<Rightarrow> Parser \<Rightarrow> (nat \<times> Parser) cbor_result" where
  "read_length additional self =
     res_bind (read_argument additional self) (\<lambda>(len, self).
       if unat len > unat (par_max self) then cbor_err InputTooLarge else Inr (unat len, self))"

definition read_container_length :: "byte \<Rightarrow> Parser \<Rightarrow> (nat \<times> Parser) cbor_result" where
  "read_container_length additional self =
     res_bind (read_length additional self) (\<lambda>(len, self).
       if len > MAX_CONTAINER_ENTRIES then cbor_err ContainerTooLarge else Inr (len, self))"

text \<open>\<open>for _ in 0..n\<close> with early return, and slice indexing, which panics out of range.\<close>

fun repeat_res :: "nat \<Rightarrow> ('s \<Rightarrow> 'e + 's) \<Rightarrow> 's \<Rightarrow> 'e + 's" where
  "repeat_res 0 f s = Inr s"
| "repeat_res (Suc n) f s = res_bind (f s) (repeat_res n f)"

lemma repeat_res_cong [fundef_cong]:
  assumes "n = m" "s = t" "\<And>s. f s = g s"
  shows "repeat_res n f s = repeat_res m g t"
proof -
  have "f = g" using assms(3) by (rule ext)
  then show ?thesis using assms(1,2) by simp
qed

definition slice_range :: "byte list \<Rightarrow> nat \<Rightarrow> nat \<Rightarrow> byte list cbor_result" where
  "slice_range xs start stop =
     (if start \<le> stop \<and> stop \<le> length xs then Inr (take (stop - start) (drop start xs)) else Inl Panic)"

definition check_key_order :: "byte list option \<Rightarrow> byte list \<Rightarrow> unit cbor_result" where
  "check_key_order previous_key key =
     (case previous_key of
        None \<Rightarrow> Inr ()
      | Some previous \<Rightarrow>
          if previous = key then cbor_err DuplicateMapKey
          else if previous > key then cbor_err MapKeyOrder
          else Inr ())"

definition simple_value :: "byte \<Rightarrow> CanonicalValue cbor_result" where
  "simple_value additional =
     (if additional = 20 then Inr (Bool False)
      else if additional = 21 then Inr (Bool True)
      else if additional = 22 then Inr Null
      else if 25 \<le> additional \<and> additional \<le> 27 then cbor_err FloatingPointNotAllowed
      else if additional = 31 then cbor_err IndefiniteLength
      else cbor_err SimpleValueNotAllowed)"

function parse_value :: "nat \<Rightarrow> Parser \<Rightarrow> (CanonicalValue \<times> Parser) cbor_result" where
  "parse_value depth self =
     (if depth > MAX_DEPTH then cbor_err DepthLimit
      else res_bind (ok_or (Fail ContainerTooLarge) (checked_add_usize (par_items self) 1)) (\<lambda>items.
        if items > MAX_TOTAL_ITEMS then cbor_err ContainerTooLarge
        else res_bind (read_byte (self\<lparr>par_items := items\<rparr>)) (\<lambda>(initial, self).
          let major = drop_bit 5 initial; additional = initial AND 0x1f in
          if major = 0 then
            res_bind (read_argument additional self) (\<lambda>(value, self). Inr (Unsigned value, self))
          else if major = 1 then
            res_bind (read_argument additional self) (\<lambda>(argument, self).
              if unat argument > 2 ^ 63 - 1 then cbor_err IntegerOutOfRange
              else let value = - 1 - int (unat argument) in
                if - (2 ^ 63) \<le> value \<and> value < 2 ^ 63 then Inr (Negative (of_int value), self)
                else cbor_err IntegerOutOfRange)
          else if major = 2 \<or> major = 3 then
            res_bind (read_length additional self) (\<lambda>(len, self).
            res_bind (read_exact len self) (\<lambda>(bytes, self).
              if major = 2 then Inr (Bytes bytes, self)
              else if utf8_valid bytes then Inr (Text bytes, self)
              else cbor_err InvalidUtf8))
          else if major = 4 then
            res_bind (read_container_length additional self) (\<lambda>(len, self).
            res_bind (repeat_res len (\<lambda>(values, self).
                res_bind (parse_value (depth + 1) self) (\<lambda>(value, self). Inr (values @ [value], self)))
              ([], self)) (\<lambda>(values, self). Inr (Array values, self)))
          else if major = 5 then
            res_bind (read_container_length additional self) (\<lambda>(len, self).
            res_bind (repeat_res len (\<lambda>(entries, previous_key, self).
                let key_start = par_position self in
                res_bind (parse_value (depth + 1) self) (\<lambda>(key_value, self).
                res_bind (slice_range (par_input self) key_start (par_position self)) (\<lambda>key.
                res_bind (check_key_order previous_key key) (\<lambda>_.
                res_bind (parse_value (depth + 1) self) (\<lambda>(value, self).
                  Inr (entries @ [(key_value, value)], Some key, self))))))
              ([], None, self)) (\<lambda>(entries, _, self). Inr (Map entries, self)))
          else if major = 6 then cbor_err TagNotAllowed
          else if major = 7 then
            res_bind (simple_value additional) (\<lambda>value. Inr (value, self))
          else Inl Panic)))"
  by pat_completeness auto
termination
  by (relation "measure (\<lambda>(depth, _). 33 - depth)") (auto simp: MAX_DEPTH_def)

declare parse_value.simps [simp del]

definition decode_deterministic_cbor_with_limit :: "byte list \<Rightarrow> usize \<Rightarrow> CanonicalValue cbor_result" where
  "decode_deterministic_cbor_with_limit input max_encoded_bytes =
     (if max_encoded_bytes = 0 \<or> length input > unat max_encoded_bytes then cbor_err InputTooLarge
      else res_bind (parse_value 0 \<lparr>par_input = input, par_position = 0, par_items = 0,
             par_max = max_encoded_bytes\<rparr>) (\<lambda>(value, parser).
        if par_position parser \<noteq> length input then cbor_err TrailingBytes else Inr value))"

definition decode_deterministic_cbor :: "byte list \<Rightarrow> CanonicalValue cbor_result" where
  "decode_deterministic_cbor input = decode_deterministic_cbor_with_limit input MAX_ENCODED_BYTES"

definition validate_deterministic_cbor :: "byte list \<Rightarrow> unit cbor_result" where
  "validate_deterministic_cbor input = map_ok (\<lambda>_. ()) (decode_deterministic_cbor input)"

end
