(* ===== verification/Cbor_Encode.thy ===== *)
theory Cbor_Encode
  imports Cbor "HOL-Library.Multiset"
begin

text \<open>
  The reference semantics of the CBOR profile, which says what bytes a value has without any
  budget, and the proof that the encoder writes exactly those bytes, for exactly the values
  inside the profile.
\<close>

unbundle bit_operations_syntax

section \<open>Reference semantics\<close>

definition cbor_head :: "nat \<Rightarrow> nat \<Rightarrow> byte list" where
  "cbor_head major n =
     (if n < 24 then [of_nat (major * 32 + n)]
      else if n < 2 ^ 8 then [of_nat (major * 32 + 24), of_nat n]
      else if n < 2 ^ 16 then of_nat (major * 32 + 25) # be_bytes 2 n
      else if n < 2 ^ 32 then of_nat (major * 32 + 26) # be_bytes 4 n
      else of_nat (major * 32 + 27) # be_bytes 8 n)"

fun cbor :: "CanonicalValue \<Rightarrow> byte list" where
  "cbor (Unsigned n) = cbor_head 0 (unat n)"
| "cbor (Negative i) = cbor_head 1 (nat (- 1 - sint i))"
| "cbor (Bytes bs) = cbor_head 2 (length bs) @ bs"
| "cbor (Text bs) = cbor_head 3 (length bs) @ bs"
| "cbor (Array vs) = cbor_head 4 (length vs) @ concat (map cbor vs)"
| "cbor (Map es) = cbor_head 5 (length es) @ concat (map (\<lambda>(k, v). cbor k @ cbor v) es)"
| "cbor (Bool b) = [if b then 0xf5 else 0xf4]"
| "cbor Null = [0xf6]"

text \<open>The number of items of the tree, the quantity both budgets count.\<close>

fun nitems :: "CanonicalValue \<Rightarrow> nat" where
  "nitems (Array vs) = Suc (sum_list (map nitems vs))"
| "nitems (Map es) = Suc (sum_list (map (\<lambda>(k, v). nitems k + nitems v) es))"
| "nitems _ = 1"

text \<open>The canonical form sorts every map by the encoding of its keys.\<close>

fun canon :: "CanonicalValue \<Rightarrow> CanonicalValue" where
  "canon (Array vs) = Array (map canon vs)"
| "canon (Map es) = Map (sort_key (\<lambda>(k, _). cbor k) (map (\<lambda>(k, v). (canon k, canon v)) es))"
| "canon v = v"

text \<open>Depth, sign and container bounds, for a value at nesting depth \<open>d\<close>.\<close>

fun profile :: "nat \<Rightarrow> CanonicalValue \<Rightarrow> bool" where
  "profile d (Array vs) =
     (d \<le> MAX_DEPTH \<and> length vs \<le> MAX_CONTAINER_ENTRIES \<and> list_all (profile (d + 1)) vs)"
| "profile d (Map es) =
     (d \<le> MAX_DEPTH \<and> length es \<le> MAX_CONTAINER_ENTRIES
      \<and> list_all (\<lambda>(k, v). profile (d + 1) k \<and> profile (d + 1) v) es)"
| "profile d (Negative i) = (d \<le> MAX_DEPTH \<and> sint i < 0)"
| "profile d v = (d \<le> MAX_DEPTH)"

fun distinct_keys :: "CanonicalValue \<Rightarrow> bool" where
  "distinct_keys (Array vs) = list_all distinct_keys vs"
| "distinct_keys (Map es) =
     (distinct (map (\<lambda>(k, _). cbor (canon k)) es)
      \<and> list_all (\<lambda>(k, v). distinct_keys k \<and> distinct_keys v) es)"
| "distinct_keys v = True"

text \<open>What the type \<open>String\<close> guarantees of every text, and the order of the keys in canonical form.\<close>

fun utf8_texts :: "CanonicalValue \<Rightarrow> bool" where
  "utf8_texts (Text bs) = utf8_valid bs"
| "utf8_texts (Array vs) = list_all utf8_texts vs"
| "utf8_texts (Map es) = list_all (\<lambda>(k, v). utf8_texts k \<and> utf8_texts v) es"
| "utf8_texts v = True"

fun sorted_maps :: "CanonicalValue \<Rightarrow> bool" where
  "sorted_maps (Array vs) = list_all sorted_maps vs"
| "sorted_maps (Map es) =
     (sorted_wrt (<) (map (\<lambda>(k, _). cbor k) es)
      \<and> list_all (\<lambda>(k, v). sorted_maps k \<and> sorted_maps v) es)"
| "sorted_maps v = True"

lemma cbor_head_not_Nil [simp]: "cbor_head m n \<noteq> []"
  by (simp add: cbor_head_def)

lemma cbor_not_Nil [simp]: "cbor v \<noteq> []"
  by (cases v) auto

lemma nitems_pos [simp]: "0 < nitems v"
  by (cases v) auto

section \<open>Writers\<close>

text \<open>
  An encoder action writes \<open>bs\<close> and charges \<open>n\<close> items, and succeeds exactly when its own
  condition and the two budgets allow it. Actions in sequence write the concatenation.
\<close>

definition enc_ok :: "Encoder \<Rightarrow> bool" where
  "enc_ok e = (enc_items e \<le> MAX_TOTAL_ITEMS \<and> length (enc_output e) \<le> unat (enc_max e))"

definition advance :: "nat \<Rightarrow> byte list \<Rightarrow> Encoder \<Rightarrow> Encoder" where
  "advance n bs e = e\<lparr>enc_output := enc_output e @ bs, enc_items := enc_items e + n\<rparr>"

definition fits :: "nat \<Rightarrow> byte list \<Rightarrow> Encoder \<Rightarrow> bool" where
  "fits n bs e = enc_ok (advance n bs e)"

definition writes :: "(Encoder \<Rightarrow> Encoder cbor_result) \<Rightarrow> bool \<Rightarrow> nat \<Rightarrow> byte list \<Rightarrow> bool" where
  "writes f ok n bs = (\<forall>e e'. enc_ok e \<longrightarrow>
     (f e = Inr e' \<longleftrightarrow> ok \<and> fits n bs e \<and> e' = advance n bs e))"

lemma advance_simps [simp]:
  "enc_max (advance n bs e) = enc_max e"
  "enc_items (advance n bs e) = enc_items e + n"
  "enc_output (advance n bs e) = enc_output e @ bs"
  "advance m cs (advance n bs e) = advance (n + m) (bs @ cs) e"
  "advance 0 [] e = e"
  by (simp_all add: advance_def)

lemma fits_advance: "fits m cs (advance n bs e) = fits (n + m) (bs @ cs) e"
  by (simp add: fits_def)

lemma fits_mono: "fits (n + m) (bs @ cs) e \<Longrightarrow> fits n bs e"
  by (auto simp: fits_def enc_ok_def)

lemma writesD:
  "writes f ok n bs \<Longrightarrow> enc_ok e \<Longrightarrow> f e = Inr e' \<longleftrightarrow> ok \<and> fits n bs e \<and> e' = advance n bs e"
  by (simp add: writes_def)

lemma writes_seq:
  assumes "writes f ok n bs" "writes g ok' m cs"
  shows "writes (\<lambda>e. res_bind (f e) g) (ok \<and> ok') (n + m) (bs @ cs)"
  unfolding writes_def
proof (intro allI impI)
  fix e e' assume e: "enc_ok e"
  have ok1: "fits n bs e \<Longrightarrow> enc_ok (advance n bs e)" by (simp add: fits_def)
  show "res_bind (f e) g = Inr e' \<longleftrightarrow>
      (ok \<and> ok') \<and> fits (n + m) (bs @ cs) e \<and> e' = advance (n + m) (bs @ cs) e"
    unfolding res_bind_Ok_iff writesD [OF assms(1) e]
    using writesD [OF assms(2) ok1] fits_mono [of n m bs cs e] by (auto simp: fits_advance)
qed

lemma writes_for_each:
  assumes "\<And>x. x \<in> set xs \<Longrightarrow> writes (f x) (ok x) (n x) (bs x)"
  shows "writes (for_each f xs) (list_all ok xs) (sum_list (map n xs)) (concat (map bs xs))"
  using assms
proof (induction xs)
  case Nil
  then show ?case by (auto simp: writes_def fits_def)
next
  case (Cons x xs)
  have "writes (\<lambda>e. res_bind (f x e) (for_each f xs)) (ok x \<and> list_all ok xs)
      (n x + sum_list (map n xs)) (bs x @ concat (map bs xs))"
    using Cons by (intro writes_seq) auto
  then show ?case by (simp add: writes_def)
qed

lemma checked_add_usize_le:
  fixes m :: usize
  shows "checked_add_usize a b = Some k \<and> k \<le> unat m \<longleftrightarrow> k = a + b \<and> a + b \<le> unat m"
proof -
  have "unat m < 2 ^ 64" using unsigned_less [where w = m and ?'a = nat] by simp
  then show ?thesis unfolding checked_add_usize_def by (cases "a + b < 2 ^ 64") auto
qed

lemma enc_write_Ok_iff:
  "enc_write bs e = Inr e' \<longleftrightarrow>
     length (enc_output e) + length bs \<le> unat (enc_max e) \<and> e' = advance 0 bs e"
proof -
  have "enc_write bs e = Inr e' \<longleftrightarrow>
      (\<exists>k. (checked_add_usize (length (enc_output e)) (length bs) = Some k \<and> k \<le> unat (enc_max e))
        \<and> e' = e\<lparr>enc_output := enc_output e @ bs\<rparr>)"
    unfolding enc_write_def res_bind_Ok_iff ok_or_Ok_iff by (auto simp: not_less)
  then show ?thesis unfolding checked_add_usize_le by (simp add: advance_def)
qed

lemma writes_enc_write: "writes (enc_write bs) True 0 bs"
  by (simp add: writes_def enc_write_Ok_iff fits_def enc_ok_def)

lemma writes_charge: "writes (charge_items n) True n []"
  by (auto simp: writes_def charge_items_def checked_add_usize_def MAX_TOTAL_ITEMS_def result_simps
      fits_def enc_ok_def advance_def split: if_splits)

lemma writes_cong: "writes f ok n bs \<Longrightarrow> (\<And>e. f e = g e) \<Longrightarrow> ok = ok' \<Longrightarrow> n = m \<Longrightarrow> bs = cs \<Longrightarrow> writes g ok' m cs"
  by (simp add: writes_def)

lemma byte_marker:
  fixes major x :: byte
  assumes "unat major < 8" "unat x < 32"
  shows "push_bit 5 major OR x = of_nat (unat major * 32 + unat x)"
proof -
  have "unat (push_bit 5 major OR x) = unat major * 32 + unat x"
    using unat_push_or [of major 5 x] assms by simp
  then show ?thesis using of_nat_unat by (metis ucast_id)
qed

lemma write_head_eq:
  fixes argument :: u64
  assumes "unat major < 8"
  shows "write_head major argument e =
    (let m = unat major * 32; n = unat argument in
     if n < 24 then enc_write [of_nat (m + n)] e
     else if n < 2 ^ 8 then enc_write [of_nat (m + 24), of_nat n] e
     else if n < 2 ^ 16 then res_bind (enc_write [of_nat (m + 25)] e) (enc_write (be_bytes 2 n))
     else if n < 2 ^ 32 then res_bind (enc_write [of_nat (m + 26)] e) (enc_write (be_bytes 4 n))
     else res_bind (enc_write [of_nat (m + 27)] e) (enc_write (be_bytes 8 n)))"
proof -
  have mark: "push_bit 5 major OR x = of_nat (unat major * 32 + k)" if "unat x = k" "k < 32" for x k
    using byte_marker [OF assms, of x] that by simp
  have small: "push_bit 5 major OR ucast argument = of_nat (unat major * 32 + unat argument)"
    if "unat argument < 24"
    by (rule mark) (use that in \<open>simp_all add: unat_ucast_mod\<close>)
  have marks: "push_bit 5 major OR 0x18 = of_nat (unat major * 32 + 24)"
    "push_bit 5 major OR 0x19 = of_nat (unat major * 32 + 25)"
    "push_bit 5 major OR 0x1a = of_nat (unat major * 32 + 26)"
    "push_bit 5 major OR 0x1b = of_nat (unat major * 32 + 27)"
    by (rule mark, simp, simp)+
  have lt24: "argument < 24 \<longleftrightarrow> unat argument < 24"
    by (simp add: word_less_nat_alt)
  have u: "ucast argument = (of_nat (unat argument) :: byte)"
    by (rule of_nat_unat [symmetric])
  show ?thesis
  proof (cases "unat argument < 24")
    case True
    then have "unat argument < 256" by simp
    with True show ?thesis
      by (simp only: write_head_def Let_def lt24 small if_True)
  next
    case False
    then show ?thesis by (simp only: write_head_def Let_def lt24 marks u if_False)
  qed
qed

lemma writes_two: "writes (\<lambda>e. res_bind (enc_write [b] e) (enc_write bs)) True 0 (b # bs)"
  using writes_seq [OF writes_enc_write [of "[b]"] writes_enc_write [of bs]] by simp

lemma writes_write_head:
  fixes argument :: u64
  assumes "unat major < 8"
  shows "writes (write_head major argument) True 0 (cbor_head (unat major) (unat argument))"
proof -
  note eqs = write_head_eq [OF assms, unfolded Let_def] cbor_head_def if_True if_False
  let ?n = "unat argument"
  consider (a) "?n < 24" | (b) "\<not> ?n < 24" "?n < 2 ^ 8" | (c) "\<not> ?n < 24" "\<not> ?n < 2 ^ 8" "?n < 2 ^ 16"
    | (d) "\<not> ?n < 24" "\<not> ?n < 2 ^ 8" "\<not> ?n < 2 ^ 16" "?n < 2 ^ 32"
    | (e) "\<not> ?n < 24" "\<not> ?n < 2 ^ 8" "\<not> ?n < 2 ^ 16" "\<not> ?n < 2 ^ 32" by blast
  then show ?thesis
  proof cases
    case a
    then show ?thesis by (intro writes_cong [OF writes_enc_write]) (simp_all only: eqs)
  next
    case b
    then show ?thesis by (intro writes_cong [OF writes_enc_write]) (simp_all only: eqs)
  next
    case c
    then show ?thesis by (intro writes_cong [OF writes_two]) (simp_all only: eqs)
  next
    case d
    then show ?thesis by (intro writes_cong [OF writes_two]) (simp_all only: eqs)
  next
    case e
    then show ?thesis by (intro writes_cong [OF writes_two]) (simp_all only: eqs)
  qed
qed

lemma u64_cbor_head: "n < 2 ^ 64 \<Longrightarrow> unat (of_nat n :: u64) = n"
  by (simp add: unat_of_nat)

lemma writes_write_length:
  assumes "unat major < 8"
  shows "writes (write_length major n) (n < 2 ^ 64) 0 (cbor_head (unat major) n)"
  using writes_write_head [OF assms, of "of_nat n"] u64_cbor_head [of n]
  by (auto simp: writes_def write_length_def)

section \<open>The encoder against the reference\<close>

definition encodes :: "CanonicalValue \<Rightarrow> bool" where
  "encodes v = (\<forall>d. writes (encode v d) (profile d v \<and> distinct_keys v) (nitems v) (cbor (canon v)))"

lemma adjacent_equal_sorted: "sorted xs \<Longrightarrow> adjacent_equal xs \<longleftrightarrow> \<not> distinct xs"
proof (induction xs rule: adjacent_equal.induct)
  case (1 x y zs)
  show ?case
  proof (cases "x = y")
    case False
    with "1.prems" have "x \<notin> set (y # zs)" by fastforce
    with False 1 show ?thesis by simp
  qed simp
qed auto

lemma insort_key_map: "insort_key f (g x) (map g xs) = map g (insort_key (\<lambda>x. f (g x)) x xs)"
  by (induction xs) auto

lemma sort_key_map: "sort_key f (map g xs) = map g (sort_key (\<lambda>x. f (g x)) xs)"
  by (induction xs) (auto simp: insort_key_map)

text \<open>The first loop over the entries of a map encodes the keys apart, then charges and sizes them.\<close>

definition key_step :: "nat \<Rightarrow> CanonicalValue \<times> CanonicalValue
    \<Rightarrow> Encoder \<times> nat \<times> (byte list \<times> CanonicalValue) list
    \<Rightarrow> (Encoder \<times> nat \<times> (byte list \<times> CanonicalValue) list) cbor_result" where
  "key_step d = (\<lambda>(key, val) (self, pending_key_bytes, sorted).
     res_bind (encode key d (Encoder_new (enc_max self))) (\<lambda>key_encoder.
     res_bind (charge_items (enc_items key_encoder) self) (\<lambda>self.
     res_bind (ok_or (Fail InputTooLarge)
         (checked_add_usize pending_key_bytes (length (enc_output key_encoder)))) (\<lambda>pending.
     res_bind (ok_or (Fail InputTooLarge)
         (checked_add_usize (length (enc_output self)) pending)) (\<lambda>projected_bytes.
       if projected_bytes > unat (enc_max self) then cbor_err InputTooLarge
       else Inr (self, pending, sorted @ [(enc_output key_encoder, val)]))))))"

lemma enc_ok_new [simp]: "enc_ok (Encoder_new m)"
  by (simp add: enc_ok_def Encoder_new_def)

lemma Encoder_new_simps [simp]:
  "enc_output (Encoder_new m) = []" "enc_items (Encoder_new m) = 0" "enc_max (Encoder_new m) = m"
  by (simp_all add: Encoder_new_def)

lemma charge_items_Ok_iff:
  "enc_ok e \<Longrightarrow> charge_items n e = Inr e' \<longleftrightarrow>
     enc_items e + n \<le> MAX_TOTAL_ITEMS \<and> e' = advance n [] e"
  using writesD [OF writes_charge, of e n e'] by (auto simp: fits_def enc_ok_def)

lemma projected_Ok_iff:
  fixes m :: usize
  shows "(\<exists>q. checked_add_usize p l = Some q \<and> (\<exists>r. checked_add_usize a q = Some r \<and> r \<le> unat m \<and> P q))
     \<longleftrightarrow> a + p + l \<le> unat m \<and> P (p + l)"
proof -
  have "unat m < 2 ^ 64" using unsigned_less [where w = m and ?'a = nat] by simp
  then show ?thesis
    unfolding checked_add_usize_def by (cases "a + p + l \<le> unat m") (auto simp: add.assoc)
qed

lemma key_step_Ok_iff:
  assumes k: "encodes k" and e: "enc_ok e"
  shows "key_step d (k, v) (e, p, acc) = Inr (e', p', acc') \<longleftrightarrow>
     profile d k \<and> distinct_keys k \<and> enc_items e + nitems k \<le> MAX_TOTAL_ITEMS
     \<and> length (enc_output e) + p + length (cbor (canon k)) \<le> unat (enc_max e)
     \<and> e' = advance (nitems k) [] e \<and> p' = p + length (cbor (canon k))
     \<and> acc' = acc @ [(cbor (canon k), v)]"
proof -
  have enc: "encode k d (Encoder_new (enc_max e)) = Inr ke \<longleftrightarrow>
      (profile d k \<and> distinct_keys k) \<and> nitems k \<le> MAX_TOTAL_ITEMS
      \<and> length (cbor (canon k)) \<le> unat (enc_max e)
      \<and> ke = advance (nitems k) (cbor (canon k)) (Encoder_new (enc_max e))" for ke
    using writesD [OF k [unfolded encodes_def, rule_format, of d] enc_ok_new]
    by (simp add: fits_def enc_ok_def)
  have "key_step d (k, v) (e, p, acc) = Inr (e', p', acc') \<longleftrightarrow>
      (profile d k \<and> distinct_keys k) \<and> nitems k \<le> MAX_TOTAL_ITEMS
      \<and> length (cbor (canon k)) \<le> unat (enc_max e)
      \<and> enc_items e + nitems k \<le> MAX_TOTAL_ITEMS \<and>
      (\<exists>q. checked_add_usize p (length (cbor (canon k))) = Some q \<and>
        (\<exists>r. checked_add_usize (length (enc_output e)) q = Some r \<and> r \<le> unat (enc_max e) \<and>
           (e' = advance (nitems k) [] e \<and> p' = q \<and> acc' = acc @ [(cbor (canon k), v)])))"
    unfolding key_step_def
    by (auto simp: res_bind_Ok_iff ok_or_Ok_iff enc charge_items_Ok_iff [OF e] not_less)
  then show ?thesis unfolding projected_Ok_iff by auto
qed

lemma key_loop_Ok_iff:
  assumes "\<forall>(k, v)\<in>set es. encodes k" "enc_ok e" "length (enc_output e) + p \<le> unat (enc_max e)"
  shows "for_each (key_step d) es (e, p, acc) = Inr (e', p', acc') \<longleftrightarrow>
     list_all (\<lambda>(k, v). profile d k \<and> distinct_keys k) es
     \<and> enc_items e + sum_list (map (\<lambda>(k, v). nitems k) es) \<le> MAX_TOTAL_ITEMS
     \<and> length (enc_output e) + p + sum_list (map (\<lambda>(k, v). length (cbor (canon k))) es) \<le> unat (enc_max e)
     \<and> e' = advance (sum_list (map (\<lambda>(k, v). nitems k) es)) [] e
     \<and> p' = p + sum_list (map (\<lambda>(k, v). length (cbor (canon k))) es)
     \<and> acc' = acc @ map (\<lambda>(k, v). (cbor (canon k), v)) es"
  using assms
proof (induction es arbitrary: e p acc)
  case Nil
  then show ?case by (auto simp: enc_ok_def)
next
  case (Cons x es)
  obtain k v where x: "x = (k, v)" by (cases x)
  have k: "encodes k" and es: "\<forall>(k, v)\<in>set es. encodes k" using Cons.prems(1) by (auto simp: x)
  let ?e = "advance (nitems k) [] e" and ?p = "p + length (cbor (canon k))"
  show ?case
  proof (cases "profile d k \<and> distinct_keys k \<and> enc_items e + nitems k \<le> MAX_TOTAL_ITEMS
      \<and> length (enc_output e) + p + length (cbor (canon k)) \<le> unat (enc_max e)")
    case True
    then have "key_step d (k, v) (e, p, acc) = Inr (?e, ?p, acc @ [(cbor (canon k), v)])"
      using key_step_Ok_iff [OF k Cons.prems(2)] by simp
    moreover have "enc_ok ?e" "length (enc_output ?e) + ?p \<le> unat (enc_max ?e)"
      using True Cons.prems(2) by (auto simp: enc_ok_def)
    ultimately show ?thesis using Cons.IH [OF es, of ?e ?p] True by (auto simp: x)
  next
    case False
    then have "key_step d (k, v) (e, p, acc) \<noteq> Inr r" for r
      using key_step_Ok_iff [OF k Cons.prems(2)] by (cases r) auto
    with False show ?thesis by (auto simp: x res_bind_Ok_iff)
  qed
qed

definition by_key :: "(CanonicalValue \<times> CanonicalValue) list \<Rightarrow> (CanonicalValue \<times> CanonicalValue) list" where
  "by_key es = sort_key (\<lambda>(k, v). cbor (canon k)) es"

lemma canon_Map: "canon (Map es) = Map (map (\<lambda>(k, v). (canon k, canon v)) (by_key es))"
  by (simp add: by_key_def sort_key_map case_prod_unfold)

lemma sort_pairs:
  "sort_key fst (map (\<lambda>(k, v). (cbor (canon k), v)) es) = map (\<lambda>(k, v). (cbor (canon k), v)) (by_key es)"
  by (simp add: by_key_def sort_key_map case_prod_unfold)

lemma by_key_simps [simp]:
  "set (by_key es) = set es" "length (by_key es) = length es" "mset (by_key es) = mset es"
  "sorted (map (\<lambda>(k, v). cbor (canon k)) (by_key es))"
  by (simp_all add: by_key_def)

lemma sum_by_key: "sum_list (map f (by_key es)) = sum_list (map (f :: _ \<Rightarrow> nat) es)"
  by (metis by_key_simps(3) mset_map sum_mset_sum_list)

lemma distinct_by_key: "distinct (map f (by_key es)) \<longleftrightarrow> distinct (map f es)"
  by (metis by_key_simps(3) mset_eq_imp_distinct_iff mset_map)

lemma sum_split: "sum_list (map (\<lambda>(k, v). f k + g v) es)
    = sum_list (map (\<lambda>(k, v). f k) es) + sum_list (map (\<lambda>(k, v). (g v :: nat)) es)"
  by (induction es) auto

lemma writes_entry:
  "encodes v \<Longrightarrow> writes (\<lambda>self. res_bind (enc_write kb self) (encode v d))
     (profile d v \<and> distinct_keys v) (nitems v) (kb @ cbor (canon v))"
  unfolding encodes_def using writes_seq [OF writes_enc_write [of kb], of "encode v d"] by fastforce

lemma writes_values:
  assumes "\<forall>(k, v)\<in>set es. encodes v"
  shows "writes (for_each (\<lambda>(key, val) self. res_bind (enc_write key self) (\<lambda>self. encode val d self))
       (map (\<lambda>(k, v). (cbor (canon k), v)) es))
     (list_all (\<lambda>(k, v). profile d v \<and> distinct_keys v) es)
     (sum_list (map (\<lambda>(k, v). nitems v) es))
     (concat (map (\<lambda>(k, v). cbor (canon k) @ cbor (canon v)) es))"
proof -
  let ?f = "\<lambda>(key, val) self. res_bind (enc_write key self) (\<lambda>self. encode val d self)"
  have "writes (for_each ?f xs) (list_all (\<lambda>(kb, v). profile d v \<and> distinct_keys v) xs)
     (sum_list (map (\<lambda>(kb, v). nitems v) xs)) (concat (map (\<lambda>(kb, v). kb @ cbor (canon v)) xs))"
    if "\<forall>(kb, v)\<in>set xs. encodes v" for xs
    using that by (intro writes_for_each) (auto intro!: writes_entry)
  from this [of "map (\<lambda>(k, v). (cbor (canon k), v)) es"] assms show ?thesis
    by (auto simp: comp_def case_prod_unfold list_all_iff)
qed

definition map_writer :: "nat \<Rightarrow> (CanonicalValue \<times> CanonicalValue) list \<Rightarrow> Encoder \<Rightarrow> Encoder cbor_result" where
  "map_writer d es e = res_bind (for_each (key_step d) es (e, 0, [])) (\<lambda>(self, _, pairs).
     let sorted = sort_key fst pairs in
     if adjacent_equal (map fst sorted) then cbor_err DuplicateMapKey
     else res_bind (write_length 5 (length sorted) self) (\<lambda>self.
       for_each (\<lambda>(key, val) self.
         res_bind (enc_write key self) (\<lambda>self. encode val d self)) sorted self))"

lemma length_keys_le:
  "sum_list (map (\<lambda>(k, v). length (cbor (canon k))) es)
    \<le> length (concat (map (\<lambda>(k, v). cbor (canon k) @ cbor (canon v)) (by_key es)))"
proof -
  have "length (concat (map (\<lambda>(k, v). cbor (canon k) @ cbor (canon v)) (by_key es)))
     = sum_list (map (\<lambda>(k, v). length (cbor (canon k)) + length (cbor (canon v))) (by_key es))"
    by (simp add: length_concat comp_def case_prod_unfold)
  then show ?thesis by (simp add: sum_by_key sum_split)
qed

lemma writes_map_writer:
  assumes IH: "\<forall>(k, v)\<in>set es. encodes k \<and> encodes v" and len: "length es < 2 ^ 64"
  shows "writes (map_writer d es)
     (list_all (\<lambda>(k, v). profile d k \<and> profile d v) es
       \<and> distinct (map (\<lambda>(k, v). cbor (canon k)) es)
       \<and> list_all (\<lambda>(k, v). distinct_keys k \<and> distinct_keys v) es)
     (sum_list (map (\<lambda>(k, v). nitems k + nitems v) es))
     (cbor (canon (Map es)))"
  unfolding writes_def
proof (intro allI impI)
  fix e e' assume e: "enc_ok e"
  let ?nk = "sum_list (map (\<lambda>(k, v). nitems k) es)" and ?nv = "sum_list (map (\<lambda>(k, v). nitems v) es)"
  let ?body = "concat (map (\<lambda>(k, v). cbor (canon k) @ cbor (canon v)) (by_key es))"
  let ?pairs = "map (\<lambda>(k, v). (cbor (canon k), v)) (by_key es)"
  let ?f = "\<lambda>(key, val) self. res_bind (enc_write key self) (\<lambda>self. encode val d self)"
  let ?keys = "list_all (\<lambda>(k, v). profile d k \<and> distinct_keys k) es"
  let ?vals = "list_all (\<lambda>(k, v). profile d v \<and> distinct_keys v) es"
  have bytes: "cbor (canon (Map es)) = cbor_head 5 (length es) @ ?body"
    by (simp only: canon_Map) (simp add: comp_def case_prod_unfold)
  have "writes (\<lambda>e. res_bind (write_length 5 (length es) e) (for_each ?f ?pairs))
      (length es < 2 ^ 64 \<and> list_all (\<lambda>(k, v). profile d v \<and> distinct_keys v) (by_key es))
      (0 + sum_list (map (\<lambda>(k, v). nitems v) (by_key es))) (cbor_head 5 (length es) @ ?body)"
    using IH writes_write_length [of 5 "length es"]
    by (intro writes_seq writes_values) auto
  then have tail: "writes (\<lambda>e. res_bind (write_length 5 (length es) e) (for_each ?f ?pairs))
      ?vals ?nv (cbor_head 5 (length es) @ ?body)"
    using len by (simp only: sum_by_key list_all_iff by_key_simps simp_thms add_0)
  have adj: "adjacent_equal (map fst ?pairs) \<longleftrightarrow> \<not> distinct (map (\<lambda>(k, v). cbor (canon k)) es)"
  proof -
    have "map fst ?pairs = map (\<lambda>(k, v). cbor (canon k)) (by_key es)" by (simp add: comp_def case_prod_unfold)
    then show ?thesis unfolding \<open>map fst ?pairs = _\<close>
      by (simp only: adjacent_equal_sorted by_key_simps distinct_by_key)
  qed
  have run: "map_writer d es e = Inr e' \<longleftrightarrow> ?keys \<and> enc_items e + ?nk \<le> MAX_TOTAL_ITEMS
      \<and> length (enc_output e) + sum_list (map (\<lambda>(k, v). length (cbor (canon k))) es) \<le> unat (enc_max e)
      \<and> \<not> adjacent_equal (map fst ?pairs)
      \<and> res_bind (write_length 5 (length es) (advance ?nk [] e)) (for_each ?f ?pairs) = Inr e'"
  proof -
    have "\<forall>(k, v)\<in>set es. encodes k" "length (enc_output e) + 0 \<le> unat (enc_max e)"
      using IH e by (auto simp: enc_ok_def)
    from key_loop_Ok_iff [OF this(1) e this(2), of d "[]"]
    show ?thesis unfolding map_writer_def res_bind_Ok_iff [of "for_each (key_step d) es (e, 0, [])"]
      by (auto simp: Let_def sort_pairs)
  qed
  show "map_writer d es e = Inr e' \<longleftrightarrow> (list_all (\<lambda>(k, v). profile d k \<and> profile d v) es
       \<and> distinct (map (\<lambda>(k, v). cbor (canon k)) es)
       \<and> list_all (\<lambda>(k, v). distinct_keys k \<and> distinct_keys v) es)
      \<and> fits (sum_list (map (\<lambda>(k, v). nitems k + nitems v) es)) (cbor (canon (Map es))) e
      \<and> e' = advance (sum_list (map (\<lambda>(k, v). nitems k + nitems v) es)) (cbor (canon (Map es))) e"
  proof (cases "enc_items e + ?nk \<le> MAX_TOTAL_ITEMS")
    case True
    then have "enc_ok (advance ?nk [] e)" using e by (simp add: enc_ok_def)
    note t = writesD [OF tail this, of e']
    have "fits ?nv (cbor_head 5 (length es) @ ?body) (advance ?nk [] e) \<Longrightarrow>
        length (enc_output e) + sum_list (map (\<lambda>(k, v). length (cbor (canon k))) es) \<le> unat (enc_max e)"
      using length_keys_le [of es] by (simp add: fits_def enc_ok_def)
    with True show ?thesis unfolding run adj t sum_split bytes
      by (auto simp: list_all_iff fits_advance)
  next
    case False
    then show ?thesis unfolding run sum_split by (auto simp: fits_def enc_ok_def)
  qed
qed

lemma encode_split:
  "encode v d = (\<lambda>e. if d > MAX_DEPTH then cbor_err DepthLimit
     else res_bind (charge_items 1 e) (\<lambda>self.
        case v of
          Unsigned n \<Rightarrow> write_head 0 n self
        | Negative i \<Rightarrow>
            if sint i \<ge> 0 then cbor_err InvalidNegativeValue
            else let argument = - 1 - sint i in
              if 0 \<le> argument \<and> argument < 2 ^ 64 then write_head 1 (of_int argument) self
              else cbor_err IntegerOutOfRange
        | Bytes bs \<Rightarrow> res_bind (write_length 2 (length bs) self) (enc_write bs)
        | Text bs \<Rightarrow> res_bind (write_length 3 (length bs) self) (enc_write bs)
        | Array vs \<Rightarrow>
            res_bind (check_container (length vs)) (\<lambda>_.
            res_bind (write_length 4 (length vs) self) (for_each (\<lambda>v. encode v (d + 1)) vs))
        | Map es \<Rightarrow> res_bind (check_container (length es)) (\<lambda>_. map_writer (d + 1) es self)
        | Bool b \<Rightarrow> enc_write [if b then 0xf5 else 0xf4] self
        | Null \<Rightarrow> enc_write [0xf6] self))"
  by (rule ext, subst encode.simps) (simp only: map_writer_def key_step_def)

lemma encode_too_deep: "MAX_DEPTH < d \<Longrightarrow> encode v d e = cbor_err DepthLimit"
  by (subst encode_split) simp

lemma encode_step:
  assumes "d \<le> MAX_DEPTH"
  shows "encode (Unsigned n) d e = res_bind (charge_items 1 e) (write_head 0 n)"
    and "encode (Negative i) d e = res_bind (charge_items 1 e) (\<lambda>self.
       if sint i \<ge> 0 then cbor_err InvalidNegativeValue
       else let argument = - 1 - sint i in
         if 0 \<le> argument \<and> argument < 2 ^ 64 then write_head 1 (of_int argument) self
         else cbor_err IntegerOutOfRange)"
    and "encode (Bytes bs) d e = res_bind (charge_items 1 e) (\<lambda>self.
       res_bind (write_length 2 (length bs) self) (enc_write bs))"
    and "encode (Text bs) d e = res_bind (charge_items 1 e) (\<lambda>self.
       res_bind (write_length 3 (length bs) self) (enc_write bs))"
    and "encode (Array vs) d e = res_bind (charge_items 1 e) (\<lambda>self.
       res_bind (check_container (length vs)) (\<lambda>_.
       res_bind (write_length 4 (length vs) self) (for_each (\<lambda>v. encode v (d + 1)) vs)))"
    and "encode (Map es) d e = res_bind (charge_items 1 e) (\<lambda>self.
       res_bind (check_container (length es)) (\<lambda>_. map_writer (d + 1) es self))"
    and "encode (Bool b) d e = res_bind (charge_items 1 e) (enc_write [if b then 0xf5 else 0xf4])"
    and "encode Null d e = res_bind (charge_items 1 e) (enc_write [0xf6])"
  using assms
  by (simp_all only: encode_split [of "Unsigned n" d] encode_split [of "Negative i" d]
      encode_split [of "Bytes bs" d] encode_split [of "Text bs" d] encode_split [of "Array vs" d]
      encode_split [of "Map es" d] encode_split [of "Bool b" d] encode_split [of Null d]
      CanonicalValue.case not_less [symmetric] if_False)

lemma profile_depth: "profile d v \<Longrightarrow> d \<le> MAX_DEPTH"
  by (cases v) auto

lemma encodes_intro:
  assumes "\<And>d. d \<le> MAX_DEPTH \<Longrightarrow> writes (body d) (ok d) n (cbor (canon v))"
    and "\<And>d e. d \<le> MAX_DEPTH \<Longrightarrow> encode v d e = res_bind (charge_items 1 e) (body d)"
    and "\<And>d. d \<le> MAX_DEPTH \<Longrightarrow> ok d \<longleftrightarrow> profile d v \<and> distinct_keys v"
    and "nitems v = Suc n"
  shows "encodes v"
  unfolding encodes_def
proof
  fix d
  show "writes (encode v d) (profile d v \<and> distinct_keys v) (nitems v) (cbor (canon v))"
  proof (cases "d \<le> MAX_DEPTH")
    case True
    show ?thesis
      using writes_seq [OF writes_charge [of 1] assms(1) [OF True]] assms(2,3) [OF True] assms(4)
      by (simp add: writes_def)
  next
    case False
    then have "\<not> profile d v" using profile_depth by blast
    with False show ?thesis by (simp add: writes_def encode_too_deep)
  qed
qed

lemma negative_argument:
  fixes i :: "64 word"
  assumes "sint i < 0"
  shows "0 \<le> - 1 - sint i" "- 1 - sint i < 2 ^ 63" "unat (of_int (- 1 - sint i) :: u64) = nat (- 1 - sint i)"
proof -
  have "- (2 ^ 63) \<le> sint i" using sint_ge [of i] by simp
  then show le: "0 \<le> - 1 - sint i" and lt: "- 1 - sint i < 2 ^ 63" using assms by auto
  have "uint (word_of_int x :: u64) = x" if "0 \<le> x" "x < 2 ^ 63" for x
    unfolding uint_word_of_int using that by (intro mod_pos_pos_trivial) simp_all
  from this [OF le lt] show "unat (of_int (- 1 - sint i) :: u64) = nat (- 1 - sint i)"
    by (simp only: unat_eq_nat_uint)
qed

lemma writes_negative:
  "writes (\<lambda>self. if sint i \<ge> 0 then cbor_err InvalidNegativeValue
       else let argument = - 1 - sint i in
         if 0 \<le> argument \<and> argument < 2 ^ 64 then write_head 1 (of_int argument) self
         else cbor_err IntegerOutOfRange) (sint i < 0) 0 (cbor (Negative i))"
proof (cases "sint i < 0")
  case True
  note a = negative_argument [OF True]
  have "- 1 - sint i < 2 ^ 64" using a(2) by simp
  with True a writes_write_head [of 1 "of_int (- 1 - sint i)"] show ?thesis
    by (simp only: a(3) Let_def not_le [symmetric] if_False if_True simp_thms cbor.simps unat_1)
next
  case False
  then have "sint i \<ge> 0" by simp
  with False show ?thesis by (simp only: writes_def if_True sum.distinct simp_thms)
qed

lemma writes_guard: "(k \<le> MAX_CONTAINER_ENTRIES \<Longrightarrow> writes f ok n bs) \<Longrightarrow>
    writes (\<lambda>e. res_bind (check_container k) (\<lambda>_. f e)) (k \<le> MAX_CONTAINER_ENTRIES \<and> ok) n bs"
  by (cases "k \<le> MAX_CONTAINER_ENTRIES") (simp_all add: writes_def check_container_def)

lemma container_u64: "k \<le> MAX_CONTAINER_ENTRIES \<Longrightarrow> k < 2 ^ 64"
  by (simp add: MAX_CONTAINER_ENTRIES_def)

lemma writes_string:
  assumes "unat major < 8"
  shows "writes (\<lambda>e. res_bind (write_length major (length bs) e) (enc_write bs))
     True 0 (cbor_head (unat major) (length bs) @ bs)"
proof -
  have w: "writes (\<lambda>e. res_bind (write_length major (length bs) e) (enc_write bs))
     (length bs < 2 ^ 64 \<and> True) (0 + 0) (cbor_head (unat major) (length bs) @ bs)"
    by (rule writes_seq [OF writes_write_length [OF assms] writes_enc_write])
  have "length bs < 2 ^ 64" if "fits 0 (cbor_head (unat major) (length bs) @ bs) e" for e
  proof -
    have "unat (enc_max e) < 2 ^ 64" using unsigned_less [where w = "enc_max e" and ?'a = nat] by simp
    then show ?thesis using that unfolding fits_def enc_ok_def by simp
  qed
  with w show ?thesis unfolding writes_def by auto
qed

lemma encodes_leaf:
  "encodes (Unsigned n)" "encodes (Negative i)" "encodes (Bytes bs)" "encodes (Text bs)"
  "encodes (Bool b)" "encodes Null"
proof -
  show "encodes (Unsigned n)"
    by (rule encodes_intro [OF _ encode_step(1)])
      (use writes_write_head [of 0 n] in auto)
  show "encodes (Negative i)"
    by (rule encodes_intro [OF _ encode_step(2)])
      (use writes_negative [of i] in \<open>auto simp del: cbor.simps\<close>)
  show "encodes (Bytes bs)"
    by (rule encodes_intro [OF _ encode_step(3)])
      (use writes_string [of 2 bs] in auto)
  show "encodes (Text bs)"
    by (rule encodes_intro [OF _ encode_step(4)])
      (use writes_string [of 3 bs] in auto)
  show "encodes (Bool b)"
    by (rule encodes_intro [OF _ encode_step(7)])
      (use writes_enc_write in auto)
  show "encodes Null"
    by (rule encodes_intro [OF _ encode_step(8)])
      (use writes_enc_write in auto)
qed

lemma encodes_Array:
  assumes "\<And>v. v \<in> set vs \<Longrightarrow> encodes v"
  shows "encodes (Array vs)"
proof (rule encodes_intro [OF writes_guard encode_step(5)])
  fix d
  show "writes (\<lambda>e. res_bind (write_length 4 (length vs) e) (for_each (\<lambda>v. encode v (d + 1)) vs))
     (length vs < 2 ^ 64 \<and> list_all (\<lambda>v. profile (d + 1) v \<and> distinct_keys v) vs)
     (0 + sum_list (map nitems vs)) (cbor (canon (Array vs)))"
  proof -
    have "cbor (canon (Array vs)) = cbor_head (unat (4 :: byte)) (length vs) @ concat (map (\<lambda>v. cbor (canon v)) vs)"
      by (simp add: comp_def)
    then show ?thesis using assms
      by (simp only:) (intro writes_seq writes_write_length writes_for_each, auto simp: encodes_def)
  qed
  show "d \<le> MAX_DEPTH \<Longrightarrow> (length vs \<le> MAX_CONTAINER_ENTRIES \<and> length vs < 2 ^ 64
       \<and> list_all (\<lambda>v. profile (d + 1) v \<and> distinct_keys v) vs)
     \<longleftrightarrow> profile d (Array vs) \<and> distinct_keys (Array vs)"
    using container_u64 [of "length vs"] by (auto simp: list_all_iff)
qed simp_all

lemma encodes_Map:
  assumes "\<forall>(k, v)\<in>set es. encodes k \<and> encodes v"
  shows "encodes (Map es)"
proof (rule encodes_intro [OF writes_guard encode_step(6)])
  fix d
  show "length es \<le> MAX_CONTAINER_ENTRIES \<Longrightarrow> writes (map_writer (d + 1) es)
     (list_all (\<lambda>(k, v). profile (d + 1) k \<and> profile (d + 1) v) es
       \<and> distinct (map (\<lambda>(k, v). cbor (canon k)) es)
       \<and> list_all (\<lambda>(k, v). distinct_keys k \<and> distinct_keys v) es)
     (sum_list (map (\<lambda>(k, v). nitems k + nitems v) es)) (cbor (canon (Map es)))"
    using writes_map_writer [OF assms container_u64] .
qed auto

lemma encode_writes: "writes (encode v d) (profile d v \<and> distinct_keys v) (nitems v) (cbor (canon v))"
proof -
  have "encodes v"
    by (induction v) (auto intro!: encodes_leaf encodes_Array encodes_Map)
  then show ?thesis by (simp add: encodes_def)
qed

lemma encode_with_limit_Ok_iff:
  "encode_deterministic_cbor_with_limit v m = Inr bs \<longleftrightarrow>
     profile 0 v \<and> distinct_keys v \<and> nitems v \<le> MAX_TOTAL_ITEMS
     \<and> length (cbor (canon v)) \<le> unat m \<and> bs = cbor (canon v)"
proof (cases "m = 0")
  case True
  then show ?thesis by (simp add: encode_deterministic_cbor_with_limit_def)
next
  case False
  then have "encode_deterministic_cbor_with_limit v m = Inr bs \<longleftrightarrow>
      (\<exists>e. encode v 0 (Encoder_new m) = Inr e \<and> bs = enc_output e)"
    by (auto simp: encode_deterministic_cbor_with_limit_def map_ok_Ok_iff)
  then show ?thesis unfolding writesD [OF encode_writes enc_ok_new]
    by (auto simp: fits_def enc_ok_def)
qed

section \<open>No panic in the encoder\<close>

lemma for_each_no_panic [no_panic_intros]:
  "(\<And>x s. x \<in> set xs \<Longrightarrow> no_panic (f x s)) \<Longrightarrow> no_panic (for_each f xs s)"
  by (induction xs arbitrary: s) (auto intro!: no_panic_intros)

lemma enc_write_no_panic [no_panic_intros]: "no_panic (enc_write bs e)"
  unfolding enc_write_def by (intro no_panic_intros)

lemma charge_items_no_panic [no_panic_intros]: "no_panic (charge_items n e)"
  unfolding charge_items_def by (intro no_panic_intros)

lemma check_container_no_panic [no_panic_intros]: "no_panic (check_container n)"
  unfolding check_container_def by (intro no_panic_intros)

lemma write_head_no_panic [no_panic_intros]: "no_panic (write_head major a e)"
proof -
  have "a < 24 \<Longrightarrow> unat a < 256" by (simp add: word_less_nat_alt)
  then show ?thesis unfolding write_head_def Let_def
    by (intro no_panic_if no_panic_bind enc_write_no_panic) simp_all
qed

lemma write_length_no_panic [no_panic_intros]: "no_panic (write_length major n e)"
  unfolding write_length_def by (intro no_panic_intros)

lemma encode_no_panic [no_panic_intros]: "no_panic (encode v d e)"
proof (induction "33 - d" arbitrary: v d e rule: less_induct)
  case less
  show ?case
  proof (cases "d \<le> MAX_DEPTH")
    case True
    then have IH: "no_panic (encode w (d + 1) e')" for w e' using less by (simp add: MAX_DEPTH_def)
    have key: "no_panic (key_step (d + 1) x s)" for x s
      unfolding key_step_def by (intro no_panic_intros IH)
    have map: "no_panic (map_writer (d + 1) es e')" for es e'
      unfolding map_writer_def Let_def by (intro no_panic_intros key IH)
    show ?thesis
      by (cases v; simp only: encode_step [OF True] Let_def; intro no_panic_intros IH map)
  next
    case False
    then show ?thesis by (simp add: encode_too_deep no_panic_values)
  qed
qed

end
