(* ===== verification/Cbor_Decode.thy ===== *)
theory Cbor_Decode
  imports Cbor_Encode
begin

text \<open>
  The parser against the reference semantics: it accepts exactly the reference bytes of the
  values in canonical form and inside the budgets. With the encoder this gives the round
  trips, injectivity and the codec contract.
\<close>

unbundle bit_operations_syntax

section \<open>Readers\<close>

definition par_ok :: "Parser \<Rightarrow> bool" where
  "par_ok p = (par_position p \<le> length (par_input p) \<and> length (par_input p) \<le> unat (par_max p)
     \<and> par_items p \<le> MAX_TOTAL_ITEMS)"

definition remaining :: "Parser \<Rightarrow> byte list" where
  "remaining p = drop (par_position p) (par_input p)"

text \<open>\<open>consumes p bs k q\<close>: from \<open>p\<close> the bytes \<open>bs\<close> are read and \<open>k\<close> items counted, giving \<open>q\<close>.\<close>

definition consumes :: "Parser \<Rightarrow> byte list \<Rightarrow> nat \<Rightarrow> Parser \<Rightarrow> bool" where
  "consumes p bs k q = ((\<exists>r. remaining p = bs @ r)
     \<and> q = p\<lparr>par_position := par_position p + length bs, par_items := par_items p + k\<rparr>
     \<and> par_ok q)"

lemma consumes_Nil: "par_ok p \<Longrightarrow> consumes p [] 0 q \<longleftrightarrow> q = p"
  by (auto simp: consumes_def)

lemma consumes_append:
  "(\<exists>q. consumes p bs k q \<and> consumes q cs l r) \<longleftrightarrow> consumes p (bs @ cs) (k + l) r"
proof
  assume "\<exists>q. consumes p bs k q \<and> consumes q cs l r"
  then obtain q where "consumes p bs k q" "consumes q cs l r" by blast
  moreover from this(1) have "remaining p = bs @ remaining q"
    by (auto simp: consumes_def remaining_def) (metis add.commute append_eq_conv_conj drop_drop)
  ultimately show "consumes p (bs @ cs) (k + l) r"
    by (auto simp: consumes_def add.assoc)
next
  assume c: "consumes p (bs @ cs) (k + l) r"
  define q where "q = p\<lparr>par_position := par_position p + length bs, par_items := par_items p + k\<rparr>"
  from c obtain s where s: "remaining p = bs @ cs @ s" by (auto simp: consumes_def)
  then have "remaining q = cs @ s"
    by (simp add: remaining_def q_def) (metis add.commute append_eq_conv_conj drop_drop)
  moreover have "par_ok q" using c by (auto simp: consumes_def par_ok_def q_def)
  ultimately have "consumes p bs k q" "consumes q cs l r"
    using c s by (auto simp: consumes_def q_def add.assoc)
  then show "\<exists>q. consumes p bs k q \<and> consumes q cs l r" by blast
qed

lemma consumes_ok: "consumes p bs k q \<Longrightarrow> par_ok q"
  by (auto simp: consumes_def)

lemma consumes_length: "consumes p bs k q \<Longrightarrow> par_ok p \<Longrightarrow> length bs \<le> unat (par_max p)"
  by (auto simp: consumes_def par_ok_def)

lemma consumes_frame:
  "consumes p bs k q \<Longrightarrow> par_max q = par_max p" "consumes p bs k q \<Longrightarrow> par_input q = par_input p"
  by (auto simp: consumes_def)

lemma prefix_byte: "n < length xs \<Longrightarrow> (\<exists>r. drop n xs = [b] @ r) \<longleftrightarrow> xs ! n = b"
  by (metis Cons_nth_drop_Suc append_Cons append_Nil list.inject)

lemma read_byte_Ok_iff:
  assumes "par_ok p"
  shows "read_byte p = Inr (b, q) \<longleftrightarrow> consumes p [b] 0 q"
proof (cases "par_position p < length (par_input p)")
  case True
  then show ?thesis using assms
    unfolding consumes_def remaining_def prefix_byte [OF True] read_byte_def par_ok_def by auto
next
  case False
  then have "remaining p = []" by (simp add: remaining_def)
  then have "\<not> consumes p [b] 0 q" by (simp add: consumes_def)
  with False show ?thesis by (simp add: read_byte_def)
qed

lemma prefix_take: "n \<le> length xs \<Longrightarrow> (\<exists>r. xs = bs @ r) \<and> length bs = n \<longleftrightarrow> bs = take n xs"
  by (metis append_eq_conv_conj append_take_drop_id length_take min.absorb2)

lemma read_exact_Ok_iff:
  assumes "par_ok p"
  shows "read_exact n p = Inr (bs, q) \<longleftrightarrow> length bs = n \<and> consumes p bs 0 q"
proof (cases "par_position p + n \<le> length (par_input p)")
  case True
  have "par_position p + n \<le> unat (par_max p)" using True assms unfolding par_ok_def by linarith
  then have "checked_add_usize (par_position p) n = Some (par_position p + n)"
    using checked_add_usize_le by blast
  then have run: "read_exact n p = Inr (take n (remaining p), p\<lparr>par_position := par_position p + n\<rparr>)"
    using True by (simp add: read_exact_def remaining_def)
  have "(\<exists>r. remaining p = bs @ r) \<and> length bs = n \<longleftrightarrow> bs = take n (remaining p)"
    by (rule prefix_take) (use True in \<open>simp add: remaining_def\<close>)
  with True assms run show ?thesis by (auto simp: consumes_def par_ok_def)
next
  case False
  then have "length bs = n \<Longrightarrow> \<not> consumes p bs 0 q" by (auto simp: consumes_def par_ok_def)
  moreover have "read_exact n p \<noteq> Inr (bs, q)"
    using False unfolding read_exact_def res_bind_Ok_iff ok_or_Ok_iff
    by (auto simp: checked_add_usize_def simp del: power_numeral split: if_splits)
  ultimately show ?thesis by blast
qed

lemma read_array_Ok_iff:
  "par_ok p \<Longrightarrow> read_array n p = Inr (bs, q) \<longleftrightarrow> length bs = n \<and> consumes p bs 0 q"
  by (auto simp: read_array_def res_bind_Ok_iff read_exact_Ok_iff split: prod.splits)

section \<open>Heads\<close>

definition head_info :: "nat \<Rightarrow> nat" where
  "head_info n = (if n < 24 then n else if n < 2 ^ 8 then 24 else if n < 2 ^ 16 then 25
     else if n < 2 ^ 32 then 26 else 27)"

definition head_tail :: "nat \<Rightarrow> byte list" where
  "head_tail n = (if n < 24 then [] else if n < 2 ^ 8 then [of_nat n] else if n < 2 ^ 16 then be_bytes 2 n
     else if n < 2 ^ 32 then be_bytes 4 n else be_bytes 8 n)"

lemma cbor_head_split: "cbor_head m n = of_nat (m * 32 + head_info n) # head_tail n"
  by (simp add: cbor_head_def head_info_def head_tail_def del: of_nat_add of_nat_mult)

lemma head_info_less: "head_info n < 32"
  by (simp add: head_info_def)

definition major_of :: "byte \<Rightarrow> nat" where
  "major_of b = unat (drop_bit 5 b)"

definition info_of :: "byte \<Rightarrow> nat" where
  "info_of b = unat (b AND 0x1f)"

lemma major_info: "unat b = major_of b * 32 + info_of b"
  by (simp add: major_of_def info_of_def unat_drop_bit mask_1f unat_and_mask)

lemma info_less: "info_of b < 32"
  by (simp add: info_of_def mask_1f unat_and_mask)

lemma major_less: "major_of b < 8"
  using byte_less [of b] by (simp add: major_of_def unat_drop_bit less_mult_imp_div_less)

lemma radix_unique: "a * 32 + i = c * 32 + j \<Longrightarrow> i < 32 \<Longrightarrow> j < 32 \<Longrightarrow> a = c \<and> i = (j :: nat)"
proof -
  assume h: "a * 32 + i = c * 32 + j" "i < 32" "j < 32"
  from arg_cong [OF h(1), of "\<lambda>x. x mod 32"] h(2,3) have "i = j" by simp
  with h(1) show ?thesis by simp
qed

lemma initial_byte_iff:
  assumes "m < 8" "i < 32"
  shows "b = of_nat (m * 32 + i) \<longleftrightarrow> major_of b = m \<and> info_of b = i"
proof -
  have lt: "m * 32 + i < 256" using assms by simp
  have "b = of_nat (m * 32 + i) \<longleftrightarrow> unat b = m * 32 + i"
    using lt by (simp add: word_unat_eq_iff unat_of_nat del: of_nat_add of_nat_mult)
  also have "\<dots> \<longleftrightarrow> major_of b = m \<and> info_of b = i"
    using radix_unique [of "major_of b" "info_of b" m i] major_info [of b] info_less [of b] assms(2) by auto
  finally show ?thesis .
qed

lemma consumes_head:
  assumes "m < 8"
  shows "consumes p (cbor_head m n @ bs) k q \<longleftrightarrow>
     (\<exists>b s. consumes p [b] 0 s \<and> major_of b = m \<and> info_of b = head_info n \<and> consumes s (head_tail n @ bs) k q)"
proof -
  define b0 :: byte where "b0 = of_nat (m * 32 + head_info n)"
  have b0: "b = b0 \<longleftrightarrow> major_of b = m \<and> info_of b = head_info n" for b
    unfolding b0_def by (rule initial_byte_iff [OF assms head_info_less])
  have "consumes p (cbor_head m n @ bs) k q \<longleftrightarrow> (\<exists>s. consumes p [b0] 0 s \<and> consumes s (head_tail n @ bs) k q)"
    using consumes_append [of p "[b0]" 0 "head_tail n @ bs" k q] by (simp only: cbor_head_split b0_def) simp
  then show ?thesis using b0 by metis
qed

lemma array_argument:
  assumes "par_ok p" "n = 2 \<or> n = 4 \<or> n = 8" "lo < 256 ^ n"
  shows "(\<exists>bs. read_array n p = Inr (bs, q) \<and> lo \<le> be_val bs \<and> a = (of_nat (be_val bs) :: u64))
     \<longleftrightarrow> lo \<le> unat a \<and> unat a < 256 ^ n \<and> consumes p (be_bytes n (unat a)) 0 q"
proof
  assume "\<exists>bs. read_array n p = Inr (bs, q) \<and> lo \<le> be_val bs \<and> a = of_nat (be_val bs)"
  then obtain bs where bs: "length bs = n" "consumes p bs 0 q" "lo \<le> be_val bs" "a = of_nat (be_val bs)"
    using read_array_Ok_iff [OF assms(1)] by blast
  have v: "be_val bs < 256 ^ n" using be_val_less [of bs] bs(1) by simp
  have "(256 :: nat) ^ n \<le> 256 ^ 8" using assms(2) by (intro power_increasing) auto
  with v have "be_val bs < 2 ^ 64" by simp
  then have "unat a = be_val bs" unfolding bs(4) by (rule u64_cbor_head)
  then show "lo \<le> unat a \<and> unat a < 256 ^ n \<and> consumes p (be_bytes n (unat a)) 0 q"
    using bs v be_bytes_be_val [OF bs(1)] by simp
next
  assume h: "lo \<le> unat a \<and> unat a < 256 ^ n \<and> consumes p (be_bytes n (unat a)) 0 q"
  then have "read_array n p = Inr (be_bytes n (unat a), q)" using read_array_Ok_iff [OF assms(1)] by simp
  moreover have "be_val (be_bytes n (unat a)) = unat a" using h by simp
  ultimately show "\<exists>bs. read_array n p = Inr (bs, q) \<and> lo \<le> be_val bs \<and> a = of_nat (be_val bs)"
    using h by (intro exI [of _ "be_bytes n (unat a)"]) simp
qed

lemma head_info_eq:
  "head_info n = 24 \<longleftrightarrow> 24 \<le> n \<and> n < 2 ^ 8" "head_info n = 25 \<longleftrightarrow> 2 ^ 8 \<le> n \<and> n < 2 ^ 16"
  "head_info n = 26 \<longleftrightarrow> 2 ^ 16 \<le> n \<and> n < 2 ^ 32" "head_info n = 27 \<longleftrightarrow> 2 ^ 32 \<le> n"
  "k < 24 \<Longrightarrow> head_info n = k \<longleftrightarrow> n = k" "27 < k \<Longrightarrow> head_info n \<noteq> k"
  by (auto simp: head_info_def)

lemma head_tail_eq:
  "n < 24 \<Longrightarrow> head_tail n = []" "24 \<le> n \<Longrightarrow> n < 2 ^ 8 \<Longrightarrow> head_tail n = [of_nat n]"
  "2 ^ 8 \<le> n \<Longrightarrow> n < 2 ^ 16 \<Longrightarrow> head_tail n = be_bytes 2 n"
  "2 ^ 16 \<le> n \<Longrightarrow> n < 2 ^ 32 \<Longrightarrow> head_tail n = be_bytes 4 n"
  "2 ^ 32 \<le> n \<Longrightarrow> head_tail n = be_bytes 8 n"
  by (simp_all add: head_tail_def)

lemma byte_argument:
  "(\<exists>b. consumes p [b] 0 q \<and> \<not> b < 24 \<and> n = (ucast b :: u64))
     \<longleftrightarrow> (24 \<le> unat n \<and> unat n < 2 ^ 8) \<and> consumes p [of_nat (unat n)] 0 q"
proof
  assume "\<exists>b. consumes p [b] 0 q \<and> \<not> b < 24 \<and> n = (ucast b :: u64)"
  then obtain b :: byte where b: "consumes p [b] 0 q" "\<not> b < 24" "n = ucast b" by blast
  have u: "unat n = unat b" unfolding b(3) unat_ucast_mod by (rule mod_less, rule less_trans [OF byte_less]) simp
  show "(24 \<le> unat n \<and> unat n < 2 ^ 8) \<and> consumes p [of_nat (unat n)] 0 q"
    unfolding u using b(1,2) byte_less [of b] by (simp add: word_less_nat_alt)
next
  assume h: "(24 \<le> unat n \<and> unat n < 2 ^ 8) \<and> consumes p [of_nat (unat n)] 0 q"
  then have "unat (of_nat (unat n) :: byte) = unat n"
    unfolding unat_of_nat by (intro mod_less) simp
  moreover have "n = ucast (of_nat (unat n) :: byte)"
    using h calculation by (simp only: word_unat_eq_iff unat_ucast_mod) simp
  ultimately show "\<exists>b. consumes p [b] 0 q \<and> \<not> b < 24 \<and> n = (ucast b :: u64)"
    using h by (intro exI [of _ "of_nat (unat n)"]) (simp only: word_less_nat_alt, simp)
qed

lemma read_argument_Ok_iff:
  assumes "par_ok p" "unat a < 32"
  shows "read_argument a p = Inr (n, q) \<longleftrightarrow>
     unat a = head_info (unat n) \<and> consumes p (head_tail (unat n)) 0 q"
proof -
  have num: "a = k \<longleftrightarrow> unat a = unat k" for k by (simp add: word_unat_eq_iff)
  consider (small) "unat a < 24" | (b24) "unat a = 24" | (b25) "unat a = 25" | (b26) "unat a = 26"
    | (b27) "unat a = 27" | (big) "27 < unat a" by linarith
  then show ?thesis
  proof cases
    case small
    then have le: "a \<le> 23" by (simp add: word_le_nat_alt)
    have u: "unat (ucast a :: u64) = unat a"
      unfolding unat_ucast_mod by (rule mod_less, rule less_trans [OF byte_less]) simp
    have "n = ucast a \<longleftrightarrow> unat a = head_info (unat n)"
      using small u head_info_eq(5) [of "unat a" "unat n"] by (auto simp: word_unat_eq_iff)
    moreover have "unat a = head_info (unat n) \<Longrightarrow> head_tail (unat n) = []"
      using small head_info_eq(5) [of "unat a" "unat n"] head_tail_eq(1) by auto
    ultimately show ?thesis using le consumes_Nil [OF assms(1)] by (auto simp: read_argument_def)
  next
    case b24
    then have a: "a = 24" by (simp add: num)
    have "read_argument a p = Inr (n, q) \<longleftrightarrow> (\<exists>b. consumes p [b] 0 q \<and> \<not> b < 24 \<and> n = ucast b)"
      by (auto simp: read_argument_def a res_bind_Ok_iff read_byte_Ok_iff [OF assms(1)] split: if_splits)
    then show ?thesis unfolding byte_argument b24 eq_commute [of 24] head_info_eq(1)
      using head_tail_eq(2) [of "unat n"] by auto
  next
    case b25
    then have a: "a = 25" by (simp add: num)
    have "read_argument a p = Inr (n, q) \<longleftrightarrow>
        (\<exists>bs. read_array 2 p = Inr (bs, q) \<and> 2 ^ 8 \<le> be_val bs \<and> n = of_nat (be_val bs))"
      by (auto simp: read_argument_def a res_bind_Ok_iff not_less split: if_splits)
    then show ?thesis using array_argument [OF assms(1), of 2 "2 ^ 8" q n] head_tail_eq(3) [of "unat n"]
      unfolding b25 eq_commute [of 25] head_info_eq(2) by auto
  next
    case b26
    then have a: "a = 26" by (simp add: num)
    have "read_argument a p = Inr (n, q) \<longleftrightarrow>
        (\<exists>bs. read_array 4 p = Inr (bs, q) \<and> 2 ^ 16 \<le> be_val bs \<and> n = of_nat (be_val bs))"
      by (auto simp: read_argument_def a res_bind_Ok_iff not_less split: if_splits)
    then show ?thesis using array_argument [OF assms(1), of 4 "2 ^ 16" q n] head_tail_eq(4) [of "unat n"]
      unfolding b26 eq_commute [of 26] head_info_eq(3) by auto
  next
    case b27
    then have a: "a = 27" by (simp add: num)
    have "read_argument a p = Inr (n, q) \<longleftrightarrow>
        (\<exists>bs. read_array 8 p = Inr (bs, q) \<and> 2 ^ 32 \<le> be_val bs \<and> n = of_nat (be_val bs))"
      by (auto simp: read_argument_def a res_bind_Ok_iff not_less split: if_splits)
    moreover have "unat n < 256 ^ 8" using unsigned_less [where w = n and ?'a = nat] by simp
    ultimately show ?thesis
      using array_argument [OF assms(1), of 8 "2 ^ 32" q n] head_tail_eq(5) [of "unat n"]
      unfolding b27 eq_commute [of 27] head_info_eq(4) by auto
  next
    case big
    then have "\<not> a \<le> 23" "a \<noteq> 24" "a \<noteq> 25" "a \<noteq> 26" "a \<noteq> 27" by (auto simp: word_le_nat_alt num)
    then have "read_argument a p \<noteq> Inr (n, q)" by (auto simp: read_argument_def split: if_splits)
    then show ?thesis using head_info_eq(6) [OF big, of "unat n"] by auto
  qed
qed

lemma read_length_Ok_iff:
  assumes "par_ok p" "unat a < 32"
  shows "read_length a p = Inr (l, q) \<longleftrightarrow>
     unat a = head_info l \<and> consumes p (head_tail l) 0 q \<and> l \<le> unat (par_max p)"
proof
  assume "read_length a p = Inr (l, q)"
  then obtain n where n: "read_argument a p = Inr (n, q)" "l = unat n" "unat n \<le> unat (par_max q)"
    by (auto simp: read_length_def res_bind_Ok_iff not_less split: if_splits)
  from n(1) have h: "unat a = head_info (unat n)" "consumes p (head_tail (unat n)) 0 q"
    unfolding read_argument_Ok_iff [OF assms] by blast+
  then show "unat a = head_info l \<and> consumes p (head_tail l) 0 q \<and> l \<le> unat (par_max p)"
    using n(2,3) consumes_frame(1) [OF h(2)] by simp
next
  assume h: "unat a = head_info l \<and> consumes p (head_tail l) 0 q \<and> l \<le> unat (par_max p)"
  have "unat (par_max p) < 2 ^ 64" using unsigned_less [where w = "par_max p" and ?'a = nat] by simp
  then have u: "unat (of_nat l :: u64) = l" using h by (intro u64_cbor_head) simp
  then have "read_argument a p = Inr (of_nat l, q)" unfolding read_argument_Ok_iff [OF assms] using h by simp
  then show "read_length a p = Inr (l, q)"
    using h u consumes_frame(1) [of p _ 0 q] by (auto simp: read_length_def)
qed

lemma read_container_length_Ok_iff:
  assumes "par_ok p" "unat a < 32"
  shows "read_container_length a p = Inr (l, q) \<longleftrightarrow> unat a = head_info l \<and> consumes p (head_tail l) 0 q
     \<and> l \<le> unat (par_max p) \<and> l \<le> MAX_CONTAINER_ENTRIES"
  by (auto simp: read_container_length_def res_bind_Ok_iff read_length_Ok_iff [OF assms] not_less
      split: if_splits)

section \<open>The loops\<close>

definition accepted :: "nat \<Rightarrow> CanonicalValue \<Rightarrow> bool" where
  "accepted d v = (profile d v \<and> utf8_texts v \<and> sorted_maps v)"

definition decodes :: "nat \<Rightarrow> bool" where
  "decodes d = (\<forall>p v q. par_ok p \<longrightarrow>
     (parse_value d p = Inr (v, q) \<longleftrightarrow> accepted d v \<and> consumes p (cbor v) (nitems v) q))"

definition array_step :: "nat \<Rightarrow> CanonicalValue list \<times> Parser \<Rightarrow> (CanonicalValue list \<times> Parser) cbor_result" where
  "array_step d = (\<lambda>(values, self).
     res_bind (parse_value d self) (\<lambda>(value, self). Inr (values @ [value], self)))"

definition entry_step :: "nat \<Rightarrow> (CanonicalValue \<times> CanonicalValue) list \<times> byte list option \<times> Parser
    \<Rightarrow> ((CanonicalValue \<times> CanonicalValue) list \<times> byte list option \<times> Parser) cbor_result" where
  "entry_step d = (\<lambda>(entries, previous_key, self).
     let key_start = par_position self in
     res_bind (parse_value d self) (\<lambda>(key_value, self).
     res_bind (slice_range (par_input self) key_start (par_position self)) (\<lambda>key.
     res_bind (check_key_order previous_key key) (\<lambda>_.
     res_bind (parse_value d self) (\<lambda>(value, self).
       Inr (entries @ [(key_value, value)], Some key, self))))))"

lemma array_step_Ok_iff:
  assumes "decodes d" "par_ok p"
  shows "array_step d (acc, p) = Inr (acc', q) \<longleftrightarrow>
     (\<exists>v. acc' = acc @ [v] \<and> accepted d v \<and> consumes p (cbor v) (nitems v) q)"
  using assms by (auto simp: array_step_def decodes_def res_bind_Ok_iff)

lemma array_loop_Ok_iff:
  assumes "decodes d" "par_ok p"
  shows "repeat_res n (array_step d) (acc, p) = Inr (acc', q) \<longleftrightarrow>
     (\<exists>vs. acc' = acc @ vs \<and> length vs = n \<and> list_all (accepted d) vs
       \<and> consumes p (concat (map cbor vs)) (sum_list (map nitems vs)) q)"
  using assms(2)
proof (induction n arbitrary: acc p)
  case 0
  then show ?case using consumes_Nil [OF 0] by auto
next
  case (Suc n)
  have "repeat_res (Suc n) (array_step d) (acc, p) = Inr (acc', q) \<longleftrightarrow>
      (\<exists>v s. accepted d v \<and> consumes p (cbor v) (nitems v) s
        \<and> repeat_res n (array_step d) (acc @ [v], s) = Inr (acc', q))"
    by (auto simp: res_bind_Ok_iff array_step_Ok_iff [OF assms(1) Suc.prems])
  also have "\<dots> \<longleftrightarrow> (\<exists>v vs. accepted d v \<and> acc' = acc @ v # vs \<and> length vs = n \<and> list_all (accepted d) vs
      \<and> (\<exists>s. consumes p (cbor v) (nitems v) s \<and> consumes s (concat (map cbor vs)) (sum_list (map nitems vs)) q))"
  proof -
    have "consumes p (cbor v) (nitems v) s \<and> repeat_res n (array_step d) (acc @ [v], s) = Inr (acc', q) \<longleftrightarrow>
        (\<exists>vs. acc' = acc @ v # vs \<and> length vs = n \<and> list_all (accepted d) vs \<and>
          consumes p (cbor v) (nitems v) s \<and> consumes s (concat (map cbor vs)) (sum_list (map nitems vs)) q)" for v s
      using Suc.IH [of s "acc @ [v]"] consumes_ok [of p "cbor v" "nitems v" s] by auto
    then show ?thesis by blast
  qed
  also have "\<dots> \<longleftrightarrow> (\<exists>vs. acc' = acc @ vs \<and> length vs = Suc n \<and> list_all (accepted d) vs
       \<and> consumes p (concat (map cbor vs)) (sum_list (map nitems vs)) q)"
    unfolding consumes_append by (auto simp: length_Suc_conv)
  finally show ?case .
qed

lemma check_key_order_Ok_iff:
  "check_key_order prev k = Inr u \<longleftrightarrow> sorted_wrt (<) (case prev of None \<Rightarrow> [k] | Some k' \<Rightarrow> [k', k])"
  by (cases prev) (auto simp: check_key_order_def split: if_splits)

lemma slice_consumed:
  assumes "par_ok p" "consumes p bs k q"
  shows "slice_range (par_input q) (par_position p) (par_position q) = Inr bs"
proof -
  from assms(2) obtain r where r: "remaining p = bs @ r" by (auto simp: consumes_def)
  have q: "par_position q = par_position p + length bs" "par_input q = par_input p" "par_ok q"
    using assms(2) by (auto simp: consumes_def)
  then show ?thesis using r by (simp add: slice_range_def par_ok_def remaining_def)
qed

lemma entry_step_Ok_iff:
  assumes "decodes d" "par_ok p"
  shows "entry_step d (acc, prev, p) = Inr (acc', prev', q) \<longleftrightarrow>
     (\<exists>k v. acc' = acc @ [(k, v)] \<and> prev' = Some (cbor k) \<and> accepted d k \<and> accepted d v
       \<and> sorted_wrt (<) (case prev of None \<Rightarrow> [cbor k] | Some k' \<Rightarrow> [k', cbor k])
       \<and> consumes p (cbor k @ cbor v) (nitems k + nitems v) q)"
proof -
  have P: "parse_value d s = Inr (v, t) \<longleftrightarrow> accepted d v \<and> consumes s (cbor v) (nitems v) t"
    if "par_ok s" for s v t using assms(1) that by (simp add: decodes_def)
  have "entry_step d (acc, prev, p) = Inr (acc', prev', q) \<longleftrightarrow>
     (\<exists>k v s. acc' = acc @ [(k, v)] \<and> prev' = Some (cbor k) \<and> accepted d k \<and> accepted d v
       \<and> sorted_wrt (<) (case prev of None \<Rightarrow> [cbor k] | Some k' \<Rightarrow> [k', cbor k])
       \<and> consumes p (cbor k) (nitems k) s \<and> consumes s (cbor v) (nitems v) q)"
    using consumes_ok slice_consumed [OF assms(2)]
    by (auto simp: entry_step_def res_bind_Ok_iff Let_def P [OF assms(2)] check_key_order_Ok_iff
        P [OF consumes_ok] simp del: sorted_wrt.simps) (metis P)
  then show ?thesis unfolding consumes_append [symmetric] by blast
qed

lemma entry_loop_Ok_iff:
  assumes "decodes d" "par_ok p"
  shows "(\<exists>prev'. repeat_res n (entry_step d) (acc, prev, p) = Inr (acc', prev', q)) \<longleftrightarrow>
     (\<exists>es. acc' = acc @ es \<and> length es = n \<and> list_all (\<lambda>(k, v). accepted d k \<and> accepted d v) es
       \<and> sorted_wrt (<) ((case prev of None \<Rightarrow> [] | Some k' \<Rightarrow> [k']) @ map (\<lambda>(k, v). cbor k) es)
       \<and> consumes p (concat (map (\<lambda>(k, v). cbor k @ cbor v) es))
           (sum_list (map (\<lambda>(k, v). nitems k + nitems v) es)) q)"
  using assms(2)
proof (induction n arbitrary: acc prev p)
  case 0
  then show ?case using consumes_Nil [OF 0] by (auto split: option.splits)
next
  case (Suc n)
  let ?B = "\<lambda>es. concat (map (\<lambda>(k, v). cbor k @ cbor v) es)"
  let ?N = "\<lambda>es. sum_list (map (\<lambda>(k, v). nitems k + nitems v) es)"
  let ?K = "\<lambda>es. map (\<lambda>(k, v). cbor k) es"
  let ?A = "list_all (\<lambda>(k, v). accepted d k \<and> accepted d v)"
  have "(\<exists>prev'. repeat_res (Suc n) (entry_step d) (acc, prev, p) = Inr (acc', prev', q)) \<longleftrightarrow>
      (\<exists>k v s. accepted d k \<and> accepted d v
        \<and> sorted_wrt (<) (case prev of None \<Rightarrow> [cbor k] | Some k' \<Rightarrow> [k', cbor k])
        \<and> consumes p (cbor k @ cbor v) (nitems k + nitems v) s
        \<and> (\<exists>prev'. repeat_res n (entry_step d) (acc @ [(k, v)], Some (cbor k), s) = Inr (acc', prev', q)))"
    by (auto simp: res_bind_Ok_iff entry_step_Ok_iff [OF assms(1) Suc.prems] simp del: sorted_wrt.simps)
      blast
  also have "\<dots> \<longleftrightarrow> (\<exists>k v es. accepted d k \<and> accepted d v
        \<and> sorted_wrt (<) (case prev of None \<Rightarrow> [cbor k] | Some k' \<Rightarrow> [k', cbor k])
        \<and> acc' = acc @ (k, v) # es \<and> length es = n \<and> ?A es \<and> sorted_wrt (<) (cbor k # ?K es)
        \<and> (\<exists>s. consumes p (cbor k @ cbor v) (nitems k + nitems v) s \<and> consumes s (?B es) (?N es) q))"
  proof -
    have "consumes p (cbor k @ cbor v) (nitems k + nitems v) s
        \<and> (\<exists>prev'. repeat_res n (entry_step d) (acc @ [(k, v)], Some (cbor k), s) = Inr (acc', prev', q)) \<longleftrightarrow>
        (\<exists>es. acc' = acc @ (k, v) # es \<and> length es = n \<and> ?A es \<and> sorted_wrt (<) (cbor k # ?K es)
        \<and> consumes p (cbor k @ cbor v) (nitems k + nitems v) s \<and> consumes s (?B es) (?N es) q)" for k v s
      using Suc.IH [of s "acc @ [(k, v)]" "Some (cbor k)"]
        consumes_ok [of p "cbor k @ cbor v" "nitems k + nitems v" s]
      by (auto simp del: sorted_wrt.simps)
    then show ?thesis by blast
  qed
  also have "\<dots> \<longleftrightarrow> (\<exists>es. acc' = acc @ es \<and> length es = Suc n \<and> ?A es
       \<and> sorted_wrt (<) ((case prev of None \<Rightarrow> [] | Some k' \<Rightarrow> [k']) @ ?K es)
       \<and> consumes p (?B es) (?N es) q)"
    unfolding consumes_append
    by (auto simp: length_Suc_conv sorted_wrt2 [OF transp_on_less] sorted_wrt1
        simp del: sorted_wrt.simps(2) split: option.splits)
  finally show ?case .
qed

section \<open>The parser against the reference\<close>

definition parse_body :: "nat \<Rightarrow> byte \<Rightarrow> Parser \<Rightarrow> (CanonicalValue \<times> Parser) cbor_result" where
  "parse_body depth initial self =
     (let major = drop_bit 5 initial; additional = initial AND 0x1f in
      if major = 0 then
        res_bind (read_argument additional self) (\<lambda>(value, self). Inr (Unsigned value, self))
      else if major = 1 then
        res_bind (read_argument additional self) (\<lambda>(argument, self).
          if unat argument > 2 ^ 63 - 1 then cbor_err IntegerOutOfRange
          else let value = - 1 - int (unat argument) in
            if - (2 ^ 63) \<le> value \<and> value < 2 ^ 63 then Inr (Negative (of_int value), self)
            else cbor_err IntegerOutOfRange)
      else if major = 2 \<or> major = 3 then
        res_bind (read_length additional self) (\<lambda>(len, self).
        res_bind (read_exact len self) (\<lambda>(bytes, self).
          if major = 2 then Inr (Bytes bytes, self)
          else if utf8_valid bytes then Inr (Text bytes, self)
          else cbor_err InvalidUtf8))
      else if major = 4 then
        res_bind (read_container_length additional self) (\<lambda>(len, self).
        res_bind (repeat_res len (array_step (depth + 1)) ([], self)) (\<lambda>(values, self).
          Inr (Array values, self)))
      else if major = 5 then
        res_bind (read_container_length additional self) (\<lambda>(len, self).
        res_bind (repeat_res len (entry_step (depth + 1)) ([], None, self)) (\<lambda>(entries, _, self).
          Inr (Map entries, self)))
      else if major = 6 then cbor_err TagNotAllowed
      else if major = 7 then
        res_bind (simple_value additional) (\<lambda>value. Inr (value, self))
      else Inl Panic)"

lemma parse_split:
  "parse_value d p =
     (if d > MAX_DEPTH then cbor_err DepthLimit
      else res_bind (ok_or (Fail ContainerTooLarge) (checked_add_usize (par_items p) 1)) (\<lambda>items.
        if items > MAX_TOTAL_ITEMS then cbor_err ContainerTooLarge
        else res_bind (read_byte (p\<lparr>par_items := items\<rparr>)) (\<lambda>(b, q). parse_body d b q)))"
  unfolding parse_body_def array_step_def entry_step_def by (rule parse_value.simps)

lemma parse_too_deep: "MAX_DEPTH < d \<Longrightarrow> parse_value d p = cbor_err DepthLimit"
  by (subst parse_split) simp

lemma parse_initial:
  assumes "d \<le> MAX_DEPTH" "par_ok p"
  shows "parse_value d p = Inr (v, q) \<longleftrightarrow> (\<exists>b s. consumes p [b] 1 s \<and> parse_body d b s = Inr (v, q))"
proof -
  let ?p = "p\<lparr>par_items := par_items p + 1\<rparr>"
  have add: "checked_add_usize (par_items p) 1 = Some (par_items p + 1)"
    using assms(2) by (simp add: checked_add_usize_def par_ok_def MAX_TOTAL_ITEMS_def)
  have run: "parse_value d p = (if par_items p + 1 > MAX_TOTAL_ITEMS then cbor_err ContainerTooLarge
      else res_bind (read_byte ?p) (\<lambda>(b, q). parse_body d b q))"
    using assms(1) by (subst parse_split, subst add) simp
  show ?thesis
  proof (cases "par_items p + 1 \<le> MAX_TOTAL_ITEMS")
    case True
    then have ok: "par_ok ?p" using assms(2) by (simp add: par_ok_def)
    have "consumes ?p [b] 0 s \<longleftrightarrow> consumes p [b] 1 s" for b s
      by (simp add: consumes_def remaining_def)
    then have "read_byte ?p = Inr (b, s) \<longleftrightarrow> consumes p [b] 1 s" for b s
      using read_byte_Ok_iff [OF ok] by blast
    then show ?thesis unfolding run using True by (simp add: res_bind_Ok_iff del: Suc_eq_plus1 add_Suc_right One_nat_def)
  next
    case False
    then show ?thesis unfolding run by (auto simp: consumes_def par_ok_def)
  qed
qed

fun vmajor :: "CanonicalValue \<Rightarrow> nat" where
  "vmajor (Unsigned _) = 0" | "vmajor (Negative _) = 1" | "vmajor (Bytes _) = 2" | "vmajor (Text _) = 3"
| "vmajor (Array _) = 4" | "vmajor (Map _) = 5" | "vmajor (Bool _) = 7" | "vmajor Null = 7"

fun vinfo :: "CanonicalValue \<Rightarrow> nat" where
  "vinfo (Unsigned n) = head_info (unat n)" | "vinfo (Negative i) = head_info (nat (- 1 - sint i))"
| "vinfo (Bytes bs) = head_info (length bs)" | "vinfo (Text bs) = head_info (length bs)"
| "vinfo (Array vs) = head_info (length vs)" | "vinfo (Map es) = head_info (length es)"
| "vinfo (Bool b) = (if b then 21 else 20)" | "vinfo Null = 22"

fun vtail :: "CanonicalValue \<Rightarrow> byte list" where
  "vtail (Unsigned n) = head_tail (unat n)" | "vtail (Negative i) = head_tail (nat (- 1 - sint i))"
| "vtail (Bytes bs) = head_tail (length bs) @ bs" | "vtail (Text bs) = head_tail (length bs) @ bs"
| "vtail (Array vs) = head_tail (length vs) @ concat (map cbor vs)"
| "vtail (Map es) = head_tail (length es) @ concat (map (\<lambda>(k, v). cbor k @ cbor v) es)"
| "vtail (Bool b) = []" | "vtail Null = []"

lemma cbor_vsplit: "cbor v = of_nat (vmajor v * 32 + vinfo v) # vtail v"
  by (cases v) (simp_all add: cbor_head_split del: of_nat_add of_nat_mult)

lemma vmajor_less: "vmajor v < 8" and vinfo_less: "vinfo v < 32"
  by (cases v; simp add: head_info_less)+

definition reads_as :: "nat \<Rightarrow> byte \<Rightarrow> Parser \<Rightarrow> CanonicalValue \<Rightarrow> Parser \<Rightarrow> bool" where
  "reads_as d b p v q = (accepted d v \<and> major_of b = vmajor v \<and> info_of b = vinfo v
     \<and> consumes p (vtail v) (nitems v - 1) q)"

lemma consumes_cbor:
  "consumes p (cbor v) (nitems v) q \<longleftrightarrow>
     (\<exists>b s. consumes p [b] 1 s \<and> major_of b = vmajor v \<and> info_of b = vinfo v
       \<and> consumes s (vtail v) (nitems v - 1) q)"
proof -
  define b0 :: byte where "b0 = of_nat (vmajor v * 32 + vinfo v)"
  have b0: "b = b0 \<longleftrightarrow> major_of b = vmajor v \<and> info_of b = vinfo v" for b
    unfolding b0_def by (rule initial_byte_iff [OF vmajor_less vinfo_less])
  have "cbor v = [b0] @ vtail v" "nitems v = 1 + (nitems v - 1)"
    using nitems_pos [of v] by (simp only: cbor_vsplit b0_def append.simps, linarith)
  then have "consumes p (cbor v) (nitems v) q \<longleftrightarrow>
      (\<exists>s. consumes p [b0] 1 s \<and> consumes s (vtail v) (nitems v - 1) q)"
    using consumes_append by metis
  then show ?thesis using b0 by metis
qed

lemma major_word: "drop_bit 5 b = k \<longleftrightarrow> major_of b = unat k"
  by (simp add: major_of_def word_unat_eq_iff)

lemma info_word: "unat (b AND 0x1f) = info_of b"
  by (simp add: info_of_def)

lemma major_numerals [simp]:
  "unat (0 :: byte) = 0" "unat (1 :: byte) = 1" "unat (2 :: byte) = 2" "unat (3 :: byte) = 3" "unat (4 :: byte) = 4"
  "unat (5 :: byte) = 5" "unat (6 :: byte) = 6" "unat (7 :: byte) = 7"
  by simp_all

lemmas parse_body_major = parse_body_def [unfolded Let_def, unfolded major_word major_numerals]

lemma accepted_simps:
  assumes "d \<le> MAX_DEPTH"
  shows "accepted d (Unsigned n)" "accepted d (Negative i) \<longleftrightarrow> sint i < 0" "accepted d (Bytes bs)"
    "accepted d (Text bs) \<longleftrightarrow> utf8_valid bs" "accepted d (Bool c)" "accepted d Null"
    "accepted d (Array vs) \<longleftrightarrow> length vs \<le> MAX_CONTAINER_ENTRIES \<and> list_all (accepted (d + 1)) vs"
    "accepted d (Map es) \<longleftrightarrow> length es \<le> MAX_CONTAINER_ENTRIES
       \<and> list_all (\<lambda>(k, v). accepted (d + 1) k \<and> accepted (d + 1) v) es
       \<and> sorted_wrt (<) (map (\<lambda>(k, v). cbor k) es)"
  using assms by (auto simp: accepted_def list_all_iff)

lemma body_unsigned:
  assumes "par_ok p" "major_of b = 0" "d \<le> MAX_DEPTH"
  shows "parse_body d b p = Inr (v, q) \<longleftrightarrow> reads_as d b p v q"
proof -
  have "unat (b AND 0x1f) < 32" unfolding info_word by (rule info_less)
  note arg = read_argument_Ok_iff [OF assms(1) this, unfolded info_word]
  show ?thesis using assms(2,3)
    by (cases v) (auto simp: parse_body_major res_bind_Ok_iff arg reads_as_def accepted_simps)
qed

lemma sint_of_int_i64:
  assumes "- (2 ^ 63) \<le> x" "x < 2 ^ 63"
  shows "sint (word_of_int x :: 64 word) = x"
  unfolding sint_sbintrunc' using assms by (intro signed_take_bit_int_eq_self) simp_all

lemma int_le_i64_max: "k \<le> 2 ^ 63 - 1 \<Longrightarrow> int k \<le> 2 ^ 63 - 1"
proof -
  assume "k \<le> 2 ^ 63 - 1"
  then have "int k \<le> int (2 ^ 63 - 1)" by (simp only: of_nat_le_iff)
  then show ?thesis by simp
qed

lemma negative_iff:
  fixes n i :: "64 word"
  shows "unat n \<le> 2 ^ 63 - 1 \<and> i = word_of_int (- 1 - int (unat n)) \<longleftrightarrow> sint i < 0 \<and> unat n = nat (- 1 - sint i)"
proof
  assume h: "unat n \<le> 2 ^ 63 - 1 \<and> i = word_of_int (- 1 - int (unat n))"
  then have "int (unat n) \<le> 2 ^ 63 - 1" by (intro int_le_i64_max) blast
  then have "sint (word_of_int (- 1 - int (unat n)) :: 64 word) = - 1 - int (unat n)"
    by (intro sint_of_int_i64) linarith+
  with h have "sint i = - 1 - int (unat n)" by (simp only:)
  then have "sint i < 0" "- 1 - sint i = int (unat n)" by linarith+
  then show "sint i < 0 \<and> unat n = nat (- 1 - sint i)" by (simp only: nat_int simp_thms)
next
  assume h: "sint i < 0 \<and> unat n = nat (- 1 - sint i)"
  have "- (2 ^ 63) \<le> sint i" using sint_ge [of i] by simp
  with h have "unat n \<le> 2 ^ 63 - 1" and v: "- 1 - int (unat n) = sint i" by auto
  moreover have "i = word_of_int (sint i)" by (simp flip: scast_eq)
  ultimately show "unat n \<le> 2 ^ 63 - 1 \<and> i = word_of_int (- 1 - int (unat n))" by simp
qed

lemma negative_value:
  "(if unat n > 2 ^ 63 - 1 then cbor_err IntegerOutOfRange
    else if - (2 ^ 63) \<le> - 1 - int (unat n) \<and> - 1 - int (unat n) < 2 ^ 63
      then Inr (Negative (word_of_int (- 1 - int (unat n))), s)
      else cbor_err IntegerOutOfRange) = Inr (v, q) \<longleftrightarrow>
   (\<exists>i. v = Negative i \<and> q = s \<and> unat n \<le> 2 ^ 63 - 1 \<and> i = word_of_int (- 1 - int (unat n)))"
proof (cases "unat n > 2 ^ 63 - 1")
  case False
  then have le: "unat n \<le> 2 ^ 63 - 1" by linarith
  then have "- (2 ^ 63) \<le> - 1 - int (unat n) \<and> - 1 - int (unat n) < 2 ^ 63"
    using int_le_i64_max [OF le] by linarith
  then show ?thesis using False le by (simp only: if_False if_True simp_thms sum.inject prod.inject) blast
qed simp

lemma body_negative:
  assumes "par_ok p" "major_of b = 1" "d \<le> MAX_DEPTH"
  shows "parse_body d b p = Inr (v, q) \<longleftrightarrow> reads_as d b p v q"
proof -
  have "unat (b AND 0x1f) < 32" unfolding info_word by (rule info_less)
  note arg = read_argument_Ok_iff [OF assms(1) this, unfolded info_word]
  have run: "parse_body d b p = Inr (v, q) \<longleftrightarrow> (\<exists>(n :: 64 word) i. v = Negative i
      \<and> (unat n \<le> 2 ^ 63 - 1 \<and> i = word_of_int (- 1 - int (unat n)))
      \<and> info_of b = head_info (unat n) \<and> consumes p (head_tail (unat n)) 0 q)"
    using assms(2) by (simp only: parse_body_major res_bind_Ok_iff split_paired_Ex case_prod_conv arg
        negative_value if_False if_True one_neq_zero simp_thms) blast
  have n: "\<exists>n :: 64 word. unat n = nat (- 1 - sint i)" if "sint i < 0" for i :: "64 word"
    using negative_argument(3) [OF that] by blast
  show ?thesis unfolding run negative_iff
    using assms(2,3) by (cases v) (auto simp: reads_as_def accepted_simps, metis n)
qed

lemma body_string:
  assumes "par_ok p" "major_of b = 2 \<or> major_of b = 3" "d \<le> MAX_DEPTH"
  shows "parse_body d b p = Inr (v, q) \<longleftrightarrow> reads_as d b p v q"
proof -
  have "unat (b AND 0x1f) < 32" unfolding info_word by (rule info_less)
  note len = read_length_Ok_iff [OF assms(1) this, unfolded info_word]
  have exact: "consumes p bs 0 s \<and> read_exact l s = Inr (cs, q) \<longleftrightarrow> consumes p bs 0 s \<and> length cs = l \<and> consumes s cs 0 q"
    for bs cs s l q using read_exact_Ok_iff [OF consumes_ok] by blast
  have run: "parse_body d b p = Inr (v, q) \<longleftrightarrow> (\<exists>l bs s. (if major_of b = 2 then v = Bytes bs else v = Text bs \<and> utf8_valid bs)
      \<and> info_of b = head_info l \<and> l \<le> unat (par_max p) \<and> (consumes p (head_tail l) 0 s \<and> read_exact l s = Inr (bs, q)))"
    using assms(2) by (auto simp: parse_body_major res_bind_Ok_iff len split: if_splits)
  have fit: "length bs \<le> unat (par_max p)" if "consumes p (head_tail (length bs) @ bs) 0 q" for bs
    using consumes_length [OF that assms(1)] by simp
  have "parse_body d b p = Inr (v, q) \<longleftrightarrow> (\<exists>bs. (if major_of b = 2 then v = Bytes bs else v = Text bs \<and> utf8_valid bs)
      \<and> info_of b = head_info (length bs) \<and> consumes p (head_tail (length bs) @ bs) 0 q)"
    (is "_ \<longleftrightarrow> (\<exists>bs. ?A bs \<and> _ bs \<and> _ bs)")
  proof -
    have "parse_body d b p = Inr (v, q) \<longleftrightarrow> (\<exists>bs. ?A bs \<and> info_of b = head_info (length bs)
        \<and> length bs \<le> unat (par_max p) \<and> (\<exists>s. consumes p (head_tail (length bs)) 0 s \<and> consumes s bs 0 q))"
      unfolding run exact by blast
    then show ?thesis unfolding consumes_append add_0 using fit by blast
  qed
  then show ?thesis using assms(2,3) by (cases v) (auto simp: reads_as_def accepted_simps)
qed

lemma length_concat_cbor: "length vs \<le> length (concat (map cbor vs))"
proof (induction vs)
  case (Cons v vs)
  have "1 \<le> length (cbor v)" using cbor_not_Nil [of v] by (cases "cbor v") auto
  with Cons show ?case by simp
qed simp

lemma length_concat_entries: "length es \<le> length (concat (map (\<lambda>(k, v). cbor k @ cbor v) es))"
proof (induction es)
  case (Cons e es)
  have "1 \<le> length (cbor (fst e))" using cbor_not_Nil [of "fst e"] by (cases "cbor (fst e)") auto
  with Cons show ?case by (simp add: case_prod_unfold)
qed simp

lemma body_array:
  assumes "par_ok p" "major_of b = 4" "d \<le> MAX_DEPTH" "decodes (d + 1)"
  shows "parse_body d b p = Inr (v, q) \<longleftrightarrow> reads_as d b p v q"
proof -
  have "unat (b AND 0x1f) < 32" unfolding info_word by (rule info_less)
  note len = read_container_length_Ok_iff [OF assms(1) this, unfolded info_word]
  have loop: "consumes p bs 0 s \<and> repeat_res l (array_step (d + 1)) ([], s) = Inr (vs, q) \<longleftrightarrow>
      consumes p bs 0 s \<and> length vs = l \<and> list_all (accepted (d + 1)) vs
      \<and> consumes s (concat (map cbor vs)) (sum_list (map nitems vs)) q" for bs s l vs q
    using array_loop_Ok_iff [OF assms(4) consumes_ok, of p bs 0 s l "[]"] by auto
  have run: "parse_body d b p = Inr (v, q) \<longleftrightarrow> (\<exists>l vs s. v = Array vs \<and> info_of b = head_info l
      \<and> l \<le> unat (par_max p) \<and> l \<le> MAX_CONTAINER_ENTRIES
      \<and> (consumes p (head_tail l) 0 s \<and> repeat_res l (array_step (d + 1)) ([], s) = Inr (vs, q)))"
    using assms(2) by (auto simp: parse_body_major res_bind_Ok_iff len)
  have fit: "length vs \<le> unat (par_max p)"
    if "consumes p (head_tail (length vs) @ concat (map cbor vs)) k q" for vs k
    using consumes_length [OF that assms(1)] length_concat_cbor [of vs] by simp
  have "parse_body d b p = Inr (v, q) \<longleftrightarrow> (\<exists>vs. v = Array vs \<and> info_of b = head_info (length vs)
      \<and> length vs \<le> unat (par_max p) \<and> length vs \<le> MAX_CONTAINER_ENTRIES \<and> list_all (accepted (d + 1)) vs
      \<and> (\<exists>s. consumes p (head_tail (length vs)) 0 s
            \<and> consumes s (concat (map cbor vs)) (sum_list (map nitems vs)) q))"
    unfolding run loop by blast
  then show ?thesis unfolding consumes_append add_0 using fit assms(2,3)
    by (cases v) (auto simp: reads_as_def accepted_simps)
qed

lemma body_map:
  assumes "par_ok p" "major_of b = 5" "d \<le> MAX_DEPTH" "decodes (d + 1)"
  shows "parse_body d b p = Inr (v, q) \<longleftrightarrow> reads_as d b p v q"
proof -
  have "unat (b AND 0x1f) < 32" unfolding info_word by (rule info_less)
  note len = read_container_length_Ok_iff [OF assms(1) this, unfolded info_word]
  let ?B = "\<lambda>es. concat (map (\<lambda>(k, v). cbor k @ cbor v) es)"
  let ?N = "\<lambda>es. sum_list (map (\<lambda>(k, v). nitems k + nitems v) es)"
  let ?A = "\<lambda>es. list_all (\<lambda>(k, v). accepted (d + 1) k \<and> accepted (d + 1) v) es
      \<and> sorted_wrt (<) (map (\<lambda>(k, v). cbor k) es)"
  have loop: "consumes p bs 0 s \<and> (\<exists>prev. repeat_res l (entry_step (d + 1)) ([], None, s) = Inr (es, prev, q)) \<longleftrightarrow>
      consumes p bs 0 s \<and> length es = l \<and> ?A es \<and> consumes s (?B es) (?N es) q" for bs s l es q
    using entry_loop_Ok_iff [OF assms(4) consumes_ok, of p bs 0 s l "[]" None] by auto
  have run: "parse_body d b p = Inr (v, q) \<longleftrightarrow> (\<exists>l es s. v = Map es \<and> info_of b = head_info l
      \<and> l \<le> unat (par_max p) \<and> l \<le> MAX_CONTAINER_ENTRIES
      \<and> (consumes p (head_tail l) 0 s
          \<and> (\<exists>prev. repeat_res l (entry_step (d + 1)) ([], None, s) = Inr (es, prev, q))))"
    using assms(2) by (auto simp: parse_body_major res_bind_Ok_iff len)
  have fit: "length es \<le> unat (par_max p)" if "consumes p (head_tail (length es) @ ?B es) k q" for es k
    using consumes_length [OF that assms(1)] length_concat_entries [of es] by simp
  have "parse_body d b p = Inr (v, q) \<longleftrightarrow> (\<exists>es. v = Map es \<and> info_of b = head_info (length es)
      \<and> length es \<le> unat (par_max p) \<and> length es \<le> MAX_CONTAINER_ENTRIES \<and> ?A es
      \<and> (\<exists>s. consumes p (head_tail (length es)) 0 s \<and> consumes s (?B es) (?N es) q))"
    unfolding run loop by blast
  then show ?thesis unfolding consumes_append add_0 using fit assms(2,3)
    by (cases v) (auto simp: reads_as_def accepted_simps)
qed

lemma simple_value_Ok_iff:
  "simple_value (b AND 0x1f) = Inr v \<longleftrightarrow>
     (v = Bool False \<and> info_of b = 20) \<or> (v = Bool True \<and> info_of b = 21) \<or> (v = Null \<and> info_of b = 22)"
proof -
  have eq: "b AND 0x1f = k \<longleftrightarrow> info_of b = unat k" for k
    by (simp add: info_of_def word_unat_eq_iff)
  show ?thesis unfolding simple_value_def eq by auto
qed

lemma body_simple:
  assumes "par_ok p" "major_of b = 7" "d \<le> MAX_DEPTH"
  shows "parse_body d b p = Inr (v, q) \<longleftrightarrow> reads_as d b p v q"
  using assms(2,3) consumes_Nil [OF assms(1)]
  by (cases v) (auto simp: parse_body_major res_bind_Ok_iff simple_value_Ok_iff reads_as_def accepted_simps)

lemma body_tag:
  assumes "major_of b = 6"
  shows "parse_body d b p = Inr (v, q) \<longleftrightarrow> reads_as d b p v q"
  using assms by (cases v) (auto simp: parse_body_major reads_as_def)

lemma parse_body_Ok_iff:
  assumes "par_ok p" "d \<le> MAX_DEPTH" "decodes (d + 1)"
  shows "parse_body d b p = Inr (v, q) \<longleftrightarrow> reads_as d b p v q"
proof -
  consider "major_of b = 0" | "major_of b = 1" | "major_of b = 2 \<or> major_of b = 3" | "major_of b = 4"
    | "major_of b = 5" | "major_of b = 6" | "major_of b = 7" using major_less [of b] by linarith
  then show ?thesis
    using body_unsigned body_negative body_string body_array body_map body_tag body_simple assms
    by cases blast+
qed

lemma parse_decodes: "decodes d"
proof (induction "33 - d" arbitrary: d rule: less_induct)
  case less
  show ?case
  proof (cases "d \<le> MAX_DEPTH")
    case True
    then have IH: "decodes (d + 1)" using less by (simp add: MAX_DEPTH_def)
    have "parse_value d p = Inr (v, q) \<longleftrightarrow> accepted d v \<and> consumes p (cbor v) (nitems v) q"
      if p: "par_ok p" for p v q
    proof -
      have "consumes p [b] 1 s \<and> parse_body d b s = Inr (v, q) \<longleftrightarrow>
          consumes p [b] 1 s \<and> accepted d v \<and> major_of b = vmajor v \<and> info_of b = vinfo v
          \<and> consumes s (vtail v) (nitems v - 1) q" for b s
        using parse_body_Ok_iff [OF consumes_ok True IH] reads_as_def by metis
      then show ?thesis unfolding parse_initial [OF True p] consumes_cbor by blast
    qed
    then show ?thesis unfolding decodes_def by blast
  next
    case False
    then have "\<not> accepted d v" for v using profile_depth by (auto simp: accepted_def)
    with False show ?thesis by (simp add: decodes_def parse_too_deep)
  qed
qed

section \<open>Decoding and encoding\<close>

lemma consumes_start:
  "consumes \<lparr>par_input = bs, par_position = 0, par_items = 0, par_max = m\<rparr> x k q \<longleftrightarrow>
      (\<exists>r. bs = x @ r) \<and> q = \<lparr>par_input = bs, par_position = length x, par_items = k, par_max = m\<rparr> \<and> par_ok q" 
  by (simp add: consumes_def remaining_def)

lemma whole_prefix: "(\<exists>r. bs = x @ r) \<and> length x = length bs \<longleftrightarrow> bs = x"
  by (metis append.right_neutral append_eq_append_conv)

lemma consumes_all:
  assumes "length bs \<le> unat m"
  shows "(\<exists>q. consumes \<lparr>par_input = bs, par_position = 0, par_items = 0, par_max = m\<rparr> x k q
       \<and> par_position q = length bs) \<longleftrightarrow> bs = x \<and> k \<le> MAX_TOTAL_ITEMS"
proof -
  have "(\<exists>q. consumes \<lparr>par_input = bs, par_position = 0, par_items = 0, par_max = m\<rparr> x k q
       \<and> par_position q = length bs) \<longleftrightarrow> ((\<exists>r. bs = x @ r) \<and> length x = length bs) \<and> k \<le> MAX_TOTAL_ITEMS"
    unfolding consumes_start using assms by (simp add: par_ok_def conj_ac cong: conj_cong)
  then show ?thesis unfolding whole_prefix .
qed
lemma decode_with_limit_Ok_iff:
  "decode_deterministic_cbor_with_limit bs m = Inr v \<longleftrightarrow>
     accepted 0 v \<and> nitems v \<le> MAX_TOTAL_ITEMS \<and> length bs \<le> unat m \<and> bs = cbor v"
proof (cases "m = 0 \<or> length bs > unat m")
  case True
  then have "\<not> (length bs \<le> unat m \<and> bs = cbor v)" using cbor_not_Nil [of v] by auto
  moreover have "decode_deterministic_cbor_with_limit bs m = cbor_err InputTooLarge"
    using True by (simp only: decode_deterministic_cbor_with_limit_def if_True)
  ultimately show ?thesis by simp
next
  case False
  let ?p = "\<lparr>par_input = bs, par_position = 0, par_items = 0, par_max = m\<rparr>"
  have ok: "par_ok ?p" and len: "length bs \<le> unat m" using False by (simp_all add: par_ok_def)
  have "decode_deterministic_cbor_with_limit bs m = Inr v \<longleftrightarrow>
      (\<exists>q. parse_value 0 ?p = Inr (v, q) \<and> par_position q = length bs)"
    using False by (auto simp: decode_deterministic_cbor_with_limit_def res_bind_Ok_iff split: if_splits)
  also have "\<dots> \<longleftrightarrow> accepted 0 v \<and> (\<exists>q. consumes ?p (cbor v) (nitems v) q \<and> par_position q = length bs)"
    using parse_decodes [of 0] ok unfolding decodes_def by blast
  finally show ?thesis unfolding consumes_all [OF len] using len by blast
qed

lemma canon_sorted: "sorted_maps v \<Longrightarrow> canon v = v"
proof (induction v)
  case (Map es)
  have elems: "map (\<lambda>(k, v). (canon k, canon v)) es = es"
    using Map by (intro map_idI) (auto simp: list_all_iff)
  have "sorted (map (\<lambda>(k, v). cbor k) es)" using Map.prems strict_sorted_imp_sorted by auto
  then have "sort_key (\<lambda>(k, v). cbor k) es = es" by (rule sort_key_id_if_sorted)
  with elems show ?case by simp
qed (auto simp: list_all_iff intro: map_idI)

lemma canon_preserves:
  "nitems (canon v) = nitems v" "profile d (canon v) = profile d v" "utf8_texts (canon v) = utf8_texts v"
proof -
  show "nitems (canon v) = nitems v"
  proof (induction v)
    case (Array vs)
    then show ?case by (simp add: comp_def cong: map_cong)
  next
    case (Map es)
    then have "map ((\<lambda>(k, v). nitems k + nitems v) \<circ> (\<lambda>(k, v). (canon k, canon v))) (by_key es)
        = map (\<lambda>(k, v). nitems k + nitems v) (by_key es)" by (intro map_cong) auto
    then show ?case unfolding canon_Map by (simp only: nitems.simps map_map sum_by_key)
  qed simp_all
  show "profile d (canon v) = profile d v"
  proof (induction v arbitrary: d)
    case (Map es)
    then show ?case unfolding canon_Map by (fastforce simp: list_all_iff)
  qed (simp_all add: list_all_iff)
  show "utf8_texts (canon v) = utf8_texts v"
  proof (induction v)
    case (Map es)
    then show ?case unfolding canon_Map by (fastforce simp: list_all_iff)
  qed (simp_all add: list_all_iff)
qed

lemma strict_sorted_distinct: "sorted xs \<Longrightarrow> distinct xs \<Longrightarrow> sorted_wrt (<) (xs :: 'a::linorder list)"
  by (simp add: strict_sorted_iff)

lemma sorted_maps_canon: "distinct_keys v \<Longrightarrow> sorted_maps (canon v)"
proof (induction v)
  case (Map es)
  let ?c = "\<lambda>(k, v). (canon k, canon v)"
  have "map (\<lambda>(k, v). cbor k) (map ?c (by_key es)) = map (\<lambda>(k, v). cbor (canon k)) (by_key es)"
    by (simp add: case_prod_unfold)
  moreover have "sorted_wrt (<) (map (\<lambda>(k, v). cbor (canon k)) (by_key es))"
    using Map.prems by (intro strict_sorted_distinct) (simp_all add: distinct_by_key)
  moreover have "list_all (\<lambda>(k, v). sorted_maps k \<and> sorted_maps v) (map ?c (by_key es))"
    using Map by (fastforce simp: list_all_iff)
  ultimately show ?case unfolding canon_Map by (simp only: sorted_maps.simps simp_thms)
qed (auto simp: list_all_iff)

lemma sorted_maps_distinct: "sorted_maps v \<Longrightarrow> distinct_keys v"
proof (induction v)
  case (Map es)
  have "map (\<lambda>(k, v). cbor (canon k)) es = map (\<lambda>(k, v). cbor k) es"
    using Map.prems by (auto simp: list_all_iff canon_sorted)
  moreover have "distinct (map (\<lambda>(k, v). cbor k) es)" using Map.prems by (simp add: strict_sorted_iff)
  moreover have "list_all (\<lambda>(k, v). distinct_keys k \<and> distinct_keys v) es"
    using Map by (fastforce simp: list_all_iff)
  ultimately show ?case by (simp only: distinct_keys.simps simp_thms)
qed (auto simp: list_all_iff)

section \<open>No panic in the parser\<close>

lemma repeat_no_panic:
  assumes "\<And>s. I s \<Longrightarrow> no_panic (f s)" "\<And>s t. I s \<Longrightarrow> f s = Inr t \<Longrightarrow> I t" "I s"
  shows "no_panic (repeat_res n f s)"
  using assms(3) by (induction n arbitrary: s) (auto intro!: no_panic_intros assms(1) intro: assms(2))

lemma read_byte_no_panic [no_panic_intros]: "no_panic (read_byte p)"
  unfolding read_byte_def by (intro no_panic_intros)

lemma read_exact_no_panic [no_panic_intros]: "no_panic (read_exact n p)"
  unfolding read_exact_def by (intro no_panic_intros)

lemma read_array_no_panic [no_panic_intros]: "no_panic (read_array n p)"
  unfolding read_array_def by (intro no_panic_intros)

lemma read_argument_no_panic [no_panic_intros]: "no_panic (read_argument (b AND 0x1f) p)"
proof -
  have "unat (b AND 0x1f) < 32" unfolding info_word by (rule info_less)
  then have "\<not> (b AND 0x1f) \<le> 30 \<Longrightarrow> b AND 0x1f = 31"
    by (simp add: word_le_nat_alt word_unat_eq_iff)
  then show ?thesis unfolding read_argument_def
    by (intro no_panic_if no_panic_bind no_panic_prod no_panic_values read_byte_no_panic
        read_array_no_panic) simp_all
qed

lemma read_length_no_panic [no_panic_intros]: "no_panic (read_length (b AND 0x1f) p)"
  unfolding read_length_def by (intro no_panic_intros)

lemma read_container_length_no_panic [no_panic_intros]: "no_panic (read_container_length (b AND 0x1f) p)"
  unfolding read_container_length_def by (intro no_panic_intros)

lemma simple_value_no_panic [no_panic_intros]: "no_panic (simple_value a)"
  unfolding simple_value_def by (intro no_panic_intros)

lemma check_key_order_no_panic [no_panic_intros]: "no_panic (check_key_order prev k)"
  unfolding check_key_order_def by (cases prev) (auto intro!: no_panic_intros)

lemma parse_keeps_ok: "par_ok p \<Longrightarrow> parse_value d p = Inr (v, q) \<Longrightarrow> par_ok q"
  using parse_decodes [of d] consumes_ok unfolding decodes_def by blast

lemma parse_slice:
  assumes "par_ok p" "parse_value d p = Inr (v, q)"
  shows "no_panic (slice_range (par_input q) (par_position p) (par_position q))"
  using parse_decodes [of d] slice_consumed [OF assms(1)] assms unfolding decodes_def no_panic_def by auto

lemma loops_no_panic:
  assumes "\<And>p. par_ok p \<Longrightarrow> no_panic (parse_value d p)" "par_ok p"
  shows "no_panic (repeat_res n (array_step d) (vs, p))"
    and "no_panic (repeat_res n (entry_step d) (es, prev, p))"
proof -
  show "no_panic (repeat_res n (array_step d) (vs, p))"
    by (rule repeat_no_panic [where I = "\<lambda>(_, p). par_ok p"])
      (auto simp: array_step_def res_bind_Ok_iff intro!: no_panic_intros assms intro: parse_keeps_ok)
  show "no_panic (repeat_res n (entry_step d) (es, prev, p))"
    by (rule repeat_no_panic [where I = "\<lambda>(_, _, p). par_ok p"])
      (auto simp: entry_step_def Let_def res_bind_Ok_iff intro!: no_panic_intros assms parse_slice
        dest: parse_keeps_ok parse_keeps_ok [OF parse_keeps_ok])
qed

lemma parse_no_panic: "par_ok p \<Longrightarrow> no_panic (parse_value d p)"
proof (induction "33 - d" arbitrary: d p rule: less_induct)
  case less
  show ?case
  proof (cases "d \<le> MAX_DEPTH")
    case True
    then have IH: "par_ok s \<Longrightarrow> no_panic (parse_value (d + 1) s)" for s
      using less by (simp add: MAX_DEPTH_def)
    have len: "par_ok s \<Longrightarrow> read_container_length (b AND 0x1f) s = Inr (l, t) \<Longrightarrow> par_ok t" for b s l t
      using read_container_length_Ok_iff [of s "b AND 0x1f" l t] info_less [of b] consumes_ok
      by (auto simp: info_word)
    have body: "no_panic (parse_body d b s)" if "par_ok s" for b s
    proof -
      have "major_of b \<notin> {0, 1, 2, 3, 4, 5, 6, 7} \<Longrightarrow> False" using major_less [of b] by auto
      then show ?thesis unfolding parse_body_major using that
        by (auto intro!: no_panic_intros loops_no_panic IH [simplified] intro: len)
    qed
    have "par_ok (p\<lparr>par_items := i\<rparr>)" if "i \<le> MAX_TOTAL_ITEMS" for i
      using less.prems that by (simp add: par_ok_def)
    then show ?thesis using True consumes_ok read_byte_Ok_iff
      by (subst parse_split) (auto intro!: no_panic_intros body simp: not_less)
  next
    case False
    then show ?thesis by (simp add: parse_too_deep no_panic_values)
  qed
qed

lemma decode_no_panic: "no_panic (decode_deterministic_cbor_with_limit bs m)"
  unfolding decode_deterministic_cbor_with_limit_def
  by (intro no_panic_intros parse_no_panic) (auto simp: par_ok_def)

lemma encode_with_limit_no_panic: "no_panic (encode_deterministic_cbor_with_limit v m)"
  unfolding encode_deterministic_cbor_with_limit_def by (intro no_panic_intros)

section \<open>The codec contract\<close>

definition in_budget :: "usize \<Rightarrow> CanonicalValue \<Rightarrow> bool" where
  "in_budget m v = (accepted 0 v \<and> nitems v \<le> MAX_TOTAL_ITEMS \<and> length (cbor v) \<le> unat m)"

interpretation cbor_bytes: canonical_codec cbor "\<lambda>bs. decode_deterministic_cbor_with_limit bs m" "in_budget m"
  for m
  by unfold_locales (auto simp: decode_with_limit_Ok_iff in_budget_def)

lemma encode_decode_value:
  "decode_deterministic_cbor_with_limit bs m = Inr v \<Longrightarrow> encode_deterministic_cbor_with_limit v m = Inr bs"
  unfolding decode_with_limit_Ok_iff encode_with_limit_Ok_iff accepted_def
  by (auto simp: canon_sorted sorted_maps_distinct)

lemma decode_encode_value:
  "encode_deterministic_cbor_with_limit v m = Inr bs \<Longrightarrow> utf8_texts v \<Longrightarrow>
    decode_deterministic_cbor_with_limit bs m = Inr (canon v)"
  unfolding decode_with_limit_Ok_iff encode_with_limit_Ok_iff accepted_def
  by (auto simp: canon_preserves sorted_maps_canon)

lemma by_key_unique:
  assumes "mset es = mset fs" "distinct (map (\<lambda>(k, v). cbor (canon k)) es)"
  shows "by_key es = by_key fs"
  unfolding by_key_def
proof (rule sort_key_inj_key_eq)
  show "mset es = mset (sort_key (\<lambda>(k, v). cbor (canon k)) fs)" using assms(1) by simp
  show "inj_on (\<lambda>(k, v). cbor (canon k)) (set es)" using assms(2) by (simp add: distinct_map)
qed simp

lemma encode_map_perm:
  assumes "mset es = mset fs"
  shows "encode_deterministic_cbor_with_limit (Map es) m = Inr bs \<longleftrightarrow>
    encode_deterministic_cbor_with_limit (Map fs) m = Inr bs"
proof -
  have distinct: "distinct (map f es) \<longleftrightarrow> distinct (map f fs)" for f :: "_ \<Rightarrow> byte list"
    by (metis assms mset_eq_imp_distinct_iff mset_map)
  have len: "length es = length fs" and sets: "set es = set fs"
    using mset_eq_length [OF assms] mset_eq_setD [OF assms] .
  have inv: "profile 0 (Map es) = profile 0 (Map fs)" "distinct_keys (Map es) = distinct_keys (Map fs)"
    unfolding profile.simps distinct_keys.simps list_all_iff distinct len sets by (rule refl)+
  have "sum_list (map f es) = sum_list (map f fs)" for f :: "_ \<Rightarrow> nat"
    by (metis assms mset_map sum_mset_sum_list)
  then have "nitems (Map es) = nitems (Map fs)" by simp
  moreover have "distinct_keys (Map es) \<Longrightarrow> canon (Map es) = canon (Map fs)"
    unfolding canon_Map using by_key_unique [OF assms] by (simp only: distinct_keys.simps)
  ultimately show ?thesis unfolding encode_with_limit_Ok_iff inv using inv(2) by metis
qed

section \<open>Properties\<close>

lemmas cbor_eval = encode_with_limit_Ok_iff decode_with_limit_Ok_iff accepted_def MAX_TOTAL_ITEMS_def MAX_DEPTH_def
  MAX_CONTAINER_ENTRIES_def cbor_head_def

text \<open>C3. The encoder is exactly the reference encoding: it succeeds on a value iff the value is inside
  the profile (depth, signs, container sizes, no duplicate map key, total items) and its canonical
  encoding fits the byte limit, and then it returns those bytes.\<close>
theorem cbor_encode_exact:
  "encode_deterministic_cbor_with_limit v m = Inr bs \<longleftrightarrow>
     profile 0 v \<and> distinct_keys v \<and> nitems v \<le> 65536 \<and> length (cbor (canon v)) \<le> unat m
     \<and> bs = cbor (canon v)"
  using encode_with_limit_Ok_iff [of v m bs] by (simp add: MAX_TOTAL_ITEMS_def)

text \<open>C4. The decoder accepts exactly the canonical encodings: an input decodes to a value iff the value
  is in the profile, has UTF-8 texts and strictly sorted map keys, and the input is its reference
  encoding, within the limits. There is no other spelling of a value.\<close>
theorem cbor_decode_exact:
  "decode_deterministic_cbor_with_limit bs m = Inr v \<longleftrightarrow>
     profile 0 v \<and> utf8_texts v \<and> sorted_maps v \<and> nitems v \<le> 65536 \<and> length bs \<le> unat m \<and> bs = cbor v"
  using decode_with_limit_Ok_iff [of bs m v] by (auto simp: accepted_def MAX_TOTAL_ITEMS_def)

text \<open>Decoding what the encoder wrote gives back the value with its maps sorted.\<close>
theorem cbor_decode_encode:
  "encode_deterministic_cbor_with_limit v m = Inr bs \<Longrightarrow> utf8_texts v \<Longrightarrow>
    decode_deterministic_cbor_with_limit bs m = Inr (canon v)"
  by (rule decode_encode_value)

lemma cbor_decode_encode_witness:
  "decode_deterministic_cbor_with_limit [0xa2, 0x01, 0x61, 0x61, 0x20, 0x81, 0xf6] 64
     = Inr (canon (Map [(Negative (- 1), Array [Null]), (Unsigned 1, Text [0x61])]))"
  by (rule cbor_decode_encode) (simp_all add: cbor_eval)

text \<open>Re-encoding a decoded value reproduces the input byte for byte, so a signature or a hash over
  accepted bytes is a signature over the value.\<close>
theorem cbor_encode_decode:
  "decode_deterministic_cbor_with_limit bs m = Inr v \<Longrightarrow> encode_deterministic_cbor_with_limit v m = Inr bs"
  by (rule encode_decode_value)

lemma cbor_encode_decode_witness:
  "encode_deterministic_cbor_with_limit (Map [(Unsigned 1, Text [0x61]), (Negative (- 1), Array [Null])]) 64
     = Inr [0xa2, 0x01, 0x61, 0x61, 0x20, 0x81, 0xf6]"
  by (rule cbor_encode_decode) (simp add: cbor_eval)

text \<open>The order in which a caller lists the entries of a map does not matter: every permutation of
  the entries is encoded to the same bytes, or refused.\<close>
theorem cbor_map_order_irrelevant:
  "mset es = mset fs \<Longrightarrow>
    (encode_deterministic_cbor_with_limit (Map es) m = Inr bs \<longleftrightarrow>
     encode_deterministic_cbor_with_limit (Map fs) m = Inr bs)"
  by (rule encode_map_perm)

lemma cbor_map_order_irrelevant_witness:
  "encode_deterministic_cbor_with_limit (Map [(Unsigned 2, Null), (Unsigned 1, Bool True)]) 64
     = Inr [0xa2, 0x01, 0xf5, 0x02, 0xf6]"
proof -
  have "mset [(Unsigned 2, Null), (Unsigned 1, Bool True)] = mset [(Unsigned 1, Bool True), (Unsigned 2, Null)]"
    by simp
  moreover have "encode_deterministic_cbor_with_limit (Map [(Unsigned 1, Bool True), (Unsigned 2, Null)]) 64
     = Inr [0xa2, 0x01, 0xf5, 0x02, 0xf6]" by (simp add: cbor_eval)
  ultimately show ?thesis using cbor_map_order_irrelevant by blast
qed

text \<open>C5. Neither direction can panic: the \<open>unreachable!\<close>, \<open>expect\<close> and slice-index sites of the encoder
  and the parser are never reached, whatever the value, the input or the limit.\<close>
theorem cbor_no_panic:
  "decode_deterministic_cbor_with_limit bs m \<noteq> Inl Panic
   \<and> encode_deterministic_cbor_with_limit v m \<noteq> Inl Panic"
  using decode_no_panic [of bs m] encode_with_limit_no_panic [of v m] by (simp add: no_panic_def)

end
