(* ===== verification/Wire.thy ===== *)
theory Wire
  imports Public_Id Cbor_Decode
begin

text \<open>
  The typed primitives of \<open>dtx-wire\<close> (\<open>primitives.rs\<close>, \<open>version.rs\<close>, \<open>canonical_decode.rs\<close>,
  \<open>hashing.rs\<close>): bounded integers, timestamps and texts, tagged digests, keys and signatures, the
  protocol version and the reader check, and the typed decoding of canonical values.
\<close>

section \<open>Bounded integers and timestamps\<close>

definition MAX_SAFE_UINT :: u64 where "MAX_SAFE_UINT = push_bit 53 1 - 1"

datatype SafeUint = SafeUint (su_get: u64)

datatype SafeUintError = SafeUintError u64

definition SafeUint_new :: "u64 \<Rightarrow> SafeUintError + SafeUint" where
  "SafeUint_new value =
     (if value > MAX_SAFE_UINT then Inl (SafeUintError value) else Inr (SafeUint value))"

definition SafeUint_to_value :: "SafeUint \<Rightarrow> CanonicalValue" where
  "SafeUint_to_value self = Unsigned (su_get self)"

definition MIN_UTC_MILLIS :: int where "MIN_UTC_MILLIS = - 62135596800000"
definition MAX_UTC_MILLIS :: int where "MAX_UTC_MILLIS = 253402300799999"

text \<open>A timestamp holds the 64-bit pattern of an \<open>i64\<close>.\<close>

datatype UtcMillis = UtcMillis (um_get: "64 word")

datatype UtcMillisError = UtcMillisError "64 word"

definition UtcMillis_new :: "64 word \<Rightarrow> UtcMillisError + UtcMillis" where
  "UtcMillis_new value =
     (if sint value < MIN_UTC_MILLIS \<or> sint value > MAX_UTC_MILLIS then Inl (UtcMillisError value)
      else Inr (UtcMillis value))"

definition UtcMillis_to_value :: "UtcMillis \<Rightarrow> CanonicalValue" where
  "UtcMillis_to_value self =
     (if sint (um_get self) \<ge> 0 then Unsigned (um_get self) else Negative (um_get self))"

section \<open>Bounded texts\<close>

datatype TextPrimitiveError = InvalidBoundedString | InvalidStableCode

text \<open>\<open>str::chars\<close> on valid UTF-8: the leading byte gives the length of each scalar.\<close>

definition cont_bits :: "byte \<Rightarrow> nat" where
  "cont_bits b = unat b mod 64"

fun utf8_chars :: "byte list \<Rightarrow> nat list" where
  "utf8_chars [] = []"
| "utf8_chars (a # bs) =
     (if a < 0x80 then unat a # utf8_chars bs
      else if a < 0xe0 then
        (case bs of b # rest \<Rightarrow> (unat a mod 32 * 64 + cont_bits b) # utf8_chars rest | _ \<Rightarrow> [])
      else if a < 0xf0 then
        (case bs of b # c # rest \<Rightarrow>
           (unat a mod 16 * 4096 + cont_bits b * 64 + cont_bits c) # utf8_chars rest | _ \<Rightarrow> [])
      else
        (case bs of b # c # d # rest \<Rightarrow>
           (unat a mod 8 * 262144 + cont_bits b * 4096 + cont_bits c * 64 + cont_bits d) # utf8_chars rest
         | _ \<Rightarrow> []))"

text \<open>\<open>char::is_control\<close>: the category Cc, that is C0, DEL and C1.\<close>

definition is_control :: "nat \<Rightarrow> bool" where
  "is_control c = (c < 0x20 \<or> (0x7f \<le> c \<and> c < 0xa0))"

definition MAX_BOUNDED_STRING_BYTES :: nat where "MAX_BOUNDED_STRING_BYTES = 1024"
definition MAX_STABLE_CODE_BYTES :: nat where "MAX_STABLE_CODE_BYTES = 128"

datatype BoundedString = BoundedString (bounded_str: "byte list")

definition BoundedString_new :: "byte list \<Rightarrow> TextPrimitiveError + BoundedString" where
  "BoundedString_new value =
     (if value = [] \<or> length value > MAX_BOUNDED_STRING_BYTES \<or> list_ex is_control (utf8_chars value)
      then Inl InvalidBoundedString else Inr (BoundedString value))"

definition is_ascii_lowercase :: "byte \<Rightarrow> bool" where
  "is_ascii_lowercase b = (0x61 \<le> b \<and> b \<le> 0x7a)"

definition is_ascii_digit :: "byte \<Rightarrow> bool" where
  "is_ascii_digit b = (0x30 \<le> b \<and> b \<le> 0x39)"

fun contains_pair :: "byte \<Rightarrow> byte list \<Rightarrow> bool" where
  "contains_pair c (x # y # zs) = ((x = c \<and> y = c) \<or> contains_pair c (y # zs))"
| "contains_pair c _ = False"

definition is_lower_snake_segment :: "byte list \<Rightarrow> bool" where
  "is_lower_snake_segment value =
     (value \<noteq> [] \<and> is_ascii_lowercase (hd value)
      \<and> list_all (\<lambda>b. is_ascii_lowercase b \<or> is_ascii_digit b \<or> b = 0x5f) value
      \<and> last value \<noteq> 0x5f \<and> \<not> contains_pair 0x5f value)"

text \<open>\<open>str::split\<close> on one ASCII character: one more piece than there are separators.\<close>

fun split_on :: "byte \<Rightarrow> byte list \<Rightarrow> byte list list" where
  "split_on c [] = [[]]"
| "split_on c (x # xs) =
     (if x = c then [] # split_on c xs
      else case split_on c xs of [] \<Rightarrow> [[x]] | p # ps \<Rightarrow> (x # p) # ps)"

datatype StableCode = StableCode (code_str: "byte list")

definition StableCode_parse :: "byte list \<Rightarrow> TextPrimitiveError + StableCode" where
  "StableCode_parse value =
     (if value = [] \<or> length value > MAX_STABLE_CODE_BYTES
         \<or> \<not> list_all is_lower_snake_segment (split_on 0x2e value)
      then Inl InvalidStableCode else Inr (StableCode value))"

section \<open>Digests, keys and signatures\<close>

datatype Sha256Digest = Sha256Digest (sha_word: "256 word")

definition sha_as_bytes :: "Sha256Digest \<Rightarrow> byte list" where
  "sha_as_bytes self = be_bytes 32 (unat (sha_word self))"

definition sha_from_bytes :: "byte list \<Rightarrow> Sha256Digest" where
  "sha_from_bytes bytes = Sha256Digest (of_nat (be_val bytes))"

text \<open>\<open>sha256\<close> is the hash of the \<open>sha2\<close> crate.\<close>

definition hash_domain :: "(byte list \<Rightarrow> 256 word) \<Rightarrow> byte list \<Rightarrow> byte list \<Rightarrow> Sha256Digest" where
  "hash_domain sha256 domain message = Sha256Digest (sha256 (domain @ message))"

datatype EncodedPrimitiveError =
    WrongAlgorithm
  | EncodedInvalidLength nat nat
  | EncodedInvalidEncoding
  | InvalidPublicKey

definition SHA256_PREFIX :: "byte list" where "SHA256_PREFIX = ascii ''sha256:''"
definition ED25519_PREFIX :: "byte list" where "ED25519_PREFIX = ascii ''ed25519:''"

text \<open>\<open>{byte:02x}\<close> and \<open>u8::from_str_radix(.., 16)\<close> on two lower-case digits.\<close>

definition hex_digit :: "nat \<Rightarrow> byte" where
  "hex_digit n = (if n < 10 then of_nat (48 + n) else of_nat (87 + n))"

definition hex_byte :: "byte \<Rightarrow> byte list" where
  "hex_byte b = [hex_digit (unat b div 16), hex_digit (unat b mod 16)]"

definition is_hex_digit :: "byte \<Rightarrow> bool" where
  "is_hex_digit b = (is_ascii_digit b \<or> (0x61 \<le> b \<and> b \<le> 0x66))"

definition hex_val :: "byte \<Rightarrow> nat" where
  "hex_val b = (if is_ascii_digit b then unat b - 48 else unat b - 87)"

fun hex_pairs :: "byte list \<Rightarrow> byte list" where
  "hex_pairs (h # l # rest) = of_nat (hex_val h * 16 + hex_val l) # hex_pairs rest"
| "hex_pairs _ = []"

definition sha_to_string :: "Sha256Digest \<Rightarrow> byte list" where
  "sha_to_string self = SHA256_PREFIX @ concat (map hex_byte (sha_as_bytes self))"

definition sha_from_str :: "byte list \<Rightarrow> EncodedPrimitiveError + Sha256Digest" where
  "sha_from_str value =
     res_bind (ok_or WrongAlgorithm (strip_prefix SHA256_PREFIX value)) (\<lambda>encoded.
       if length encoded \<noteq> 64 then Inl (EncodedInvalidLength 64 (length encoded))
       else if \<not> list_all is_hex_digit encoded then Inl EncodedInvalidEncoding
       else Inr (sha_from_bytes (hex_pairs encoded)))"

definition sha_to_value :: "Sha256Digest \<Rightarrow> CanonicalValue" where
  "sha_to_value self = Bytes (sha_as_bytes self)"

text \<open>Base64 comes from the \<open>base64ct\<close> crate: its unpadded URL-safe codec is two arguments.\<close>

definition decode_ed25519 ::
  "(byte list \<Rightarrow> byte list option) \<Rightarrow> byte list \<Rightarrow> nat \<Rightarrow> EncodedPrimitiveError + byte list" where
  "decode_ed25519 b64_decode value expected =
     res_bind (ok_or WrongAlgorithm (strip_prefix ED25519_PREFIX value)) (\<lambda>encoded.
       if list_ex (\<lambda>b. b = 0x3d) encoded then Inl EncodedInvalidEncoding
       else res_bind (ok_or EncodedInvalidEncoding (b64_decode encoded)) (\<lambda>bytes.
         if length bytes \<noteq> expected then Inl (EncodedInvalidLength expected (length bytes))
         else Inr bytes))"

datatype SigningPublicKey = SigningPublicKey (domain_key: Ed25519PublicKey)

definition signing_key_try_from ::
  "(byte list \<Rightarrow> 'point option) \<Rightarrow> ('point \<Rightarrow> byte list) \<Rightarrow> ('point \<Rightarrow> bool)
    \<Rightarrow> byte list \<Rightarrow> EncodedPrimitiveError + SigningPublicKey" where
  "signing_key_try_from from_bytes compress is_weak value =
     map_err (\<lambda>_. InvalidPublicKey)
       (map_ok SigningPublicKey (key_try_from_array from_bytes compress is_weak value))"

definition signing_key_to_string :: "(byte list \<Rightarrow> byte list) \<Rightarrow> SigningPublicKey \<Rightarrow> byte list" where
  "signing_key_to_string b64_encode self = ED25519_PREFIX @ b64_encode (key_bytes (domain_key self))"

definition signing_key_from_str ::
  "(byte list \<Rightarrow> byte list option) \<Rightarrow> (byte list \<Rightarrow> 'point option) \<Rightarrow> ('point \<Rightarrow> byte list)
    \<Rightarrow> ('point \<Rightarrow> bool) \<Rightarrow> byte list \<Rightarrow> EncodedPrimitiveError + SigningPublicKey" where
  "signing_key_from_str b64_decode from_bytes compress is_weak value =
     res_bind (decode_ed25519 b64_decode value 32) (\<lambda>bytes.
       if length bytes \<noteq> 32 then Inl (EncodedInvalidLength 32 0)
       else signing_key_try_from from_bytes compress is_weak bytes)"

datatype Ed25519Signature = Ed25519Signature (signature_bytes: "byte list")

definition signature_to_string :: "(byte list \<Rightarrow> byte list) \<Rightarrow> Ed25519Signature \<Rightarrow> byte list" where
  "signature_to_string b64_encode self = ED25519_PREFIX @ b64_encode (signature_bytes self)"

definition signature_from_str ::
  "(byte list \<Rightarrow> byte list option) \<Rightarrow> byte list \<Rightarrow> EncodedPrimitiveError + Ed25519Signature" where
  "signature_from_str b64_decode value =
     res_bind (decode_ed25519 b64_decode value 64) (\<lambda>bytes.
       if length bytes \<noteq> 64 then Inl (EncodedInvalidLength 64 0) else Inr (Ed25519Signature bytes))"

section \<open>Protocol versions\<close>

record ProtocolVersion =
  pv_major :: u16
  pv_minor :: u16

text \<open>The derived order is lexicographic.\<close>

definition pv_less :: "ProtocolVersion \<Rightarrow> ProtocolVersion \<Rightarrow> bool" where
  "pv_less a b = (pv_major a < pv_major b \<or> (pv_major a = pv_major b \<and> pv_minor a < pv_minor b))"

text \<open>\<open>Display\<close> of an unsigned integer, and \<open>str::parse\<close> on a digit string.\<close>

fun decimal :: "nat \<Rightarrow> byte list" where
  "decimal n = (if n < 10 then [of_nat (48 + n)] else decimal (n div 10) @ [of_nat (48 + n mod 10)])"

declare decimal.simps [simp del]

definition decimal_val :: "byte list \<Rightarrow> nat" where
  "decimal_val ds = foldl (\<lambda>a b. a * 10 + (unat b - 48)) 0 ds"

definition parse_u16 :: "byte list \<Rightarrow> u16 option" where
  "parse_u16 ds = (if decimal_val ds < 2 ^ 16 then Some (of_nat (decimal_val ds)) else None)"

datatype ProtocolVersionParseError = ProtocolVersionParseError

definition version_to_string :: "ProtocolVersion \<Rightarrow> byte list" where
  "version_to_string self = decimal (unat (pv_major self)) @ 0x2e # decimal (unat (pv_minor self))"

definition split_once :: "byte \<Rightarrow> byte list \<Rightarrow> (byte list \<times> byte list) option" where
  "split_once c value =
     (if c \<in> set value
      then Some (takeWhile (\<lambda>x. x \<noteq> c) value, drop 1 (dropWhile (\<lambda>x. x \<noteq> c) value)) else None)"

definition version_from_str :: "byte list \<Rightarrow> ProtocolVersionParseError + ProtocolVersion" where
  "version_from_str value =
     res_bind (ok_or ProtocolVersionParseError (split_once 0x2e value)) (\<lambda>(major, minor).
       if major = [] \<or> minor = [] \<or> list_ex (\<lambda>b. b = 0x2e) minor
          \<or> (length major > 1 \<and> hd major = 0x30) \<or> (length minor > 1 \<and> hd minor = 0x30)
          \<or> \<not> list_all is_ascii_digit major \<or> \<not> list_all is_ascii_digit minor
       then Inl ProtocolVersionParseError
       else res_bind (ok_or ProtocolVersionParseError (parse_u16 major)) (\<lambda>major.
         res_bind (ok_or ProtocolVersionParseError (parse_u16 minor)) (\<lambda>minor.
           Inr \<lparr>pv_major = major, pv_minor = minor\<rparr>)))"

definition version_to_value :: "ProtocolVersion \<Rightarrow> CanonicalValue" where
  "version_to_value self =
     Map [(Unsigned 1, Unsigned (ucast (pv_major self))), (Unsigned 2, Unsigned (ucast (pv_minor self)))]"

record WireVersion =
  wv_protocol :: ProtocolVersion
  wv_minimum_reader :: ProtocolVersion

definition wire_version_to_value :: "WireVersion \<Rightarrow> CanonicalValue" where
  "wire_version_to_value self =
     Map [(Unsigned 1, version_to_value (wv_protocol self)),
          (Unsigned 2, version_to_value (wv_minimum_reader self))]"

datatype VersionError =
    InvalidVersionRange ProtocolVersion ProtocolVersion
  | UnsupportedMajor u16 u16
  | ReaderTooOld ProtocolVersion ProtocolVersion

definition ensure_readable :: "ProtocolVersion \<Rightarrow> WireVersion \<Rightarrow> VersionError + unit" where
  "ensure_readable reader wire =
     (if pv_major (wv_protocol wire) \<noteq> pv_major (wv_minimum_reader wire)
         \<or> pv_less (wv_protocol wire) (wv_minimum_reader wire)
      then Inl (InvalidVersionRange (wv_protocol wire) (wv_minimum_reader wire))
      else if pv_major reader \<noteq> pv_major (wv_protocol wire)
      then Inl (UnsupportedMajor (pv_major reader) (pv_major (wv_protocol wire)))
      else if pv_less reader (wv_minimum_reader wire)
      then Inl (ReaderTooOld reader (wv_minimum_reader wire))
      else Inr ())"

section \<open>Typed decoding\<close>

datatype CanonicalDecodeError =
    InvalidMapFields
  | TypeMismatch
  | InvalidPrimitive
  | DecodeIntegerOutOfRange
  | ListTooLong
  | RoundTripMismatch

definition MAX_LIST_ENTRIES :: nat where "MAX_LIST_ENTRIES = 4096"

definition decode_struct_map ::
  "CanonicalValue \<Rightarrow> nat \<Rightarrow> CanonicalDecodeError + (CanonicalValue \<times> CanonicalValue) list" where
  "decode_struct_map v field_count =
     (case v of
        Map entries \<Rightarrow>
          if length entries \<noteq> field_count
             \<or> list_ex (\<lambda>(index, key, _).
                  index + 1 \<ge> 2 ^ 64 \<or> key \<noteq> Unsigned (of_nat (index + 1)))
                (zip [0..<length entries] entries)
          then Inl InvalidMapFields else Inr entries
      | _ \<Rightarrow> Inl InvalidMapFields)"

definition decode_struct_field ::
  "(CanonicalValue \<Rightarrow> CanonicalDecodeError + 'a) \<Rightarrow> (CanonicalValue \<times> CanonicalValue) list \<Rightarrow> u64
    \<Rightarrow> CanonicalDecodeError + 'a" where
  "decode_struct_field decode_canonical entries key =
     res_bind (ok_or InvalidMapFields (checked_sub key 1)) (\<lambda>index.
     res_bind (ok_or InvalidMapFields
         (if unat index < length entries then Some (entries ! unat index) else None)) (\<lambda>(actual_key, v).
       if actual_key \<noteq> Unsigned key then Inl InvalidMapFields else decode_canonical v))"

definition decode_text ::
  "(byte list \<Rightarrow> 'e + 'a) \<Rightarrow> CanonicalValue \<Rightarrow> CanonicalDecodeError + 'a" where
  "decode_text parse v =
     (case v of Text bs \<Rightarrow> map_err (\<lambda>_. InvalidPrimitive) (parse bs) | _ \<Rightarrow> Inl TypeMismatch)"

definition decode_SafeUint :: "CanonicalValue \<Rightarrow> CanonicalDecodeError + SafeUint" where
  "decode_SafeUint v =
     (case v of Unsigned n \<Rightarrow> map_err (\<lambda>_. DecodeIntegerOutOfRange) (SafeUint_new n) | _ \<Rightarrow> Inl TypeMismatch)"

definition decode_u32 :: "CanonicalValue \<Rightarrow> CanonicalDecodeError + u32" where
  "decode_u32 v =
     (case v of
        Unsigned n \<Rightarrow> if unat n < 2 ^ 32 then Inr (ucast n) else Inl DecodeIntegerOutOfRange
      | _ \<Rightarrow> Inl TypeMismatch)"

definition decode_bool :: "CanonicalValue \<Rightarrow> CanonicalDecodeError + bool" where
  "decode_bool v = (case v of Bool b \<Rightarrow> Inr b | _ \<Rightarrow> Inl TypeMismatch)"

definition decode_Sha256Digest :: "CanonicalValue \<Rightarrow> CanonicalDecodeError + Sha256Digest" where
  "decode_Sha256Digest v =
     (case v of
        Bytes bs \<Rightarrow> if length bs = 32 then Inr (sha_from_bytes bs) else Inl InvalidPrimitive
      | _ \<Rightarrow> Inl TypeMismatch)"

definition decode_UtcMillis :: "CanonicalValue \<Rightarrow> CanonicalDecodeError + UtcMillis" where
  "decode_UtcMillis v =
     res_bind (case v of
         Unsigned n \<Rightarrow> if unat n < 2 ^ 63 then Inr n else Inl DecodeIntegerOutOfRange
       | Negative i \<Rightarrow> Inr i
       | _ \<Rightarrow> Inl TypeMismatch)
       (\<lambda>value. map_err (\<lambda>_. InvalidPrimitive) (UtcMillis_new value))"

definition decode_Option ::
  "(CanonicalValue \<Rightarrow> CanonicalDecodeError + 'a) \<Rightarrow> CanonicalValue \<Rightarrow> CanonicalDecodeError + 'a option" where
  "decode_Option decode_canonical v = (if v = Null then Inr None else map_ok Some (decode_canonical v))"

text \<open>\<open>collect\<close> into a \<open>Result\<close> stops at the first error.\<close>

fun collect_res :: "('x \<Rightarrow> 'e + 'y) \<Rightarrow> 'x list \<Rightarrow> 'e + 'y list" where
  "collect_res f [] = Inr []"
| "collect_res f (x # xs) = res_bind (f x) (\<lambda>y. map_ok (\<lambda>ys. y # ys) (collect_res f xs))"

definition decode_Vec ::
  "(CanonicalValue \<Rightarrow> CanonicalDecodeError + 'a) \<Rightarrow> CanonicalValue \<Rightarrow> CanonicalDecodeError + 'a list" where
  "decode_Vec decode_canonical v =
     (case v of
        Array vs \<Rightarrow> if length vs > MAX_LIST_ENTRIES then Inl ListTooLong else collect_res decode_canonical vs
      | _ \<Rightarrow> Inl TypeMismatch)"

definition PLAN_HASH_DOMAIN :: "byte list" where
  "PLAN_HASH_DOMAIN = ascii ''dirextalk.job-plan.v1'' @ [0]"

definition plan_hash :: "(byte list \<Rightarrow> 256 word) \<Rightarrow> CanonicalValue \<Rightarrow> Sha256Digest cbor_result" where
  "plan_hash sha256 body =
     res_bind (encode_deterministic_cbor body) (\<lambda>encoded. Inr (hash_domain sha256 PLAN_HASH_DOMAIN encoded))"

end
