(* ===== verification/Wire_Codec.thy ===== *)
theory Wire_Codec
  imports Wire
begin

text \<open>
  Correctness of the wire primitives: hexadecimal digests and protocol versions are canonical
  codecs, the typed decoders satisfy one field contract, and the reader check is what its
  documentation says.
\<close>

section \<open>Hexadecimal digests\<close>

lemma digit_range: "is_ascii_digit b \<longleftrightarrow> 48 \<le> unat b \<and> unat b \<le> 57"
  by (simp add: is_ascii_digit_def word_le_nat_alt)

lemma hex_range: "is_hex_digit b \<longleftrightarrow> (48 \<le> unat b \<and> unat b \<le> 57) \<or> (97 \<le> unat b \<and> unat b \<le> 102)"
  by (simp add: is_hex_digit_def digit_range word_le_nat_alt)

lemma unat_byte_of_nat: "n < 256 \<Longrightarrow> unat (of_nat n :: byte) = n"
  by (simp add: unat_of_nat)

lemma unat_hex_digit: "n < 16 \<Longrightarrow> unat (hex_digit n) = (if n < 10 then 48 + n else 87 + n)"
  unfolding hex_digit_def by (auto simp: unat_byte_of_nat simp del: of_nat_add)

lemma hex_digit_facts:
  assumes "n < 16"
  shows "is_hex_digit (hex_digit n)" "hex_val (hex_digit n) = n"
  using unat_hex_digit [OF assms] assms by (auto simp: hex_range hex_val_def digit_range)

lemma hex_val_facts:
  assumes "is_hex_digit b"
  shows "hex_val b < 16" "hex_digit (hex_val b) = b"
proof -
  show lt: "hex_val b < 16" using assms by (auto simp: hex_range hex_val_def digit_range)
  have "unat (hex_digit (hex_val b)) = unat b"
    using assms unat_hex_digit [OF lt] by (auto simp: hex_range hex_val_def digit_range)
  then show "hex_digit (hex_val b) = b" by (simp add: word_unat_eq_iff)
qed

lemma hex_byte_roundtrip: "hex_pairs (hex_byte b @ s) = b # hex_pairs s"
proof -
  have "unat b div 16 < 16" using byte_less [of b] by (simp add: less_mult_imp_div_less)
  then have "hex_val (hex_digit (unat b div 16)) * 16 + hex_val (hex_digit (unat b mod 16)) = unat b"
    by (simp add: hex_digit_facts)
  then show ?thesis by (simp add: hex_byte_def del: of_nat_add of_nat_mult)
qed

lemma hex_pairs_concat: "hex_pairs (concat (map hex_byte bs)) = bs"
  by (induction bs) (simp_all add: hex_byte_roundtrip)

lemma hex_concat_digits: "list_all is_hex_digit (concat (map hex_byte bs))"
proof (induction bs)
  case (Cons b bs)
  have "unat b div 16 < 16" using byte_less [of b] by (simp add: less_mult_imp_div_less)
  with Cons show ?case by (simp add: hex_byte_def hex_digit_facts)
qed simp

lemma length_hex_concat: "length (concat (map hex_byte bs)) = 2 * length bs"
  by (induction bs) (auto simp: hex_byte_def)

lemma hex_pair_byte:
  assumes "is_hex_digit h" "is_hex_digit l"
  shows "hex_byte (of_nat (hex_val h * 16 + hex_val l)) = [h, l]"
proof -
  have "hex_val h * 16 + hex_val l < 256" using hex_val_facts(1) [OF assms(1)] hex_val_facts(1) [OF assms(2)] by simp
  then have "unat (of_nat (hex_val h * 16 + hex_val l) :: byte) = hex_val h * 16 + hex_val l"
    by (rule unat_byte_of_nat)
  then show ?thesis unfolding hex_byte_def
    using hex_val_facts [OF assms(1)] hex_val_facts [OF assms(2)] by simp
qed

lemma concat_hex_pairs:
  "list_all is_hex_digit s \<Longrightarrow> even (length s) \<Longrightarrow> concat (map hex_byte (hex_pairs s)) = s
    \<and> length (hex_pairs s) * 2 = length s"
  by (induction s rule: hex_pairs.induct) (auto simp: hex_pair_byte simp del: of_nat_add of_nat_mult)

lemma sha_from_as_bytes: "sha_from_bytes (sha_as_bytes d) = d"
proof -
  have "unat (sha_word d) < 256 ^ 32" using unsigned_less [where w = "sha_word d" and ?'a = nat] by simp
  then show ?thesis by (simp add: sha_from_bytes_def sha_as_bytes_def)
qed

lemma sha_as_from_bytes: "length bs = 32 \<Longrightarrow> sha_as_bytes (sha_from_bytes bs) = bs"
  using be_val_256 [of bs] be_bytes_be_val [of bs 32] by (simp add: sha_from_bytes_def sha_as_bytes_def)

lemma length_sha_as_bytes [simp]: "length (sha_as_bytes d) = 32"
  by (simp add: sha_as_bytes_def)

lemma strip_prefix_append [simp]: "strip_prefix p (p @ s) = Some s"
  by (simp add: strip_prefix_def)

lemma strip_prefix_Some: "strip_prefix p s = Some t \<longleftrightarrow> s = p @ t"
  by (auto simp: strip_prefix_def) (metis append_take_drop_id)

interpretation sha_text: canonical_codec sha_to_string sha_from_str "\<lambda>_. True"
proof
  fix d
  show "sha_from_str (sha_to_string d) = Inr d"
    by (simp add: sha_from_str_def sha_to_string_def length_hex_concat hex_concat_digits hex_pairs_concat
        sha_from_as_bytes)
next
  fix s d assume "sha_from_str s = Inr d"
  then obtain t where t: "s = SHA256_PREFIX @ t" "length t = 64" "list_all is_hex_digit t"
    "d = sha_from_bytes (hex_pairs t)"
    by (auto simp: sha_from_str_def result_simps strip_prefix_Some split: if_splits)
  have c: "concat (map hex_byte (hex_pairs t)) = t" "length (hex_pairs t) = 32"
    using concat_hex_pairs [OF t(3)] t(2) by auto
  show "sha_to_string d = s" using c t by (simp add: sha_to_string_def sha_as_from_bytes)
qed simp

section \<open>Decimal numbers and versions\<close>

lemma decimal_val_snoc [simp]: "decimal_val (ds @ [b]) = decimal_val ds * 10 + (unat b - 48)"
  by (simp add: decimal_val_def)

lemma decimal_val_Nil [simp]: "decimal_val [] = 0"
  by (simp add: decimal_val_def)

lemma unat_dec_digit: "n < 10 \<Longrightarrow> unat (of_nat (48 + n) :: byte) = 48 + n"
  by (simp add: unat_byte_of_nat del: of_nat_add)

definition canonical_digits :: "byte list \<Rightarrow> bool" where
  "canonical_digits ds = (ds \<noteq> [] \<and> list_all is_ascii_digit ds \<and> (length ds > 1 \<longrightarrow> hd ds \<noteq> 0x30))"

lemma decimal_ne [simp]: "decimal n \<noteq> []"
  by (subst decimal.simps) simp

lemma decimal_canonical: "decimal_val (decimal n) = n \<and> list_all is_ascii_digit (decimal n)
    \<and> (0 < n \<longrightarrow> hd (decimal n) \<noteq> 0x30) \<and> (n = 0 \<longrightarrow> length (decimal n) = 1)"
proof (induction n rule: decimal.induct)
  case (1 n)
  show ?case
  proof (cases "n < 10")
    case True
    have "decimal n = [of_nat (48 + n)]" using True by (subst decimal.simps) simp
    then show ?thesis using unat_dec_digit [OF True] decimal_val_snoc [of "[]"] True
      by (auto simp: digit_range word_unat_eq_iff simp del: of_nat_add)
  next
    case False
    have d: "decimal n = decimal (n div 10) @ [of_nat (48 + n mod 10)]"
      using False by (subst decimal.simps) simp
    have m: "unat (of_nat (48 + n mod 10) :: byte) = 48 + n mod 10" by (rule unat_dec_digit) simp
    have "0 < n div 10" using False by (simp add: div_greater_zero_iff)
    then show ?thesis using "1.IH" [OF False] False m unfolding d
      by (simp add: digit_range del: of_nat_add)
  qed
qed

lemma radix10: "d < 10 \<Longrightarrow> (n * 10 + d) div 10 = n \<and> (n * 10 + d) mod 10 = (d :: nat)"
  by simp

lemma decimal_of_val: "canonical_digits ds \<Longrightarrow> decimal (decimal_val ds) = ds"
proof (induction ds rule: rev_induct)
  case Nil
  then show ?case by (simp add: canonical_digits_def)
next
  case (snoc b ds)
  have b: "48 \<le> unat b" "unat b \<le> 57" using snoc.prems by (auto simp: canonical_digits_def digit_range)
  have digit: "of_nat (48 + (unat b - 48)) = b" using b by (simp del: of_nat_add)
  show ?case
  proof (cases "ds = []")
    case True
    have "unat b - 48 < 10" using b by simp
    then show ?thesis using True digit decimal_val_snoc [of "[]" b] by (subst decimal.simps) simp
  next
    case False
    then have c: "canonical_digits ds" and h: "hd ds \<noteq> 0x30"
      using snoc.prems by (auto simp: canonical_digits_def)
    note ih = snoc.IH [OF c]
    have "decimal_val ds \<noteq> 0"
    proof
      assume z: "decimal_val ds = 0"
      have "decimal 0 = [0x30]" by (subst decimal.simps) simp
      with ih z have "ds = [0x30]" by simp
      with h show False by simp
    qed
    then have ge: "\<not> decimal_val ds * 10 + (unat b - 48) < 10" by simp
    have "(decimal_val ds * 10 + (unat b - 48)) div 10 = decimal_val ds"
      "(decimal_val ds * 10 + (unat b - 48)) mod 10 = unat b - 48"
      using radix10 [of "unat b - 48" "decimal_val ds"] b by auto
    then show ?thesis using ge ih digit by (subst decimal.simps) (simp del: of_nat_add)
  qed
qed

lemma parse_u16_Some: "parse_u16 ds = Some w \<longleftrightarrow> unat w = decimal_val ds"
proof -
  have "decimal_val ds < 2 ^ 16 \<Longrightarrow> unat (of_nat (decimal_val ds) :: u16) = decimal_val ds"
    by (simp add: unat_of_nat)
  moreover have "unat w < 2 ^ 16" using unsigned_less [where w = w and ?'a = nat] by simp
  ultimately show ?thesis by (auto simp: parse_u16_def word_unat_eq_iff)
qed

lemma dot_not_digit: "list_all is_ascii_digit ds \<Longrightarrow> 0x2e \<notin> set ds"
  by (auto simp: list_all_iff digit_range)

lemma split_once_Some: "split_once c s = Some (a, b) \<longleftrightarrow> c \<notin> set a \<and> s = a @ c # b"
proof
  assume h: "split_once c s = Some (a, b)"
  then have c: "c \<in> set s" and a: "a = takeWhile (\<lambda>x. x \<noteq> c) s" and b: "b = drop 1 (dropWhile (\<lambda>x. x \<noteq> c) s)"
    by (auto simp: split_once_def split: if_splits)
  from c have "\<exists>r. dropWhile (\<lambda>x. x \<noteq> c) s = c # r"
    by (induction s) auto
  then obtain r where r: "dropWhile (\<lambda>x. x \<noteq> c) s = c # r" by blast
  have "s = a @ c # b" using takeWhile_dropWhile_id [of "\<lambda>x. x \<noteq> c" s] r a b by simp
  moreover have "c \<notin> set a" unfolding a by (auto dest: set_takeWhileD)
  ultimately show "c \<notin> set a \<and> s = a @ c # b" by blast
next
  assume "c \<notin> set a \<and> s = a @ c # b"
  moreover have "c \<notin> set a \<Longrightarrow> takeWhile (\<lambda>x. x \<noteq> c) (a @ c # b) = a \<and> dropWhile (\<lambda>x. x \<noteq> c) (a @ c # b) = c # b"
    by (induction a) auto
  ultimately show "split_once c s = Some (a, b)" by (auto simp: split_once_def)
qed

lemma version_parse_iff:
  "version_from_str s = Inr v \<longleftrightarrow> (\<exists>a b. s = a @ 0x2e # b \<and> canonical_digits a \<and> canonical_digits b
     \<and> unat (pv_major v) = decimal_val a \<and> unat (pv_minor v) = decimal_val b)"
proof -
  have "version_from_str s = Inr v \<longleftrightarrow> (\<exists>a b. split_once 0x2e s = Some (a, b) \<and> 0x2e \<notin> set b
      \<and> canonical_digits a \<and> canonical_digits b
      \<and> parse_u16 a = Some (pv_major v) \<and> parse_u16 b = Some (pv_minor v))"
    by (cases v) (auto simp: version_from_str_def canonical_digits_def result_simps list_ex_iff split: if_splits)
  then show ?thesis unfolding split_once_Some parse_u16_Some
    using dot_not_digit by (auto simp: canonical_digits_def)
qed

lemma canonical_decimal: "canonical_digits (decimal n)"
  using decimal_canonical [of n] by (cases "n = 0") (auto simp: canonical_digits_def)

interpretation version_text: canonical_codec version_to_string version_from_str "\<lambda>_. True"
proof
  fix v
  have "decimal_val (decimal n) = n" for n using decimal_canonical by blast
  then show "version_from_str (version_to_string v) = Inr v"
    unfolding version_parse_iff version_to_string_def
    by (intro exI [of _ "decimal (unat (pv_major v))"] exI [of _ "decimal (unat (pv_minor v))"])
      (simp add: canonical_decimal)
next
  fix s v assume "version_from_str s = Inr v"
  then obtain a b where "s = a @ 0x2e # b" "canonical_digits a" "canonical_digits b"
    "unat (pv_major v) = decimal_val a" "unat (pv_minor v) = decimal_val b"
    unfolding version_parse_iff by blast
  then show "version_to_string v = s" unfolding version_to_string_def by (simp only: decimal_of_val)
qed simp

section \<open>Typed values\<close>

text \<open>
  The contract between a typed field and the canonical value model: writing then reading gives
  the field back, and a readable value in the profile is the one that writing produces.
\<close>

locale field_codec =
  fixes to_value :: "'a \<Rightarrow> CanonicalValue"
    and of_value :: "CanonicalValue \<Rightarrow> CanonicalDecodeError + 'a"
    and wf :: "'a \<Rightarrow> bool"
  assumes of_to_value: "wf a \<Longrightarrow> of_value (to_value a) = Inr a"
    and to_of_value: "of_value v = Inr a \<Longrightarrow> profile d v \<Longrightarrow> to_value a = v"
    and of_value_wf: "of_value v = Inr a \<Longrightarrow> wf a"
begin

lemma field_exact: "profile d v \<Longrightarrow> of_value v = Inr a \<longleftrightarrow> wf a \<and> v = to_value a"
  using of_to_value to_of_value of_value_wf by blast

lemma collect_exact:
  "list_all (profile d) vs \<Longrightarrow> collect_res of_value vs = Inr as \<longleftrightarrow> list_all wf as \<and> vs = map to_value as"
proof (induction vs arbitrary: as)
  case Nil
  then show ?case by auto
next
  case (Cons v vs)
  then have "collect_res of_value (v # vs) = Inr as \<longleftrightarrow>
      (\<exists>a bs. as = a # bs \<and> (wf a \<and> v = to_value a) \<and> list_all wf bs \<and> vs = map to_value bs)"
    using field_exact [of d v] by (auto simp: result_simps)
  then show ?case by (cases as) auto
qed

lemma list_exact:
  "profile d v \<Longrightarrow> decode_Vec of_value v = Inr as \<longleftrightarrow>
     length as \<le> MAX_LIST_ENTRIES \<and> list_all wf as \<and> v = Array (map to_value as)"
  by (cases v) (auto simp: decode_Vec_def collect_exact)

lemma option_exact:
  "(\<And>a. to_value a \<noteq> Null) \<Longrightarrow> profile d v \<Longrightarrow> decode_Option of_value v = Inr x \<longleftrightarrow>
     (case x of None \<Rightarrow> v = Null | Some a \<Rightarrow> wf a \<and> v = to_value a)"
  using field_exact [of d v] by (auto simp: decode_Option_def result_simps split: option.splits) metis

end

lemma i64_sign: "0 \<le> u \<Longrightarrow> u < 2 ^ 64 \<Longrightarrow> 0 \<le> (u + 2 ^ 63) mod 2 ^ 64 - 2 ^ 63 \<longleftrightarrow> u < (2 :: int) ^ 63"
proof (cases "u < 2 ^ 63")
  case True
  assume "0 \<le> u" "u < 2 ^ 64"
  then have "(u + 2 ^ 63) mod 2 ^ 64 = u + 2 ^ 63" using True by (intro mod_pos_pos_trivial) auto
  then show ?thesis using True \<open>0 \<le> u\<close> by simp
next
  case False
  assume u: "0 \<le> u" "u < 2 ^ 64"
  have "(u + 2 ^ 63) mod 2 ^ 64 = (u - 2 ^ 63 + 2 ^ 64) mod 2 ^ 64" by (simp add: add.commute)
  also have "\<dots> = u - 2 ^ 63"
    unfolding mod_add_self2 using u False by (intro mod_pos_pos_trivial) auto
  finally have "(u + 2 ^ 63) mod 2 ^ 64 - 2 ^ 63 < 0" using u by simp
  then show ?thesis using False by linarith
qed

lemma sint_nonneg_iff: "0 \<le> sint w \<longleftrightarrow> unat w < 2 ^ 63" for w :: "64 word"
proof -
  have "sint w = (uint w + 2 ^ 63) mod 2 ^ 64 - 2 ^ 63"
    using int_word_sint [of "uint w", where ?'a = 64] by simp
  moreover have "0 \<le> uint w" "uint w < 2 ^ 64"
    using unsigned_less [where w = w and ?'a = int] by simp_all
  ultimately have "0 \<le> sint w \<longleftrightarrow> uint w < 2 ^ 63" using i64_sign by simp
  also have "uint w < 2 ^ 63 \<longleftrightarrow> int (unat w) < int (2 ^ 63)" by simp
  finally show ?thesis by (simp only: of_nat_less_iff)
qed

definition SafeUint_wf :: "SafeUint \<Rightarrow> bool" where
  "SafeUint_wf s = (su_get s \<le> MAX_SAFE_UINT)"

definition UtcMillis_wf :: "UtcMillis \<Rightarrow> bool" where
  "UtcMillis_wf t = (MIN_UTC_MILLIS \<le> sint (um_get t) \<and> sint (um_get t) \<le> MAX_UTC_MILLIS)"

interpretation safe_uint_field: field_codec SafeUint_to_value decode_SafeUint SafeUint_wf
  by unfold_locales
    (auto simp: SafeUint_to_value_def decode_SafeUint_def SafeUint_new_def SafeUint_wf_def
      split: CanonicalValue.splits if_splits)

interpretation utc_millis_field: field_codec UtcMillis_to_value decode_UtcMillis UtcMillis_wf
  by unfold_locales
    (auto simp: UtcMillis_to_value_def decode_UtcMillis_def UtcMillis_new_def UtcMillis_wf_def
      result_simps sint_nonneg_iff [symmetric] simp del: power_numeral split: CanonicalValue.splits if_splits)

interpretation digest_field: field_codec sha_to_value decode_Sha256Digest "\<lambda>_. True"
  by unfold_locales
    (auto simp: sha_to_value_def decode_Sha256Digest_def sha_from_as_bytes sha_as_from_bytes
      split: CanonicalValue.splits if_splits)

interpretation bool_field: field_codec Bool decode_bool "\<lambda>_. True"
  by unfold_locales (auto simp: decode_bool_def split: CanonicalValue.splits)

lemma u32_value: "unat (ucast (x :: u32) :: u64) = unat x"
  unfolding unat_ucast_mod using unsigned_less [where w = x and ?'a = nat] by simp

interpretation u32_field: field_codec "\<lambda>x. Unsigned (ucast (x :: u32))" decode_u32 "\<lambda>_. True"
proof
  fix x :: u32
  have "unat x < 2 ^ 32" using unsigned_less [where w = x and ?'a = nat] by simp
  then show "decode_u32 (Unsigned (ucast x)) = Inr x"
    by (simp add: decode_u32_def u32_value word_unat_eq_iff unat_ucast_mod)
next
  fix v d and x :: u32
  assume "decode_u32 v = Inr x" "profile d v"
  then obtain n where n: "v = Unsigned n" "unat n < 2 ^ 32" "x = ucast n"
    by (auto simp: decode_u32_def split: CanonicalValue.splits if_splits)
  then have "unat x = unat n" by (simp add: unat_ucast_mod)
  then show "Unsigned (ucast x) = v" using n(1) by (simp add: word_unat_eq_iff u32_value)
qed simp

text \<open>Every text codec gives a field codec, in particular for the public identifiers.\<close>

lemma field_codec_of_text:
  assumes "canonical_codec render parse ok"
  shows "field_codec (\<lambda>a. Text (render a)) (decode_text parse) ok"
proof -
  note iff = canonical_codec.parse_Ok_iff [OF assms]
  show ?thesis by unfold_locales (auto simp: decode_text_def map_err_Ok_iff iff split: CanonicalValue.splits)
qed

interpretation subject_field: field_codec "\<lambda>i. Text (subject_to_string i)" "decode_text subject_from_str" "\<lambda>_. True"
  by (rule field_codec_of_text) (rule subject_text.canonical_codec_axioms)

lemma list_ex_enumerate:
  "list_ex (\<lambda>(i, k, v). Q i k) (zip [0..<length es] es) \<longleftrightarrow> (\<exists>i<length es. Q i (fst (es ! i)))"
  by (auto simp: list_ex_length case_prod_unfold)

lemma all_below: "(\<forall>i<n. \<not> b \<le> i + 1) \<longleftrightarrow> n < b" if "0 < b" for b :: nat
proof (cases n)
  case (Suc k)
  then show ?thesis by (auto simp: not_le less_Suc_eq)
qed (use that in simp)

lemma guard_Ok_iff: "(if b then Inl e else Inr x) = Inr y \<longleftrightarrow> \<not> b \<and> x = y"
  by simp

lemma decode_struct_map_iff:
  "decode_struct_map v n = Inr es \<longleftrightarrow> v = Map es \<and> length es = n \<and> n < 2 ^ 64
     \<and> map fst es = map (\<lambda>i. Unsigned (of_nat (i + 1))) [0..<n]"
proof (cases v)
  case (Map fs)
  have keys: "map fst fs = map (\<lambda>i. Unsigned (of_nat (i + 1))) [0..<length fs] \<longleftrightarrow>
      (\<forall>i<length fs. fst (fs ! i) = Unsigned (of_nat (i + 1)))"
    by (subst list_eq_iff_nth_eq) (simp cong: conj_cong)
  have bound: "(\<forall>i<length fs. \<not> 2 ^ 64 \<le> i + 1) \<longleftrightarrow> length fs < 2 ^ 64" by (rule all_below) simp
  let ?bad = "length fs \<noteq> n \<or> (\<exists>i<length fs. 2 ^ 64 \<le> i + 1 \<or> fst (fs ! i) \<noteq> Unsigned (of_nat (i + 1)))"
  have "decode_struct_map v n = Inr es \<longleftrightarrow> \<not> ?bad \<and> fs = es"
    unfolding decode_struct_map_def Map CanonicalValue.case list_ex_enumerate by (rule guard_Ok_iff)
  then show ?thesis unfolding Map using bound keys by blast
qed (simp_all add: decode_struct_map_def)

section \<open>Properties\<close>

text \<open>Digests and protocol versions have one spelling each: a text parses exactly when it is the
  printed form of the result.\<close>
theorem wire_texts_canonical:
  "(sha_from_str s = Inr d \<longleftrightarrow> s = sha_to_string d) \<and> (version_from_str s = Inr v \<longleftrightarrow> s = version_to_string v)"
  by (simp add: sha_text.parse_Ok_iff version_text.parse_Ok_iff)

text \<open>C6. On values the CBOR decoder can produce, the typed decoders of timestamps, optional digests,
  bounded integers and lists of subject identifiers accept exactly the canonical value of a
  well-formed field: nothing is coerced, and decoding then encoding is the identity.\<close>
theorem typed_decode_exact:
  assumes "decode_deterministic_cbor_with_limit bs m = Inr v"
  shows "(decode_UtcMillis v = Inr t \<longleftrightarrow> UtcMillis_wf t \<and> v = UtcMillis_to_value t)
    \<and> (decode_SafeUint v = Inr n \<longleftrightarrow> SafeUint_wf n \<and> v = SafeUint_to_value n)
    \<and> (decode_Option decode_Sha256Digest v = Inr x \<longleftrightarrow>
       (case x of None \<Rightarrow> v = Null | Some d \<Rightarrow> v = sha_to_value d))
    \<and> (decode_Vec (decode_text subject_from_str) v = Inr ids \<longleftrightarrow>
       length ids \<le> MAX_LIST_ENTRIES \<and> v = Array (map (\<lambda>i. Text (subject_to_string i)) ids))"
proof -
  have p: "profile 0 v" using assms by (simp add: decode_with_limit_Ok_iff accepted_def)
  have "decode_Option decode_Sha256Digest v = Inr x \<longleftrightarrow>
       (case x of None \<Rightarrow> v = Null | Some d \<Rightarrow> v = sha_to_value d)"
    using digest_field.option_exact [OF _ p, of x] by (cases x) (simp_all add: sha_to_value_def)
  moreover have "list_all (\<lambda>_. True) ids" by (simp add: list_all_iff)
  ultimately show ?thesis
    using utc_millis_field.field_exact [OF p] safe_uint_field.field_exact [OF p] subject_field.list_exact [OF p]
    by blast
qed

lemma typed_decode_exact_witness:
  "decode_UtcMillis (Negative (- 1)) = Inr (UtcMillis (- 1)) \<longleftrightarrow>
     UtcMillis_wf (UtcMillis (- 1)) \<and> Negative (- 1) = UtcMillis_to_value (UtcMillis (- 1))"
proof -
  have "decode_deterministic_cbor_with_limit [0x20] 64 = Inr (Negative (- 1))"
    unfolding decode_with_limit_Ok_iff
    by (simp add: accepted_def cbor_head_def MAX_DEPTH_def MAX_TOTAL_ITEMS_def)
  from typed_decode_exact [OF this] show ?thesis by blast
qed

end
