(* ===== verification/Group_Policy.thy ===== *)
theory Group_Policy
  imports Domain_Ids
begin

text \<open>
  The crate \<open>dtx-group-policy\<close>: the role and invitation aggregate of a group. The state is the
  record \<open>GroupPolicy\<close>; a \<open>&mut self\<close> method is a function from the state to its result paired
  with the state it leaves, so what a failing method has already written is visible.
  Timestamps are \<open>i64\<close> values that the code only compares; they are integers here.
\<close>

section \<open>Data\<close>

definition MAX_ADMINS :: nat where "MAX_ADMINS = 5"

datatype GroupScope = PrivateConversation ConversationId | ControlledPublicChannel ChannelId

datatype GroupRole = RoleOwner | RoleAdmin | RoleMember

datatype InviteIssuerAuthority = AuthorityOwner | AuthorityAdmin (authorization_generation: Revision)

record InviteCapability =
  ic_invite_id :: InviteCapabilityId
  ic_scope :: GroupScope
  ic_issuer_id :: IdentityId
  ic_target_id :: "IdentityId option"
  ic_max_uses :: u32
  ic_use_count :: u32
  ic_reserved_use_count :: u32
  ic_expires_at_ms :: int
  ic_revoked :: bool
  ic_policy_revision :: Revision
  ic_issuer_authority :: InviteIssuerAuthority

record PendingJoinRequest =
  pj_request_id :: JoinRequestId
  pj_candidate_id :: IdentityId
  pj_invite_id :: InviteCapabilityId
  pj_requested_at_ms :: int

record ReservedJoin =
  rj_request_id :: JoinRequestId
  rj_candidate_id :: IdentityId
  rj_invite_id :: InviteCapabilityId
  rj_reserved_by :: IdentityId
  rj_reserved_authority :: InviteIssuerAuthority
  rj_reserved_at_ms :: int
  rj_policy_revision :: Revision

record ApprovedJoin =
  aj_request_id :: JoinRequestId
  aj_candidate_id :: IdentityId
  aj_invite_id :: InviteCapabilityId
  aj_approved_by :: IdentityId
  aj_approved_at_ms :: int
  aj_policy_revision :: Revision

record GroupPolicy =
  gp_scope :: GroupScope
  gp_owner_id :: IdentityId
  gp_administrators :: "IdentityId fset"
  gp_generations :: "(IdentityId, Revision) fmap"
  gp_members :: "IdentityId fset"
  gp_invitations :: "(InviteCapabilityId, InviteCapability) fmap"
  gp_pending_joins :: "(JoinRequestId, PendingJoinRequest) fmap"
  gp_reserved_joins :: "(JoinRequestId, ReservedJoin) fmap"
  gp_approved_joins :: "(JoinRequestId, ApprovedJoin) fmap"
  gp_revision :: Revision

datatype GroupPolicyError =
    RevisionConflict (conflict_current: Revision)
  | Unauthorized | OwnerCannotBeAdmin | OwnerCannotBeRemoved | AlreadyAdmin | NotAdmin
  | AdminLimitReached | CounterExhausted | InviteAlreadyExists | InvalidInviteUseLimit
  | InvalidInviteExpiry | InviteNotFound | InviteAlreadyRevoked | AlreadyMember | MemberNotFound
  | JoinRequestAlreadyPending | CandidateJoinInFlight | PendingJoinNotFound | AlreadyApproved
  | JoinAlreadyReserved | ReservedJoinNotFound | ReservationInvariantViolation
  | InviteTargetMismatch | InviteExpired | InviteRevoked | InviteUseLimitReached
  | InviteIssuerNoLongerAuthorized

type_synonym 'r policy_op = "GroupPolicy \<Rightarrow> (GroupPolicyError + 'r) \<times> GroupPolicy"

definition issuer_admin_authorization_generation :: "InviteCapability \<Rightarrow> Revision option" where
  "issuer_admin_authorization_generation self =
     (case ic_issuer_authority self of AuthorityOwner \<Rightarrow> None | AuthorityAdmin g \<Rightarrow> Some g)"

definition reserved_admin_authorization_generation :: "ReservedJoin \<Rightarrow> Revision option" where
  "reserved_admin_authorization_generation self =
     (case rj_reserved_authority self of AuthorityOwner \<Rightarrow> None | AuthorityAdmin g \<Rightarrow> Some g)"

section \<open>Construction and queries\<close>

definition GroupPolicy_new :: "GroupScope \<Rightarrow> IdentityId \<Rightarrow> GroupPolicy" where
  "GroupPolicy_new scope owner_id =
     \<lparr> gp_scope = scope, gp_owner_id = owner_id, gp_administrators = {||},
       gp_generations = fmempty, gp_members = {|owner_id|}, gp_invitations = fmempty,
       gp_pending_joins = fmempty, gp_reserved_joins = fmempty, gp_approved_joins = fmempty,
       gp_revision = Revision_INITIAL \<rparr>"

definition role_of :: "GroupPolicy \<Rightarrow> IdentityId \<Rightarrow> GroupRole option" where
  "role_of self identity_id =
     (if identity_id = gp_owner_id self then Some RoleOwner
      else if identity_id |\<in>| gp_administrators self then Some RoleAdmin
      else if identity_id |\<in>| gp_members self then Some RoleMember
      else None)"

definition is_member :: "GroupPolicy \<Rightarrow> IdentityId \<Rightarrow> bool" where
  "is_member self identity_id = (identity_id |\<in>| gp_members self)"

definition admin_count :: "GroupPolicy \<Rightarrow> nat" where
  "admin_count self = fcard (gp_administrators self)"

definition can_issue_invite :: "GroupPolicy \<Rightarrow> IdentityId \<Rightarrow> bool" where
  "can_issue_invite self identity_id =
     (case role_of self identity_id of
        Some RoleOwner \<Rightarrow> True | Some RoleAdmin \<Rightarrow> True | _ \<Rightarrow> False)"

definition can_approve_join :: "GroupPolicy \<Rightarrow> IdentityId \<Rightarrow> bool" where
  "can_approve_join self identity_id = can_issue_invite self identity_id"

definition invite :: "GroupPolicy \<Rightarrow> InviteCapabilityId \<Rightarrow> InviteCapability option" where
  "invite self invite_id = fmlookup (gp_invitations self) invite_id"

definition pending_join :: "GroupPolicy \<Rightarrow> JoinRequestId \<Rightarrow> PendingJoinRequest option" where
  "pending_join self request_id = fmlookup (gp_pending_joins self) request_id"

definition reserved_join :: "GroupPolicy \<Rightarrow> JoinRequestId \<Rightarrow> ReservedJoin option" where
  "reserved_join self request_id = fmlookup (gp_reserved_joins self) request_id"

definition approved_join :: "GroupPolicy \<Rightarrow> JoinRequestId \<Rightarrow> ApprovedJoin option" where
  "approved_join self request_id = fmlookup (gp_approved_joins self) request_id"

section \<open>Guards shared by the mutations\<close>

definition next_mutation_revision :: "GroupPolicy \<Rightarrow> Revision \<Rightarrow> GroupPolicyError + Revision" where
  "next_mutation_revision self expected_revision =
     (if expected_revision \<noteq> gp_revision self then Inl (RevisionConflict (gp_revision self))
      else map_err (\<lambda>_. CounterExhausted) (checked_next (gp_revision self)))"

definition ensure_owner :: "GroupPolicy \<Rightarrow> IdentityId \<Rightarrow> GroupPolicyError + unit" where
  "ensure_owner self actor_id = (if actor_id = gp_owner_id self then Inr () else Inl Unauthorized)"

definition ensure_invite_authority :: "GroupPolicy \<Rightarrow> IdentityId \<Rightarrow> GroupPolicyError + unit" where
  "ensure_invite_authority self actor_id =
     (if can_issue_invite self actor_id then Inr () else Inl Unauthorized)"

definition ensure_approval_authority :: "GroupPolicy \<Rightarrow> IdentityId \<Rightarrow> GroupPolicyError + unit" where
  "ensure_approval_authority self actor_id =
     (if can_approve_join self actor_id then Inr () else Inl Unauthorized)"

definition candidate_has_active_join :: "GroupPolicy \<Rightarrow> IdentityId \<Rightarrow> bool" where
  "candidate_has_active_join self candidate_id =
     (list_ex (\<lambda>pending. pj_candidate_id pending = candidate_id) (fm_values (gp_pending_joins self))
      \<or> list_ex (\<lambda>reserved. rj_candidate_id reserved = candidate_id) (fm_values (gp_reserved_joins self)))"

definition authority_is_current ::
  "GroupPolicy \<Rightarrow> IdentityId \<Rightarrow> InviteIssuerAuthority \<Rightarrow> bool" where
  "authority_is_current self holder authority =
     (case authority of
        AuthorityOwner \<Rightarrow> holder = gp_owner_id self
      | AuthorityAdmin g \<Rightarrow>
          holder |\<in>| gp_administrators self \<and> fmlookup (gp_generations self) holder = Some g)"

definition invite_issuer_authority_is_current :: "GroupPolicy \<Rightarrow> InviteCapability \<Rightarrow> bool" where
  "invite_issuer_authority_is_current self iv =
     authority_is_current self (ic_issuer_id iv) (ic_issuer_authority iv)"

definition ensure_invite_usable ::
  "GroupPolicy \<Rightarrow> InviteCapability \<Rightarrow> IdentityId \<Rightarrow> int \<Rightarrow> GroupPolicyError + unit" where
  "ensure_invite_usable self iv candidate_id now_ms =
     (if ic_revoked iv then Inl InviteRevoked
      else if now_ms \<ge> ic_expires_at_ms iv then Inl InviteExpired
      else if (case ic_target_id iv of None \<Rightarrow> False | Some target \<Rightarrow> target \<noteq> candidate_id)
        then Inl InviteTargetMismatch
      else if \<not> invite_issuer_authority_is_current self iv then Inl InviteIssuerNoLongerAuthorized
      else res_bind (ok_or InviteUseLimitReached
             (checked_add (ic_use_count iv) (ic_reserved_use_count iv))) (\<lambda>occupied_uses.
        if occupied_uses \<ge> ic_max_uses iv then Inl InviteUseLimitReached else Inr ()))"

definition invite_issuer_authority ::
  "GroupPolicy \<Rightarrow> IdentityId \<Rightarrow> GroupPolicyError + InviteIssuerAuthority" where
  "invite_issuer_authority self actor_id =
     (if actor_id = gp_owner_id self then Inr AuthorityOwner
      else if actor_id |\<in>| gp_administrators self then
        ok_or Unauthorized (map_option AuthorityAdmin (fmlookup (gp_generations self) actor_id))
      else Inl Unauthorized)"

definition next_admin_authorization_generation ::
  "GroupPolicy \<Rightarrow> IdentityId \<Rightarrow> GroupPolicyError + Revision" where
  "next_admin_authorization_generation self administrator_id =
     (case fmlookup (gp_generations self) administrator_id of
        None \<Rightarrow> Inr Revision_INITIAL
      | Some generation \<Rightarrow> map_err (\<lambda>_. CounterExhausted) (checked_next generation))"

section \<open>Administration\<close>

definition grant_admin :: "Revision \<Rightarrow> IdentityId \<Rightarrow> IdentityId \<Rightarrow> Revision policy_op" where
  "grant_admin expected_revision actor_id administrator_id self =
     try_in self (next_mutation_revision self expected_revision) (\<lambda>next_revision.
     try_in self (ensure_owner self actor_id) (\<lambda>_.
     if administrator_id = gp_owner_id self then (Inl OwnerCannotBeAdmin, self)
     else if administrator_id |\<in>| gp_administrators self then (Inl AlreadyAdmin, self)
     else if fcard (gp_administrators self) \<ge> MAX_ADMINS then (Inl AdminLimitReached, self)
     else try_in self (next_admin_authorization_generation self administrator_id) (\<lambda>generation.
       (Inr next_revision,
        self\<lparr> gp_administrators := finsert administrator_id (gp_administrators self),
          gp_generations := fmupd administrator_id generation (gp_generations self),
          gp_members := finsert administrator_id (gp_members self),
          gp_revision := next_revision \<rparr>))))"

definition revoke_admin :: "Revision \<Rightarrow> IdentityId \<Rightarrow> IdentityId \<Rightarrow> Revision policy_op" where
  "revoke_admin expected_revision actor_id administrator_id self =
     try_in self (next_mutation_revision self expected_revision) (\<lambda>next_revision.
     try_in self (ensure_owner self actor_id) (\<lambda>_.
     if administrator_id = gp_owner_id self then (Inl OwnerCannotBeAdmin, self)
     else if administrator_id |\<notin>| gp_administrators self then (Inl NotAdmin, self)
     else (Inr next_revision,
       self\<lparr> gp_administrators := gp_administrators self |-| {|administrator_id|},
         gp_revision := next_revision \<rparr>)))"

definition remove_member :: "Revision \<Rightarrow> IdentityId \<Rightarrow> IdentityId \<Rightarrow> Revision policy_op" where
  "remove_member expected_revision actor_id member_id self =
     try_in self (next_mutation_revision self expected_revision) (\<lambda>next_revision.
     try_in self (ensure_owner self actor_id) (\<lambda>_.
     if member_id = gp_owner_id self then (Inl OwnerCannotBeRemoved, self)
     else if member_id |\<notin>| gp_members self then (Inl MemberNotFound, self)
     else (Inr next_revision,
       self\<lparr> gp_administrators := gp_administrators self |-| {|member_id|},
         gp_members := gp_members self |-| {|member_id|},
         gp_revision := next_revision \<rparr>)))"

section \<open>Invitations\<close>

definition issue_invite ::
  "Revision \<Rightarrow> IdentityId \<Rightarrow> InviteCapabilityId \<Rightarrow> IdentityId option \<Rightarrow> u32 \<Rightarrow> int \<Rightarrow> int
    \<Rightarrow> InviteCapability policy_op" where
  "issue_invite expected_revision actor_id invite_id target_id max_uses expires_at_ms now_ms self =
     try_in self (next_mutation_revision self expected_revision) (\<lambda>next_revision.
     try_in self (invite_issuer_authority self actor_id) (\<lambda>issuer_authority.
     if contains_key (gp_invitations self) invite_id then (Inl InviteAlreadyExists, self)
     else if max_uses = 0 then (Inl InvalidInviteUseLimit, self)
     else if expires_at_ms \<le> now_ms then (Inl InvalidInviteExpiry, self)
     else
       let iv = \<lparr> ic_invite_id = invite_id, ic_scope = gp_scope self, ic_issuer_id = actor_id,
             ic_target_id = target_id, ic_max_uses = max_uses, ic_use_count = 0,
             ic_reserved_use_count = 0, ic_expires_at_ms = expires_at_ms, ic_revoked = False,
             ic_policy_revision = expected_revision, ic_issuer_authority = issuer_authority \<rparr>
       in (Inr iv,
           self\<lparr> gp_invitations := fmupd invite_id iv (gp_invitations self),
             gp_revision := next_revision \<rparr>)))"

definition revoke_invite :: "Revision \<Rightarrow> IdentityId \<Rightarrow> InviteCapabilityId \<Rightarrow> Revision policy_op" where
  "revoke_invite expected_revision actor_id invite_id self =
     try_in self (next_mutation_revision self expected_revision) (\<lambda>next_revision.
     try_in self (ensure_invite_authority self actor_id) (\<lambda>_.
     try_in self (ok_or InviteNotFound (fmlookup (gp_invitations self) invite_id)) (\<lambda>iv.
     if ic_revoked iv then (Inl InviteAlreadyRevoked, self)
     else (Inr next_revision,
       self\<lparr> gp_invitations := fmupd invite_id (iv\<lparr> ic_revoked := True \<rparr>) (gp_invitations self),
         gp_revision := next_revision \<rparr>))))"

section \<open>Joins\<close>

definition request_join ::
  "Revision \<Rightarrow> IdentityId \<Rightarrow> IdentityId \<Rightarrow> JoinRequestId \<Rightarrow> InviteCapabilityId \<Rightarrow> int
    \<Rightarrow> PendingJoinRequest policy_op" where
  "request_join expected_revision actor_id candidate_id request_id invite_id now_ms self =
     try_in self (next_mutation_revision self expected_revision) (\<lambda>next_revision.
     if actor_id \<noteq> candidate_id then (Inl Unauthorized, self)
     else if candidate_id |\<in>| gp_members self then (Inl AlreadyMember, self)
     else if contains_key (gp_pending_joins self) request_id then (Inl JoinRequestAlreadyPending, self)
     else if contains_key (gp_reserved_joins self) request_id then (Inl JoinAlreadyReserved, self)
     else if contains_key (gp_approved_joins self) request_id then (Inl AlreadyApproved, self)
     else if candidate_has_active_join self candidate_id then (Inl CandidateJoinInFlight, self)
     else try_in self (ok_or InviteNotFound (fmlookup (gp_invitations self) invite_id)) (\<lambda>iv.
       try_in self (ensure_invite_usable self iv candidate_id now_ms) (\<lambda>_.
       let pending = \<lparr> pj_request_id = request_id, pj_candidate_id = candidate_id,
             pj_invite_id = invite_id, pj_requested_at_ms = now_ms \<rparr>
       in (Inr pending,
           self\<lparr> gp_pending_joins := fmupd request_id pending (gp_pending_joins self),
             gp_revision := next_revision \<rparr>))))"

definition reserve_join ::
  "Revision \<Rightarrow> IdentityId \<Rightarrow> JoinRequestId \<Rightarrow> int \<Rightarrow> ReservedJoin policy_op" where
  "reserve_join expected_revision actor_id request_id now_ms self =
     try_in self (next_mutation_revision self expected_revision) (\<lambda>next_revision.
     try_in self (ensure_approval_authority self actor_id) (\<lambda>_.
     try_in self (invite_issuer_authority self actor_id) (\<lambda>reservation_authority.
     if contains_key (gp_approved_joins self) request_id then (Inl AlreadyApproved, self)
     else if contains_key (gp_reserved_joins self) request_id then (Inl JoinAlreadyReserved, self)
     else try_in self (ok_or PendingJoinNotFound (fmlookup (gp_pending_joins self) request_id)) (\<lambda>pending.
     if pj_candidate_id pending |\<in>| gp_members self then (Inl AlreadyMember, self)
     else try_in self (ok_or InviteNotFound
         (fmlookup (gp_invitations self) (pj_invite_id pending))) (\<lambda>iv.
     try_in self (ensure_invite_usable self iv (pj_candidate_id pending) now_ms) (\<lambda>_.
     try_in self (ok_or InviteUseLimitReached (checked_add (ic_reserved_use_count iv) 1)) (\<lambda>count.
       let reservation = \<lparr> rj_request_id = request_id, rj_candidate_id = pj_candidate_id pending,
             rj_invite_id = pj_invite_id pending, rj_reserved_by = actor_id,
             rj_reserved_authority = reservation_authority, rj_reserved_at_ms = now_ms,
             rj_policy_revision = expected_revision \<rparr>
       in (Inr reservation,
           self\<lparr> gp_invitations := fmupd (pj_invite_id pending)
                 (iv\<lparr> ic_reserved_use_count := count \<rparr>) (gp_invitations self),
             gp_pending_joins := fmdrop request_id (gp_pending_joins self),
             gp_reserved_joins := fmupd request_id reservation (gp_reserved_joins self),
             gp_revision := next_revision \<rparr>))))))))"

definition validate_reserved_join_authority ::
  "GroupPolicy \<Rightarrow> JoinRequestId \<Rightarrow> GroupPolicyError + unit" where
  "validate_reserved_join_authority self request_id =
     res_bind (ok_or ReservedJoinNotFound (fmlookup (gp_reserved_joins self) request_id)) (\<lambda>reservation.
     let still_authorized =
       authority_is_current self (rj_reserved_by reservation) (rj_reserved_authority reservation)
     in if still_authorized then Inr () else Inl InviteIssuerNoLongerAuthorized)"

text \<open>
  The finalisation writes the reservation count back before it adds to the use count, so the
  last \<open>?\<close> returns with that write already made.
\<close>

definition finalize_reserved_join ::
  "Revision \<Rightarrow> JoinRequestId \<Rightarrow> int \<Rightarrow> ApprovedJoin policy_op" where
  "finalize_reserved_join expected_revision request_id finalized_at_ms self =
     try_in self (next_mutation_revision self expected_revision) (\<lambda>next_revision.
     if contains_key (gp_approved_joins self) request_id then (Inl AlreadyApproved, self)
     else try_in self (ok_or ReservedJoinNotFound
         (fmlookup (gp_reserved_joins self) request_id)) (\<lambda>reservation.
     if rj_candidate_id reservation |\<in>| gp_members self then (Inl AlreadyMember, self)
     else try_in self (ok_or ReservationInvariantViolation
         (fmlookup (gp_invitations self) (rj_invite_id reservation))) (\<lambda>iv.
     try_in self (ok_or ReservationInvariantViolation
         (checked_sub (ic_reserved_use_count iv) 1)) (\<lambda>reserved_count.
     let iv = iv\<lparr> ic_reserved_use_count := reserved_count \<rparr>;
         self = self\<lparr> gp_invitations := fmupd (rj_invite_id reservation) iv (gp_invitations self) \<rparr>
     in try_in self (ok_or InviteUseLimitReached (checked_add (ic_use_count iv) 1)) (\<lambda>used.
       let approved = \<lparr> aj_request_id = request_id, aj_candidate_id = rj_candidate_id reservation,
             aj_invite_id = rj_invite_id reservation, aj_approved_by = rj_reserved_by reservation,
             aj_approved_at_ms = finalized_at_ms,
             aj_policy_revision = rj_policy_revision reservation \<rparr>
       in (Inr approved,
           self\<lparr> gp_invitations := fmupd (rj_invite_id reservation)
                 (iv\<lparr> ic_use_count := used \<rparr>) (gp_invitations self),
             gp_reserved_joins := fmdrop request_id (gp_reserved_joins self),
             gp_members := finsert (rj_candidate_id reservation) (gp_members self),
             gp_approved_joins := fmupd request_id approved (gp_approved_joins self),
             gp_revision := next_revision \<rparr>))))))"

definition release_join_reservation :: "Revision \<Rightarrow> JoinRequestId \<Rightarrow> ReservedJoin policy_op" where
  "release_join_reservation expected_revision request_id self =
     try_in self (next_mutation_revision self expected_revision) (\<lambda>next_revision.
     try_in self (ok_or ReservedJoinNotFound (fmlookup (gp_reserved_joins self) request_id)) (\<lambda>reservation.
     try_in self (ok_or ReservationInvariantViolation
         (fmlookup (gp_invitations self) (rj_invite_id reservation))) (\<lambda>iv.
     try_in self (ok_or ReservationInvariantViolation
         (checked_sub (ic_reserved_use_count iv) 1)) (\<lambda>reserved_count.
       (Inr reservation,
        self\<lparr> gp_invitations := fmupd (rj_invite_id reservation)
              (iv\<lparr> ic_reserved_use_count := reserved_count \<rparr>) (gp_invitations self),
          gp_reserved_joins := fmdrop request_id (gp_reserved_joins self),
          gp_revision := next_revision \<rparr>)))))"

definition approve_join ::
  "Revision \<Rightarrow> IdentityId \<Rightarrow> JoinRequestId \<Rightarrow> int \<Rightarrow> ApprovedJoin policy_op" where
  "approve_join expected_revision actor_id request_id now_ms self =
     try_in self (next_mutation_revision self expected_revision) (\<lambda>next_revision.
     try_in self (ensure_approval_authority self actor_id) (\<lambda>_.
     if contains_key (gp_approved_joins self) request_id then (Inl AlreadyApproved, self)
     else try_in self (ok_or PendingJoinNotFound (fmlookup (gp_pending_joins self) request_id)) (\<lambda>pending.
     if pj_candidate_id pending |\<in>| gp_members self then (Inl AlreadyMember, self)
     else try_in self (ok_or InviteNotFound
         (fmlookup (gp_invitations self) (pj_invite_id pending))) (\<lambda>iv.
     try_in self (ensure_invite_usable self iv (pj_candidate_id pending) now_ms) (\<lambda>_.
     try_in self (ok_or InviteUseLimitReached (checked_add (ic_use_count iv) 1)) (\<lambda>used.
       let approved = \<lparr> aj_request_id = request_id, aj_candidate_id = pj_candidate_id pending,
             aj_invite_id = pj_invite_id pending, aj_approved_by = actor_id,
             aj_approved_at_ms = now_ms, aj_policy_revision = expected_revision \<rparr>
       in (Inr approved,
           self\<lparr> gp_invitations := fmupd (pj_invite_id pending)
                 (iv\<lparr> ic_use_count := used \<rparr>) (gp_invitations self),
             gp_members := finsert (pj_candidate_id pending) (gp_members self),
             gp_pending_joins := fmdrop request_id (gp_pending_joins self),
             gp_approved_joins := fmupd request_id approved (gp_approved_joins self),
             gp_revision := next_revision \<rparr>)))))))"

section \<open>Commands\<close>

text \<open>
  The mutating methods of the aggregate as one type of calls, so that sequences of them can be
  quantified over. \<open>group_apply\<close> dispatches a call and forgets the payload of a success.
\<close>

datatype GroupCall =
    GrantAdmin IdentityId IdentityId
  | RevokeAdmin IdentityId IdentityId
  | RemoveMember IdentityId IdentityId
  | IssueInvite IdentityId InviteCapabilityId "IdentityId option" u32 int int
  | RevokeInvite IdentityId InviteCapabilityId
  | RequestJoin IdentityId IdentityId JoinRequestId InviteCapabilityId int
  | ReserveJoin IdentityId JoinRequestId int
  | FinalizeReservedJoin JoinRequestId int
  | ReleaseJoinReservation JoinRequestId
  | ApproveJoin IdentityId JoinRequestId int

fun group_apply :: "GroupCall \<Rightarrow> Revision \<Rightarrow> unit policy_op" where
  "group_apply (GrantAdmin actor a) r p = forget (grant_admin r actor a p)"
| "group_apply (RevokeAdmin actor a) r p = forget (revoke_admin r actor a p)"
| "group_apply (RemoveMember actor m) r p = forget (remove_member r actor m p)"
| "group_apply (IssueInvite actor i target uses expires now) r p =
     forget (issue_invite r actor i target uses expires now p)"
| "group_apply (RevokeInvite actor i) r p = forget (revoke_invite r actor i p)"
| "group_apply (RequestJoin actor c q i now) r p = forget (request_join r actor c q i now p)"
| "group_apply (ReserveJoin actor q now) r p = forget (reserve_join r actor q now p)"
| "group_apply (FinalizeReservedJoin q now) r p = forget (finalize_reserved_join r q now p)"
| "group_apply (ReleaseJoinReservation q) r p = forget (release_join_reservation r q p)"
| "group_apply (ApproveJoin actor q now) r p = forget (approve_join r actor q now p)"

inductive group_step :: "GroupPolicy \<Rightarrow> GroupPolicy \<Rightarrow> bool" where
  group_call: "group_apply c r p = (res, q) \<Longrightarrow> group_step p q"

inductive group_reachable :: "GroupPolicy \<Rightarrow> bool" where
  group_created: "group_reachable (GroupPolicy_new scope owner_id)"
| group_stepped: "group_reachable p \<Longrightarrow> group_step p q \<Longrightarrow> group_reachable q"

inductive_cases group_stepE: "group_step p q"

end
