(* ===== verification/Group_Outcomes.thy ===== *)
theory Group_Outcomes
  imports Group_Policy
begin

text \<open>
  The successful outcomes of the methods of the group aggregate, one equivalence each: the
  guards that hold, the record returned and the state left. Later proofs use these instead of
  the method bodies.
\<close>

named_theorems group_ok \<open>the successful outcomes of the group operations\<close>

lemma next_mutation_revision_Ok [group_ok]:
  "next_mutation_revision p r = Inr n \<longleftrightarrow> r = gp_revision p \<and> checked_next (gp_revision p) = Inr n"
  by (auto simp: next_mutation_revision_def result_simps)

lemma ensure_owner_Ok [group_ok]: "ensure_owner p a = Inr u \<longleftrightarrow> a = gp_owner_id p"
  by (simp add: ensure_owner_def)

lemma ensure_invite_authority_Ok [group_ok]:
  "ensure_invite_authority p a = Inr u \<longleftrightarrow> a = gp_owner_id p \<or> a |\<in>| gp_administrators p"
  by (auto simp: ensure_invite_authority_def can_issue_invite_def role_of_def)

lemma ensure_approval_authority_Ok [group_ok]:
  "ensure_approval_authority p a = Inr u \<longleftrightarrow> a = gp_owner_id p \<or> a |\<in>| gp_administrators p"
  by (auto simp: ensure_approval_authority_def can_approve_join_def can_issue_invite_def role_of_def)

lemma ensure_invite_usable_Ok [group_ok]:
  "ensure_invite_usable p iv c now = Inr u \<longleftrightarrow>
     \<not> ic_revoked iv \<and> now < ic_expires_at_ms iv \<and> (\<forall>t. ic_target_id iv = Some t \<longrightarrow> t = c)
     \<and> authority_is_current p (ic_issuer_id iv) (ic_issuer_authority iv)
     \<and> unat (ic_use_count iv) + unat (ic_reserved_use_count iv) < unat (ic_max_uses iv)"
proof -
  have bound: "res_bind (ok_or e (checked_add a b)) (\<lambda>w. if w \<ge> m then Inl e else Inr ()) = Inr () \<longleftrightarrow>
      unat a + unat b < unat m" for a b m :: u32 and e :: GroupPolicyError
  proof (cases "checked_add a b")
    case None
    then have "2 ^ LENGTH(32) \<le> unat a + unat b" unfolding checked_add_None_iff .
    moreover have "unat m < 2 ^ LENGTH(32)" by (rule unsigned_less)
    ultimately show ?thesis unfolding None by simp
  next
    case (Some w)
    then have "unat w = unat a + unat b" unfolding checked_add_Some_iff .
    then show ?thesis unfolding Some by (simp add: word_le_nat_alt)
  qed
  show ?thesis
    unfolding ensure_invite_usable_def
    by (auto simp: bound invite_issuer_authority_is_current_def split: option.splits)
qed

lemma invite_issuer_authority_Ok [group_ok]:
  "invite_issuer_authority p a = Inr au \<longleftrightarrow>
     (a = gp_owner_id p \<and> au = AuthorityOwner)
     \<or> (a \<noteq> gp_owner_id p \<and> a |\<in>| gp_administrators p
        \<and> (\<exists>g. fmlookup (gp_generations p) a = Some g \<and> au = AuthorityAdmin g))"
  by (auto simp: invite_issuer_authority_def result_simps)

lemma next_generation_Ok [group_ok]:
  "next_admin_authorization_generation p a = Inr g \<longleftrightarrow>
     (case fmlookup (gp_generations p) a of None \<Rightarrow> g = Revision_INITIAL | Some c \<Rightarrow> checked_next c = Inr g)"
  by (auto simp: next_admin_authorization_generation_def result_simps split: option.splits)

lemma candidate_has_active_join_iff [group_ok]:
  "candidate_has_active_join p c \<longleftrightarrow>
     (\<exists>q j. fmlookup (gp_pending_joins p) q = Some j \<and> pj_candidate_id j = c)
     \<or> (\<exists>q j. fmlookup (gp_reserved_joins p) q = Some j \<and> rj_candidate_id j = c)"
  by (auto simp: candidate_has_active_join_def list_ex_iff container_simps)

text \<open>One increment and one decrement of a \<open>u32\<close> counter.\<close>

lemma counter_up: "checked_add w (1::u32) = Some v \<longleftrightarrow> unat v = unat w + 1"
  by (simp add: result_simps)

lemma counter_down: "checked_sub w (1::u32) = Some v \<longleftrightarrow> unat w = unat v + 1"
  by (simp add: result_simps)

lemma grant_admin_Ok [group_ok]:
  "grant_admin r a b p = (Inr n, q) \<longleftrightarrow>
     (\<exists>g. r = gp_revision p \<and> checked_next r = Inr n \<and> a = gp_owner_id p \<and> b \<noteq> gp_owner_id p
       \<and> b |\<notin>| gp_administrators p \<and> fcard (gp_administrators p) < MAX_ADMINS
       \<and> next_admin_authorization_generation p b = Inr g
       \<and> q = p\<lparr> gp_administrators := finsert b (gp_administrators p),
            gp_generations := fmupd b g (gp_generations p),
            gp_members := finsert b (gp_members p), gp_revision := n \<rparr>)"
  unfolding grant_admin_def Let_def op_Ok next_mutation_revision_Ok ensure_owner_Ok by blast

lemma revoke_admin_Ok [group_ok]:
  "revoke_admin r a b p = (Inr n, q) \<longleftrightarrow>
     r = gp_revision p \<and> checked_next r = Inr n \<and> a = gp_owner_id p \<and> b \<noteq> gp_owner_id p
     \<and> b |\<in>| gp_administrators p
     \<and> q = p\<lparr> gp_administrators := gp_administrators p |-| {|b|}, gp_revision := n \<rparr>"
  unfolding revoke_admin_def Let_def op_Ok next_mutation_revision_Ok ensure_owner_Ok by blast

lemma remove_member_Ok [group_ok]:
  "remove_member r a b p = (Inr n, q) \<longleftrightarrow>
     r = gp_revision p \<and> checked_next r = Inr n \<and> a = gp_owner_id p \<and> b \<noteq> gp_owner_id p
     \<and> b |\<in>| gp_members p
     \<and> q = p\<lparr> gp_administrators := gp_administrators p |-| {|b|},
          gp_members := gp_members p |-| {|b|}, gp_revision := n \<rparr>"
  unfolding remove_member_def Let_def op_Ok next_mutation_revision_Ok ensure_owner_Ok by blast

lemma issue_invite_Ok [group_ok]:
  "issue_invite r a i t m ex now p = (Inr x, q) \<longleftrightarrow>
     (\<exists>n au. r = gp_revision p \<and> checked_next r = Inr n \<and> invite_issuer_authority p a = Inr au
       \<and> fmlookup (gp_invitations p) i = None \<and> m \<noteq> 0 \<and> now < ex
       \<and> x = \<lparr> ic_invite_id = i, ic_scope = gp_scope p, ic_issuer_id = a, ic_target_id = t,
            ic_max_uses = m, ic_use_count = 0, ic_reserved_use_count = 0, ic_expires_at_ms = ex,
            ic_revoked = False, ic_policy_revision = r, ic_issuer_authority = au \<rparr>
       \<and> q = p\<lparr> gp_invitations := fmupd i x (gp_invitations p), gp_revision := n \<rparr>)"
  unfolding issue_invite_def Let_def op_Ok next_mutation_revision_Ok by blast

lemma revoke_invite_Ok [group_ok]:
  "revoke_invite r a i p = (Inr n, q) \<longleftrightarrow>
     (\<exists>iv. r = gp_revision p \<and> checked_next r = Inr n
       \<and> (a = gp_owner_id p \<or> a |\<in>| gp_administrators p)
       \<and> fmlookup (gp_invitations p) i = Some iv \<and> \<not> ic_revoked iv
       \<and> q = p\<lparr> gp_invitations := fmupd i (iv\<lparr> ic_revoked := True \<rparr>) (gp_invitations p),
            gp_revision := n \<rparr>)"
  unfolding revoke_invite_def Let_def op_Ok next_mutation_revision_Ok ensure_invite_authority_Ok by blast

lemma request_join_Ok [group_ok]:
  "request_join r a c k i now p = (Inr x, q) \<longleftrightarrow>
     (\<exists>n iv. r = gp_revision p \<and> checked_next r = Inr n \<and> a = c \<and> c |\<notin>| gp_members p
       \<and> fmlookup (gp_pending_joins p) k = None \<and> fmlookup (gp_reserved_joins p) k = None
       \<and> fmlookup (gp_approved_joins p) k = None \<and> \<not> candidate_has_active_join p c
       \<and> fmlookup (gp_invitations p) i = Some iv \<and> ensure_invite_usable p iv c now = Inr ()
       \<and> x = \<lparr> pj_request_id = k, pj_candidate_id = c, pj_invite_id = i, pj_requested_at_ms = now \<rparr>
       \<and> q = p\<lparr> gp_pending_joins := fmupd k x (gp_pending_joins p), gp_revision := n \<rparr>)"
  unfolding request_join_def Let_def op_Ok next_mutation_revision_Ok by auto

lemma reserve_join_Ok [group_ok]:
  "reserve_join r a k now p = (Inr x, q) \<longleftrightarrow>
     (\<exists>n au j iv w. r = gp_revision p \<and> checked_next r = Inr n \<and> invite_issuer_authority p a = Inr au
       \<and> fmlookup (gp_approved_joins p) k = None \<and> fmlookup (gp_reserved_joins p) k = None
       \<and> fmlookup (gp_pending_joins p) k = Some j \<and> pj_candidate_id j |\<notin>| gp_members p
       \<and> fmlookup (gp_invitations p) (pj_invite_id j) = Some iv
       \<and> ensure_invite_usable p iv (pj_candidate_id j) now = Inr ()
       \<and> checked_add (ic_reserved_use_count iv) 1 = Some w
       \<and> x = \<lparr> rj_request_id = k, rj_candidate_id = pj_candidate_id j, rj_invite_id = pj_invite_id j,
            rj_reserved_by = a, rj_reserved_authority = au, rj_reserved_at_ms = now,
            rj_policy_revision = r \<rparr>
       \<and> q = p\<lparr> gp_invitations := fmupd (pj_invite_id j) (iv\<lparr> ic_reserved_use_count := w \<rparr>) (gp_invitations p),
            gp_pending_joins := fmdrop k (gp_pending_joins p),
            gp_reserved_joins := fmupd k x (gp_reserved_joins p), gp_revision := n \<rparr>)"
proof -
  have "invite_issuer_authority p a = Inr au \<Longrightarrow> ensure_approval_authority p a = Inr ()" for au
    by (auto simp: invite_issuer_authority_Ok ensure_approval_authority_Ok)
  then show ?thesis
    unfolding reserve_join_def Let_def op_Ok next_mutation_revision_Ok
    by auto
qed

lemma finalize_reserved_join_Ok [group_ok]:
  "finalize_reserved_join r k now p = (Inr x, q) \<longleftrightarrow>
     (\<exists>n j iv w u. r = gp_revision p \<and> checked_next r = Inr n
       \<and> fmlookup (gp_approved_joins p) k = None \<and> fmlookup (gp_reserved_joins p) k = Some j
       \<and> rj_candidate_id j |\<notin>| gp_members p
       \<and> fmlookup (gp_invitations p) (rj_invite_id j) = Some iv
       \<and> checked_sub (ic_reserved_use_count iv) 1 = Some w \<and> checked_add (ic_use_count iv) 1 = Some u
       \<and> x = \<lparr> aj_request_id = k, aj_candidate_id = rj_candidate_id j, aj_invite_id = rj_invite_id j,
            aj_approved_by = rj_reserved_by j, aj_approved_at_ms = now,
            aj_policy_revision = rj_policy_revision j \<rparr>
       \<and> q = p\<lparr> gp_invitations := fmupd (rj_invite_id j)
              (iv\<lparr> ic_reserved_use_count := w, ic_use_count := u \<rparr>) (gp_invitations p),
            gp_reserved_joins := fmdrop k (gp_reserved_joins p),
            gp_members := finsert (rj_candidate_id j) (gp_members p),
            gp_approved_joins := fmupd k x (gp_approved_joins p), gp_revision := n \<rparr>)"
  unfolding finalize_reserved_join_def Let_def op_Ok next_mutation_revision_Ok fmupd_twice
  by auto

lemma release_join_reservation_Ok [group_ok]:
  "release_join_reservation r k p = (Inr j, q) \<longleftrightarrow>
     (\<exists>n iv w. r = gp_revision p \<and> checked_next r = Inr n
       \<and> fmlookup (gp_reserved_joins p) k = Some j
       \<and> fmlookup (gp_invitations p) (rj_invite_id j) = Some iv
       \<and> checked_sub (ic_reserved_use_count iv) 1 = Some w
       \<and> q = p\<lparr> gp_invitations := fmupd (rj_invite_id j) (iv\<lparr> ic_reserved_use_count := w \<rparr>) (gp_invitations p),
            gp_reserved_joins := fmdrop k (gp_reserved_joins p), gp_revision := n \<rparr>)"
  unfolding release_join_reservation_def Let_def op_Ok next_mutation_revision_Ok
  by auto

lemma approve_join_Ok [group_ok]:
  "approve_join r a k now p = (Inr x, q) \<longleftrightarrow>
     (\<exists>n j iv u. r = gp_revision p \<and> checked_next r = Inr n
       \<and> (a = gp_owner_id p \<or> a |\<in>| gp_administrators p)
       \<and> fmlookup (gp_approved_joins p) k = None \<and> fmlookup (gp_pending_joins p) k = Some j
       \<and> pj_candidate_id j |\<notin>| gp_members p
       \<and> fmlookup (gp_invitations p) (pj_invite_id j) = Some iv
       \<and> ensure_invite_usable p iv (pj_candidate_id j) now = Inr ()
       \<and> checked_add (ic_use_count iv) 1 = Some u
       \<and> x = \<lparr> aj_request_id = k, aj_candidate_id = pj_candidate_id j, aj_invite_id = pj_invite_id j,
            aj_approved_by = a, aj_approved_at_ms = now, aj_policy_revision = r \<rparr>
       \<and> q = p\<lparr> gp_invitations := fmupd (pj_invite_id j) (iv\<lparr> ic_use_count := u \<rparr>) (gp_invitations p),
            gp_members := finsert (pj_candidate_id j) (gp_members p),
            gp_pending_joins := fmdrop k (gp_pending_joins p),
            gp_approved_joins := fmupd k x (gp_approved_joins p), gp_revision := n \<rparr>)"
  unfolding approve_join_def Let_def op_Ok next_mutation_revision_Ok ensure_approval_authority_Ok
  by auto

end
