(* ===== verification/Group_Invariant.thy ===== *)
theory Group_Invariant
  imports Group_Outcomes
begin

text \<open>
  What every call of the group aggregate keeps: the roles, the invitations, the join records
  and the agreement of the invitation counters with the join records.
\<close>

section \<open>The invariant\<close>

definition authority_known ::
  "IdentityId \<Rightarrow> (IdentityId, Revision) fmap \<Rightarrow> IdentityId \<Rightarrow> InviteIssuerAuthority \<Rightarrow> bool" where
  "authority_known owner gens holder authority =
     (case authority of
        AuthorityOwner \<Rightarrow> holder = owner
      | AuthorityAdmin g \<Rightarrow> (case fmlookup gens holder of None \<Rightarrow> False | Some c \<Rightarrow> g \<le> c))"

definition roles_ok :: "GroupPolicy \<Rightarrow> bool" where
  "roles_ok p =
     (gp_owner_id p |\<in>| gp_members p \<and> gp_owner_id p |\<notin>| gp_administrators p
      \<and> gp_administrators p |\<subseteq>| gp_members p \<and> fcard (gp_administrators p) \<le> MAX_ADMINS
      \<and> gp_administrators p |\<subseteq>| fmdom (gp_generations p)
      \<and> gp_owner_id p |\<notin>| fmdom (gp_generations p)
      \<and> fmpred (\<lambda>_ g. valid_revision g) (gp_generations p) \<and> valid_revision (gp_revision p))"

definition invite_ok :: "GroupPolicy \<Rightarrow> InviteCapabilityId \<Rightarrow> InviteCapability \<Rightarrow> bool" where
  "invite_ok p k iv =
     (ic_invite_id iv = k \<and> ic_scope iv = gp_scope p \<and> ic_max_uses iv \<noteq> 0
      \<and> unat (ic_use_count iv) + unat (ic_reserved_use_count iv) \<le> unat (ic_max_uses iv)
      \<and> ic_policy_revision iv \<le> gp_revision p
      \<and> authority_known (gp_owner_id p) (gp_generations p) (ic_issuer_id iv) (ic_issuer_authority iv))"

definition pending_ok :: "GroupPolicy \<Rightarrow> JoinRequestId \<Rightarrow> PendingJoinRequest \<Rightarrow> bool" where
  "pending_ok p k j = (pj_request_id j = k \<and> pj_invite_id j |\<in>| fmdom (gp_invitations p))"

definition reserved_ok :: "GroupPolicy \<Rightarrow> JoinRequestId \<Rightarrow> ReservedJoin \<Rightarrow> bool" where
  "reserved_ok p k j =
     (rj_request_id j = k \<and> rj_invite_id j |\<in>| fmdom (gp_invitations p)
      \<and> rj_policy_revision j \<le> gp_revision p
      \<and> authority_known (gp_owner_id p) (gp_generations p) (rj_reserved_by j) (rj_reserved_authority j))"

definition approved_ok :: "GroupPolicy \<Rightarrow> JoinRequestId \<Rightarrow> ApprovedJoin \<Rightarrow> bool" where
  "approved_ok p k j =
     (aj_request_id j = k \<and> aj_invite_id j |\<in>| fmdom (gp_invitations p)
      \<and> aj_policy_revision j \<le> gp_revision p)"

text \<open>The candidate of a request that is pending or reserved.\<close>

definition active_candidate ::
  "(JoinRequestId, PendingJoinRequest) fmap \<Rightarrow> (JoinRequestId, ReservedJoin) fmap \<Rightarrow> JoinRequestId
    \<Rightarrow> IdentityId option" where
  "active_candidate pend res k =
     (case fmlookup pend k of
        Some j \<Rightarrow> Some (pj_candidate_id j)
      | None \<Rightarrow> map_option rj_candidate_id (fmlookup res k))"

definition one_each :: "('k \<Rightarrow> 'c option) \<Rightarrow> bool" where
  "one_each f = (\<forall>k l c. f k = Some c \<longrightarrow> f l = Some c \<longrightarrow> k = l)"

definition apart :: "('k, 'a) fmap \<Rightarrow> ('k, 'b) fmap \<Rightarrow> bool" where
  "apart a b = (\<forall>k. fmlookup a k = None \<or> fmlookup b k = None)"

definition requests_ok ::
  "(JoinRequestId, PendingJoinRequest) fmap \<Rightarrow> (JoinRequestId, ReservedJoin) fmap
    \<Rightarrow> (JoinRequestId, ApprovedJoin) fmap \<Rightarrow> bool" where
  "requests_ok pend res appr =
     (apart pend res \<and> apart pend appr \<and> apart res appr \<and> one_each (active_candidate pend res))"

abbreviation policy_requests_ok :: "GroupPolicy \<Rightarrow> bool" where
  "policy_requests_ok p \<equiv> requests_ok (gp_pending_joins p) (gp_reserved_joins p) (gp_approved_joins p)"

definition counters_ok :: "GroupPolicy \<Rightarrow> InviteCapabilityId \<Rightarrow> InviteCapability \<Rightarrow> bool" where
  "counters_ok p k iv =
     (unat (ic_reserved_use_count iv) = fm_count (\<lambda>j. rj_invite_id j = k) (gp_reserved_joins p)
      \<and> unat (ic_use_count iv) = fm_count (\<lambda>j. aj_invite_id j = k) (gp_approved_joins p))"

definition group_inv :: "GroupPolicy \<Rightarrow> bool" where
  "group_inv p =
     (roles_ok p \<and> policy_requests_ok p
      \<and> fmpred (invite_ok p) (gp_invitations p) \<and> fmpred (counters_ok p) (gp_invitations p)
      \<and> fmpred (pending_ok p) (gp_pending_joins p) \<and> fmpred (reserved_ok p) (gp_reserved_joins p)
      \<and> fmpred (approved_ok p) (gp_approved_joins p))"

lemmas record_ok_defs = invite_ok_def pending_ok_def reserved_ok_def approved_ok_def

lemma group_inv_new: "group_inv (GroupPolicy_new scope owner)"
  by (simp add: group_inv_def GroupPolicy_new_def roles_ok_def requests_ok_def
      apart_def one_each_def active_candidate_def fcard.rep_eq)

lemma group_invD:
  assumes "group_inv p"
  shows "roles_ok p" and "policy_requests_ok p"
    and "fmlookup (gp_invitations p) k = Some iv \<Longrightarrow> invite_ok p k iv"
    and "fmlookup (gp_invitations p) k = Some iv \<Longrightarrow> counters_ok p k iv"
    and "fmlookup (gp_pending_joins p) l = Some j \<Longrightarrow> pending_ok p l j"
    and "fmlookup (gp_reserved_joins p) l = Some r \<Longrightarrow> reserved_ok p l r"
    and "fmlookup (gp_approved_joins p) l = Some a \<Longrightarrow> approved_ok p l a"
  using assms unfolding group_inv_def fmpred_iff by blast+

lemma join_invite_exists:
  assumes "group_inv p"
  shows "fmlookup (gp_pending_joins p) l = Some j \<Longrightarrow> \<exists>iv. fmlookup (gp_invitations p) (pj_invite_id j) = Some iv"
    and "fmlookup (gp_reserved_joins p) l = Some r \<Longrightarrow> \<exists>iv. fmlookup (gp_invitations p) (rj_invite_id r) = Some iv"
    and "fmlookup (gp_approved_joins p) l = Some a \<Longrightarrow> \<exists>iv. fmlookup (gp_invitations p) (aj_invite_id a) = Some iv"
  using group_invD(5-7) [OF assms] by (simp_all add: record_ok_defs fmlookup_dom_iff)

section \<open>Frame lemmas\<close>

text \<open>
  A successful call moves to a state with a later revision, the same owner and scope, and
  generations that only grow. What a record says about itself survives such a move.
\<close>

definition grows :: "GroupPolicy \<Rightarrow> GroupPolicy \<Rightarrow> bool" where
  "grows p q =
     (gp_scope q = gp_scope p \<and> gp_owner_id q = gp_owner_id p \<and> gp_revision p \<le> gp_revision q
      \<and> (\<forall>a g. fmlookup (gp_generations p) a = Some g \<longrightarrow>
           (\<exists>h. fmlookup (gp_generations q) a = Some h \<and> g \<le> h))
      \<and> fmdom (gp_invitations p) |\<subseteq>| fmdom (gp_invitations q))"

lemma authority_known_grows:
  assumes "grows p q" "authority_known (gp_owner_id p) (gp_generations p) h a"
  shows "authority_known (gp_owner_id q) (gp_generations q) h a"
  using assms by (fastforce simp: grows_def authority_known_def split: InviteIssuerAuthority.splits option.splits
      intro: order.trans)

lemma records_grow:
  assumes "grows p q"
  shows "invite_ok p k iv \<Longrightarrow> invite_ok q k iv"
    and "pending_ok p l j \<Longrightarrow> pending_ok q l j"
    and "reserved_ok p l r \<Longrightarrow> reserved_ok q l r"
    and "approved_ok p l s \<Longrightarrow> approved_ok q l s"
  using assms authority_known_grows [OF assms]
  by (auto simp: record_ok_defs grows_def intro: order.trans)

lemma authority_known_issuer:
  assumes "invite_issuer_authority p a = Inr au"
  shows "authority_known (gp_owner_id p) (gp_generations p) a au"
  using assms by (auto simp: invite_issuer_authority_Ok authority_known_def)

lemma next_revision_le: "checked_next r = Inr n \<Longrightarrow> valid_revision r \<Longrightarrow> r \<le> n"
  using checked_next_succ(3) by (simp add: less_imp_le)

lemma group_inv_step:
  assumes inv: "group_inv p" and gr: "grows p q" and q: "roles_ok q" "policy_requests_ok q"
    and "\<And>k iv. fmlookup (gp_invitations q) k = Some iv \<Longrightarrow>
      fmlookup (gp_invitations p) k = Some iv \<or> invite_ok q k iv"
    and "\<And>k iv. fmlookup (gp_invitations q) k = Some iv \<Longrightarrow> counters_ok q k iv"
    and "\<And>k j. fmlookup (gp_pending_joins q) k = Some j \<Longrightarrow>
      fmlookup (gp_pending_joins p) k = Some j \<or> pending_ok q k j"
    and "\<And>k j. fmlookup (gp_reserved_joins q) k = Some j \<Longrightarrow>
      fmlookup (gp_reserved_joins p) k = Some j \<or> reserved_ok q k j"
    and "\<And>k j. fmlookup (gp_approved_joins q) k = Some j \<Longrightarrow>
      fmlookup (gp_approved_joins p) k = Some j \<or> approved_ok q k j"
  shows "group_inv q"
  using inv records_grow [OF gr] unfolding group_inv_def fmpred_iff
  by (meson assms(3-))

lemma roles_ok_revision:
  "roles_ok p \<Longrightarrow> checked_next (gp_revision p) = Inr n \<Longrightarrow> valid_revision n \<and> gp_revision p \<le> n"
  using checked_next_succ(2,3) [of "gp_revision p" n] by (simp add: roles_ok_def less_imp_le)

lemma next_generation_valid:
  assumes "roles_ok p" "next_admin_authorization_generation p b = Inr g"
  shows "valid_revision g" and "fmlookup (gp_generations p) b = Some h \<Longrightarrow> h < g"
  using assms checked_next_succ(2,3)
  by (auto simp: next_generation_Ok roles_ok_def fmpred_iff split: option.splits)

lemma fcard_minus_le: "fcard s \<le> n \<Longrightarrow> fcard (s |-| t) \<le> n"
  by (rule order.trans [OF fcard_mono]) auto

text \<open>The moves of a request between the three maps.\<close>

lemma one_each_mono: "one_each f \<Longrightarrow> (\<And>k c. g k = Some c \<Longrightarrow> f k = Some c) \<Longrightarrow> one_each g"
  unfolding one_each_def by blast

lemma apart_simps:
  "apart a b \<Longrightarrow> apart (fmdrop k a) b" "apart a b \<Longrightarrow> apart a (fmdrop k b)"
  "apart (fmdrop k a) b \<Longrightarrow> fmlookup b k = None \<Longrightarrow> apart (fmupd k v a) b"
  "apart a (fmdrop k b) \<Longrightarrow> fmlookup a k = None \<Longrightarrow> apart a (fmupd k w b)"
  by (auto simp: apart_def split: if_splits)

lemma apart_at: "apart a b \<Longrightarrow> fmlookup a k = Some v \<Longrightarrow> fmlookup b k = None"
  "apart a b \<Longrightarrow> fmlookup b k = Some w \<Longrightarrow> fmlookup a k = None"
  unfolding apart_def by (metis option.distinct(1))+

lemma active_candidate_request:
  "active_candidate (fmupd k j pend) res l =
     (if l = k then Some (pj_candidate_id j) else active_candidate pend res l)"
  by (simp add: active_candidate_def)

lemma active_candidate_drop:
  "fmlookup res k = None \<Longrightarrow> active_candidate (fmdrop k pend) res l = Some c \<Longrightarrow> active_candidate pend res l = Some c"
  "active_candidate pend (fmdrop k res) l = Some c \<Longrightarrow> active_candidate pend res l = Some c"
  by (auto simp: active_candidate_def split: option.splits if_splits)

lemma active_candidate_reserve:
  "fmlookup pend k = Some j \<Longrightarrow> rj_candidate_id x = pj_candidate_id j \<Longrightarrow>
     active_candidate (fmdrop k pend) (fmupd k x res) l = active_candidate pend res l"
  by (cases "l = k") (simp_all add: active_candidate_def split: option.split)

lemma requests_ok_request:
  assumes "requests_ok pend res appr" "fmlookup res k = None" "fmlookup appr k = None"
    "\<And>l. active_candidate pend res l \<noteq> Some (pj_candidate_id j)"
  shows "requests_ok (fmupd k j pend) res appr"
  using assms unfolding requests_ok_def one_each_def active_candidate_request
  by (auto intro: apart_simps)

lemma requests_ok_reserve:
  assumes "requests_ok pend res appr" "fmlookup pend k = Some j" "rj_candidate_id x = pj_candidate_id j"
  shows "requests_ok (fmdrop k pend) (fmupd k x res) appr"
  using assms(1) apart_at(1) [of pend appr k j] assms(2)
  unfolding requests_ok_def one_each_def active_candidate_reserve [OF assms(2,3)]
  by (auto intro!: apart_simps(3,4) simp: apart_simps(1,2))

lemma requests_ok_release:
  "requests_ok pend res appr \<Longrightarrow> requests_ok pend (fmdrop k res) appr"
  unfolding requests_ok_def
  by (auto simp: apart_simps(1,2) intro: one_each_mono active_candidate_drop)

lemma requests_ok_finalize:
  assumes "requests_ok pend res appr" "fmlookup res k = Some j"
  shows "requests_ok pend (fmdrop k res) (fmupd k x appr)"
  using assms apart_at(2) [of pend res k j] unfolding requests_ok_def
  by (auto simp: apart_simps intro: one_each_mono active_candidate_drop)

lemma requests_ok_approve:
  assumes "requests_ok pend res appr" "fmlookup pend k = Some j"
  shows "requests_ok (fmdrop k pend) res (fmupd k x appr)"
  using assms apart_at(1) [of pend res k j] unfolding requests_ok_def
  by (auto simp: apart_simps intro: one_each_mono active_candidate_drop)

section \<open>Every call keeps the invariant\<close>

lemma grant_admin_inv:
  assumes inv: "group_inv p" and "grant_admin r a b p = (Inr n, q)"
  shows "group_inv q"
proof -
  from assms(2) obtain g where c: "checked_next (gp_revision p) = Inr n" "b \<noteq> gp_owner_id p"
      "b |\<notin>| gp_administrators p" "fcard (gp_administrators p) < MAX_ADMINS"
    and g: "next_admin_authorization_generation p b = Inr g"
    and q: "q = p\<lparr> gp_administrators := finsert b (gp_administrators p),
            gp_generations := fmupd b g (gp_generations p),
            gp_members := finsert b (gp_members p), gp_revision := n \<rparr>"
    by (auto simp: grant_admin_Ok)
  from inv have ro: "roles_ok p" and re: "policy_requests_ok p" by (simp_all add: group_inv_def)
  note rev = roles_ok_revision [OF ro c(1)] and gen = next_generation_valid [OF ro g]
  show ?thesis
  proof (rule group_inv_step [OF inv])
    show "grows p q" using rev gen(2) by (auto simp: grows_def q less_imp_le)
    show "roles_ok q" using ro c rev gen(1) by (auto simp: roles_ok_def q fcard_finsert_disjoint)
    show "policy_requests_ok q" using re by (simp add: q)
  qed (use inv in \<open>auto simp: q group_inv_def counters_ok_def fmpred_iff\<close>)
qed

lemma revoke_admin_inv:
  assumes inv: "group_inv p" and "revoke_admin r a b p = (Inr n, q)"
  shows "group_inv q"
proof -
  from assms(2) have c: "checked_next (gp_revision p) = Inr n"
    and q: "q = p\<lparr> gp_administrators := gp_administrators p |-| {|b|}, gp_revision := n \<rparr>"
    by (auto simp: revoke_admin_Ok)
  from inv have ro: "roles_ok p" and re: "policy_requests_ok p" by (simp_all add: group_inv_def)
  note rev = roles_ok_revision [OF ro c]
  show ?thesis
  proof (rule group_inv_step [OF inv])
    show "grows p q" using rev by (auto simp: grows_def q)
    show "roles_ok q" using ro rev fcard_minus_le [of "gp_administrators p" MAX_ADMINS "{|b|}"]
      by (auto simp: roles_ok_def q)
    show "policy_requests_ok q" using re by (simp add: q)
  qed (use inv in \<open>auto simp: q group_inv_def counters_ok_def fmpred_iff\<close>)
qed

lemma remove_member_inv:
  assumes inv: "group_inv p" and "remove_member r a b p = (Inr n, q)"
  shows "group_inv q"
proof -
  from assms(2) have c: "checked_next (gp_revision p) = Inr n" "b \<noteq> gp_owner_id p"
    and q: "q = p\<lparr> gp_administrators := gp_administrators p |-| {|b|},
          gp_members := gp_members p |-| {|b|}, gp_revision := n \<rparr>"
    by (auto simp: remove_member_Ok)
  from inv have ro: "roles_ok p" and re: "policy_requests_ok p" by (simp_all add: group_inv_def)
  note rev = roles_ok_revision [OF ro c(1)]
  show ?thesis
  proof (rule group_inv_step [OF inv])
    show "grows p q" using rev by (auto simp: grows_def q)
    show "roles_ok q" using ro rev c(2) fcard_minus_le [of "gp_administrators p" MAX_ADMINS "{|b|}"]
      by (auto simp: roles_ok_def q)
    show "policy_requests_ok q" using re by (simp add: q)
  qed (use inv in \<open>auto simp: q group_inv_def counters_ok_def fmpred_iff\<close>)
qed

lemma issue_invite_inv:
  assumes inv: "group_inv p" and "issue_invite r a i t m ex now p = (Inr x, q)"
  shows "group_inv q"
proof -
  from assms(2) obtain n au where c: "checked_next (gp_revision p) = Inr n"
      and au: "invite_issuer_authority p a = Inr au" and i: "fmlookup (gp_invitations p) i = None"
    and m: "m \<noteq> 0" and x: "x = \<lparr> ic_invite_id = i, ic_scope = gp_scope p, ic_issuer_id = a, ic_target_id = t,
            ic_max_uses = m, ic_use_count = 0, ic_reserved_use_count = 0, ic_expires_at_ms = ex,
            ic_revoked = False, ic_policy_revision = gp_revision p, ic_issuer_authority = au \<rparr>"
    and q: "q = p\<lparr> gp_invitations := fmupd i x (gp_invitations p), gp_revision := n \<rparr>"
    by (auto simp: issue_invite_Ok)
  from inv have ro: "roles_ok p" and re: "policy_requests_ok p" by (simp_all add: group_inv_def)
  note rev = roles_ok_revision [OF ro c]
  have none: "fm_count (\<lambda>j. rj_invite_id j = i) (gp_reserved_joins p) = 0"
    "fm_count (\<lambda>j. aj_invite_id j = i) (gp_approved_joins p) = 0"
    using join_invite_exists(2,3) [OF inv] i by (force intro!: fm_count_zero)+
  show ?thesis
  proof (rule group_inv_step [OF inv])
    show "grows p q" using rev by (auto simp: grows_def q)
    show "roles_ok q" using ro rev by (auto simp: roles_ok_def q)
    show "policy_requests_ok q" using re by (simp add: q)
    show "counters_ok q k iv" if "fmlookup (gp_invitations q) k = Some iv" for k iv
      using that inv none by (auto simp: q x group_inv_def fmpred_iff counters_ok_def split: if_splits)
  qed (use authority_known_issuer [OF au] rev m in \<open>auto simp: q x invite_ok_def split: if_splits\<close>)
qed

lemma revoke_invite_inv:
  assumes inv: "group_inv p" and "revoke_invite r a i p = (Inr n, q)"
  shows "group_inv q"
proof -
  from assms(2) obtain iv where c: "checked_next (gp_revision p) = Inr n"
    and iv: "fmlookup (gp_invitations p) i = Some iv"
    and q: "q = p\<lparr> gp_invitations := fmupd i (iv\<lparr> ic_revoked := True \<rparr>) (gp_invitations p), gp_revision := n \<rparr>"
    by (auto simp: revoke_invite_Ok)
  from inv have ro: "roles_ok p" and re: "policy_requests_ok p" by (simp_all add: group_inv_def)
  note rev = roles_ok_revision [OF ro c]
  show ?thesis
  proof (rule group_inv_step [OF inv])
    show gr: "grows p q" using rev by (auto simp: grows_def q)
    show "roles_ok q" using ro rev by (auto simp: roles_ok_def q)
    show "policy_requests_ok q" using re by (simp add: q)
    have "invite_ok q i iv" using inv iv records_grow(1) [OF gr] by (simp add: group_inv_def fmpred_iff)
    then show "fmlookup (gp_invitations p) k = Some v \<or> invite_ok q k v"
      if "fmlookup (gp_invitations q) k = Some v" for k v
      using that by (auto simp: q invite_ok_def split: if_splits)
  qed (use inv iv in \<open>auto simp: q group_inv_def counters_ok_def fmpred_iff split: if_splits\<close>)
qed

lemma request_join_inv:
  assumes inv: "group_inv p" and "request_join r a c k i now p = (Inr x, q)"
  shows "group_inv q"
proof -
  from assms(2) obtain n iv where n: "checked_next (gp_revision p) = Inr n"
    and k: "fmlookup (gp_reserved_joins p) k = None" "fmlookup (gp_approved_joins p) k = None"
    and act: "\<not> candidate_has_active_join p c" and iv: "fmlookup (gp_invitations p) i = Some iv"
    and x: "x = \<lparr> pj_request_id = k, pj_candidate_id = c, pj_invite_id = i, pj_requested_at_ms = now \<rparr>"
    and q: "q = p\<lparr> gp_pending_joins := fmupd k x (gp_pending_joins p), gp_revision := n \<rparr>"
    by (auto simp: request_join_Ok)
  from inv have ro: "roles_ok p" and re: "policy_requests_ok p" by (simp_all add: group_inv_def)
  note rev = roles_ok_revision [OF ro n]
  have fresh: "active_candidate (gp_pending_joins p) (gp_reserved_joins p) l \<noteq> Some (pj_candidate_id x)" for l
    using act by (auto simp: candidate_has_active_join_iff active_candidate_def x split: option.splits)
  show ?thesis
  proof (rule group_inv_step [OF inv])
    show gr: "grows p q" using rev by (auto simp: grows_def q)
    show "roles_ok q" using ro rev by (auto simp: roles_ok_def q)
    show "policy_requests_ok q" using requests_ok_request [OF re k fresh] by (simp add: q)
  qed (use inv iv in \<open>auto simp: q x group_inv_def counters_ok_def pending_ok_def fmpred_iff fmlookup_dom_iff split: if_splits\<close>)
qed

lemma reserve_join_inv:
  assumes inv: "group_inv p" and "reserve_join r a k now p = (Inr x, q)"
  shows "group_inv q"
proof -
  from assms(2) obtain n au j iv w where n: "checked_next (gp_revision p) = Inr n"
    and au: "invite_issuer_authority p a = Inr au" and k: "fmlookup (gp_reserved_joins p) k = None"
    and j: "fmlookup (gp_pending_joins p) k = Some j"
    and iv: "fmlookup (gp_invitations p) (pj_invite_id j) = Some iv"
    and us: "ensure_invite_usable p iv (pj_candidate_id j) now = Inr ()"
    and w: "checked_add (ic_reserved_use_count iv) 1 = Some w"
    and x: "x = \<lparr> rj_request_id = k, rj_candidate_id = pj_candidate_id j, rj_invite_id = pj_invite_id j,
            rj_reserved_by = a, rj_reserved_authority = au, rj_reserved_at_ms = now,
            rj_policy_revision = gp_revision p \<rparr>"
    and q: "q = p\<lparr> gp_invitations := fmupd (pj_invite_id j) (iv\<lparr> ic_reserved_use_count := w \<rparr>) (gp_invitations p),
            gp_pending_joins := fmdrop k (gp_pending_joins p),
            gp_reserved_joins := fmupd k x (gp_reserved_joins p), gp_revision := n \<rparr>"
    unfolding reserve_join_Ok by blast
  from inv have ro: "roles_ok p" and re: "policy_requests_ok p" by (simp_all add: group_inv_def)
  note rev = roles_ok_revision [OF ro n]
  note up = w [unfolded counter_up] and room = us [unfolded ensure_invite_usable_Ok]
  show ?thesis
  proof (rule group_inv_step [OF inv])
    show gr: "grows p q" using rev by (auto simp: grows_def q)
    show "roles_ok q" using ro rev by (auto simp: roles_ok_def q)
    show "policy_requests_ok q" using requests_ok_reserve [OF re j, of x] by (simp add: q x)
    have "invite_ok q (pj_invite_id j) iv" using inv iv records_grow(1) [OF gr] by (simp add: group_inv_def fmpred_iff)
    then show "fmlookup (gp_invitations p) l = Some v \<or> invite_ok q l v"
      if "fmlookup (gp_invitations q) l = Some v" for l v
      using that up room by (auto simp: q invite_ok_def split: if_splits)
    show "counters_ok q l v" if "fmlookup (gp_invitations q) l = Some v" for l v
      using that inv iv k up by (auto simp: q x group_inv_def fmpred_iff counters_ok_def fm_count_upd_new split: if_splits)
  qed (use inv iv authority_known_issuer [OF au] rev in
      \<open>auto simp: q x reserved_ok_def fmlookup_dom_iff split: if_splits\<close>)
qed

lemma finalize_reserved_join_inv:
  assumes inv: "group_inv p" and "finalize_reserved_join r k now p = (Inr x, q)"
  shows "group_inv q"
proof -
  from assms(2) obtain n j iv w u where n: "checked_next (gp_revision p) = Inr n"
    and k: "fmlookup (gp_approved_joins p) k = None" and j: "fmlookup (gp_reserved_joins p) k = Some j"
    and iv: "fmlookup (gp_invitations p) (rj_invite_id j) = Some iv"
    and w: "checked_sub (ic_reserved_use_count iv) 1 = Some w" and u: "checked_add (ic_use_count iv) 1 = Some u"
    and x: "x = \<lparr> aj_request_id = k, aj_candidate_id = rj_candidate_id j, aj_invite_id = rj_invite_id j,
            aj_approved_by = rj_reserved_by j, aj_approved_at_ms = now,
            aj_policy_revision = rj_policy_revision j \<rparr>"
    and q: "q = p\<lparr> gp_invitations := fmupd (rj_invite_id j)
              (iv\<lparr> ic_reserved_use_count := w, ic_use_count := u \<rparr>) (gp_invitations p),
            gp_reserved_joins := fmdrop k (gp_reserved_joins p),
            gp_members := finsert (rj_candidate_id j) (gp_members p),
            gp_approved_joins := fmupd k x (gp_approved_joins p), gp_revision := n \<rparr>"
    unfolding finalize_reserved_join_Ok by blast
  note ro = group_invD(1) [OF inv] and re = group_invD(2) [OF inv]
  note rev = roles_ok_revision [OF ro n]
  note down = w [unfolded counter_down] and up = u [unfolded counter_up]
  note drop = fm_count_drop [OF j]
  show ?thesis
  proof (rule group_inv_step [OF inv])
    show gr: "grows p q" using rev by (auto simp: grows_def q)
    show "roles_ok q" using ro rev by (auto simp: roles_ok_def q)
    show "policy_requests_ok q" using requests_ok_finalize [OF re j] by (simp add: q)
    have "invite_ok q (rj_invite_id j) iv" by (rule records_grow(1) [OF gr group_invD(3) [OF inv iv]])
    then show "fmlookup (gp_invitations p) l = Some v \<or> invite_ok q l v"
      if "fmlookup (gp_invitations q) l = Some v" for l v
      using that up down by (auto simp: q invite_ok_def split: if_splits)
    show "counters_ok q l v" if "fmlookup (gp_invitations q) l = Some v" for l v
      using that group_invD(4) [OF inv] iv k up down drop [of "\<lambda>j. rj_invite_id j = l"]
      by (fastforce simp: q x counters_ok_def fm_count_upd_new split: if_splits)
    show "fmlookup (gp_approved_joins p) l = Some v \<or> approved_ok q l v"
      if "fmlookup (gp_approved_joins q) l = Some v" for l v
      using that group_invD(6) [OF inv j] rev
      by (auto simp: q x record_ok_defs fmlookup_dom_iff intro: order.trans split: if_splits)
  qed (auto simp: q split: if_splits)
qed

lemma release_join_reservation_inv:
  assumes inv: "group_inv p" and "release_join_reservation r k p = (Inr j, q)"
  shows "group_inv q"
proof -
  from assms(2) obtain n iv w where n: "checked_next (gp_revision p) = Inr n"
    and j: "fmlookup (gp_reserved_joins p) k = Some j"
    and iv: "fmlookup (gp_invitations p) (rj_invite_id j) = Some iv"
    and w: "checked_sub (ic_reserved_use_count iv) 1 = Some w"
    and q: "q = p\<lparr> gp_invitations := fmupd (rj_invite_id j) (iv\<lparr> ic_reserved_use_count := w \<rparr>) (gp_invitations p),
            gp_reserved_joins := fmdrop k (gp_reserved_joins p), gp_revision := n \<rparr>"
    unfolding release_join_reservation_Ok by blast
  note ro = group_invD(1) [OF inv] and re = group_invD(2) [OF inv]
  note rev = roles_ok_revision [OF ro n]
  note down = w [unfolded counter_down] and drop = fm_count_drop [OF j]
  show ?thesis
  proof (rule group_inv_step [OF inv])
    show gr: "grows p q" using rev by (auto simp: grows_def q)
    show "roles_ok q" using ro rev by (auto simp: roles_ok_def q)
    show "policy_requests_ok q" using requests_ok_release [OF re] by (simp add: q)
    have "invite_ok q (rj_invite_id j) iv" by (rule records_grow(1) [OF gr group_invD(3) [OF inv iv]])
    then show "fmlookup (gp_invitations p) l = Some v \<or> invite_ok q l v"
      if "fmlookup (gp_invitations q) l = Some v" for l v
      using that down by (auto simp: q invite_ok_def split: if_splits)
    show "counters_ok q l v" if "fmlookup (gp_invitations q) l = Some v" for l v
      using that group_invD(4) [OF inv] iv down drop [of "\<lambda>j. rj_invite_id j = l"]
      by (fastforce simp: q counters_ok_def split: if_splits)
  qed (auto simp: q split: if_splits)
qed

lemma approve_join_inv:
  assumes inv: "group_inv p" and "approve_join r a k now p = (Inr x, q)"
  shows "group_inv q"
proof -
  from assms(2) obtain n j iv u where n: "checked_next (gp_revision p) = Inr n"
    and k: "fmlookup (gp_approved_joins p) k = None" and j: "fmlookup (gp_pending_joins p) k = Some j"
    and iv: "fmlookup (gp_invitations p) (pj_invite_id j) = Some iv"
    and us: "ensure_invite_usable p iv (pj_candidate_id j) now = Inr ()"
    and u: "checked_add (ic_use_count iv) 1 = Some u"
    and x: "x = \<lparr> aj_request_id = k, aj_candidate_id = pj_candidate_id j, aj_invite_id = pj_invite_id j,
            aj_approved_by = a, aj_approved_at_ms = now, aj_policy_revision = gp_revision p \<rparr>"
    and q: "q = p\<lparr> gp_invitations := fmupd (pj_invite_id j) (iv\<lparr> ic_use_count := u \<rparr>) (gp_invitations p),
            gp_members := finsert (pj_candidate_id j) (gp_members p),
            gp_pending_joins := fmdrop k (gp_pending_joins p),
            gp_approved_joins := fmupd k x (gp_approved_joins p), gp_revision := n \<rparr>"
    unfolding approve_join_Ok by blast
  note ro = group_invD(1) [OF inv] and re = group_invD(2) [OF inv]
  note rev = roles_ok_revision [OF ro n]
  note up = u [unfolded counter_up] and room = us [unfolded ensure_invite_usable_Ok]
  show ?thesis
  proof (rule group_inv_step [OF inv])
    show gr: "grows p q" using rev by (auto simp: grows_def q)
    show "roles_ok q" using ro rev by (auto simp: roles_ok_def q)
    show "policy_requests_ok q" using requests_ok_approve [OF re j] by (simp add: q)
    have "invite_ok q (pj_invite_id j) iv" by (rule records_grow(1) [OF gr group_invD(3) [OF inv iv]])
    then show "fmlookup (gp_invitations p) l = Some v \<or> invite_ok q l v"
      if "fmlookup (gp_invitations q) l = Some v" for l v
      using that up room by (auto simp: q invite_ok_def split: if_splits)
    show "counters_ok q l v" if "fmlookup (gp_invitations q) l = Some v" for l v
      using that group_invD(4) [OF inv] iv k up
      by (fastforce simp: q x counters_ok_def fm_count_upd_new split: if_splits)
  qed (use rev iv in \<open>auto simp: q x approved_ok_def fmlookup_dom_iff split: if_splits\<close>)
qed

end
