(* ===== verification/Group_Snapshot.thy ===== *)
theory Group_Snapshot
  imports Group_Invariant
begin

text \<open>
  Persistence of the group aggregate: the snapshot of its state, the image a repository stores,
  and the validator that rebuilds the aggregate. The validator is one long function in the
  source; each of its loops is a definition here, with the loop body as a function of the item
  and of the variables the loop changes.
\<close>

section \<open>Snapshots and images\<close>

record GroupPolicySnapshot =
  gs_scope :: GroupScope
  gs_owner_id :: IdentityId
  gs_administrators :: "IdentityId list"
  gs_generations :: "(IdentityId \<times> Revision) list"
  gs_members :: "IdentityId list"
  gs_invitations :: "InviteCapability list"
  gs_pending_joins :: "PendingJoinRequest list"
  gs_reserved_joins :: "ReservedJoin list"
  gs_approved_joins :: "ApprovedJoin list"
  gs_revision :: Revision

datatype GroupAuthorityPersistence = PersistedOwner | PersistedAdmin Revision

record GroupInvitePersistence =
  gip_invite_id :: InviteCapabilityId
  gip_issuer_id :: IdentityId
  gip_target_id :: "IdentityId option"
  gip_max_uses :: u32
  gip_use_count :: u32
  gip_reserved_use_count :: u32
  gip_expires_at_ms :: int
  gip_revoked :: bool
  gip_policy_revision :: Revision
  gip_issuer_authority :: GroupAuthorityPersistence

record GroupPendingJoinPersistence =
  gpp_request_id :: JoinRequestId
  gpp_candidate_id :: IdentityId
  gpp_invite_id :: InviteCapabilityId
  gpp_requested_at_ms :: int

record GroupReservedJoinPersistence =
  grp_request_id :: JoinRequestId
  grp_candidate_id :: IdentityId
  grp_invite_id :: InviteCapabilityId
  grp_reserved_by :: IdentityId
  grp_reserved_authority :: GroupAuthorityPersistence
  grp_reserved_at_ms :: int
  grp_policy_revision :: Revision

record GroupApprovedJoinPersistence =
  gap_request_id :: JoinRequestId
  gap_candidate_id :: IdentityId
  gap_invite_id :: InviteCapabilityId
  gap_approved_by :: IdentityId
  gap_approved_at_ms :: int
  gap_policy_revision :: Revision

record GroupPolicyPersistenceImage =
  gi_scope :: GroupScope
  gi_owner_id :: IdentityId
  gi_administrators :: "IdentityId list"
  gi_generations :: "(IdentityId \<times> Revision) list"
  gi_members :: "IdentityId list"
  gi_invitations :: "GroupInvitePersistence list"
  gi_pending_joins :: "GroupPendingJoinPersistence list"
  gi_reserved_joins :: "GroupReservedJoinPersistence list"
  gi_approved_joins :: "GroupApprovedJoinPersistence list"
  gi_revision :: Revision

datatype GroupPolicySnapshotError = InvalidSnapshot string

definition invalid_snapshot :: "string \<Rightarrow> GroupPolicySnapshotError" where
  "invalid_snapshot reason = InvalidSnapshot reason"

definition snapshot :: "GroupPolicy \<Rightarrow> GroupPolicySnapshot" where
  "snapshot self =
     \<lparr> gs_scope = gp_scope self, gs_owner_id = gp_owner_id self,
       gs_administrators = sorted_list_of_fset (gp_administrators self),
       gs_generations = sorted_list_of_fmap (gp_generations self),
       gs_members = sorted_list_of_fset (gp_members self),
       gs_invitations = fm_values (gp_invitations self),
       gs_pending_joins = fm_values (gp_pending_joins self),
       gs_reserved_joins = fm_values (gp_reserved_joins self),
       gs_approved_joins = fm_values (gp_approved_joins self),
       gs_revision = gp_revision self \<rparr>"

section \<open>The validator\<close>

definition collect_snapshot_set ::
  "'a::linorder list \<Rightarrow> string \<Rightarrow> GroupPolicySnapshotError + 'a fset" where
  "collect_snapshot_set values duplicate_reason =
     for_each (\<lambda>v values_by_key.
       if v |\<in>| values_by_key then Inl (invalid_snapshot duplicate_reason)
       else Inr (finsert v values_by_key)) values {||}"

definition increment_snapshot_count ::
  "(InviteCapabilityId, u32) fmap \<Rightarrow> InviteCapabilityId \<Rightarrow> string
    \<Rightarrow> GroupPolicySnapshotError + (InviteCapabilityId, u32) fmap" where
  "increment_snapshot_count counts invite_id overflow_reason =
     (let count = (case fmlookup counts invite_id of None \<Rightarrow> 0 | Some c \<Rightarrow> c)
      in res_bind (ok_or (invalid_snapshot overflow_reason) (checked_add count 1)) (\<lambda>count.
           Inr (fmupd invite_id count counts)))"

definition check_generation ::
  "IdentityId \<Rightarrow> IdentityId \<times> Revision \<Rightarrow> (IdentityId, Revision) fmap
    \<Rightarrow> GroupPolicySnapshotError + (IdentityId, Revision) fmap" where
  "check_generation owner_id entry generations =
     (case entry of (identity_id, generation) \<Rightarrow>
        if identity_id = owner_id \<or> contains_key generations identity_id
        then Inl (invalid_snapshot ''duplicate or owner administrator generation'')
        else Inr (fmupd identity_id generation generations))"

definition check_authority ::
  "IdentityId \<Rightarrow> (IdentityId, Revision) fmap \<Rightarrow> string \<Rightarrow> string \<Rightarrow> IdentityId \<Rightarrow> InviteIssuerAuthority
    \<Rightarrow> GroupPolicySnapshotError + unit" where
  "check_authority owner_id generations owner_reason generation_reason holder authority =
     (case authority of
        AuthorityOwner \<Rightarrow> if holder \<noteq> owner_id then Inl (invalid_snapshot owner_reason) else Inr ()
      | AuthorityAdmin g \<Rightarrow>
          if (case fmlookup generations holder of None \<Rightarrow> True | Some current \<Rightarrow> current < g)
          then Inl (invalid_snapshot generation_reason) else Inr ())"

definition check_invitation ::
  "GroupPolicySnapshot \<Rightarrow> (IdentityId, Revision) fmap \<Rightarrow> InviteCapability
    \<Rightarrow> (InviteCapabilityId, InviteCapability) fmap
    \<Rightarrow> GroupPolicySnapshotError + (InviteCapabilityId, InviteCapability) fmap" where
  "check_invitation snap generations iv invitations =
     (if ic_scope iv \<noteq> gs_scope snap \<or> ic_max_uses iv = 0
      then Inl (invalid_snapshot ''invalid invitation scope or use limit'')
      else res_bind (ok_or (invalid_snapshot ''invitation use count overflow'')
          (checked_add (ic_use_count iv) (ic_reserved_use_count iv))) (\<lambda>occupied_uses.
        if occupied_uses > ic_max_uses iv \<or> ic_policy_revision iv > gs_revision snap
        then Inl (invalid_snapshot ''invalid invitation use or policy revision'')
        else res_bind (check_authority (gs_owner_id snap) generations
            ''owner invitation has another issuer'' ''invitation authority generation mismatch''
            (ic_issuer_id iv) (ic_issuer_authority iv)) (\<lambda>_.
          if contains_key invitations (ic_invite_id iv) then Inl (invalid_snapshot ''duplicate invitation'')
          else Inr (fmupd (ic_invite_id iv) iv invitations))))"

definition check_pending ::
  "(InviteCapabilityId, InviteCapability) fmap \<Rightarrow> IdentityId fset \<Rightarrow> PendingJoinRequest
    \<Rightarrow> JoinRequestId fset \<times> IdentityId fset \<times> (JoinRequestId, PendingJoinRequest) fmap
    \<Rightarrow> GroupPolicySnapshotError
       + JoinRequestId fset \<times> IdentityId fset \<times> (JoinRequestId, PendingJoinRequest) fmap" where
  "check_pending invitations members pending vars =
     (case vars of (seen_join_ids, active_candidates, pending_joins) \<Rightarrow>
        if pj_request_id pending |\<in>| seen_join_ids
          \<or> \<not> contains_key invitations (pj_invite_id pending)
          \<or> pj_candidate_id pending |\<in>| members
          \<or> pj_candidate_id pending |\<in>| active_candidates
        then Inl (invalid_snapshot ''invalid pending join'')
        else Inr (finsert (pj_request_id pending) seen_join_ids,
                  finsert (pj_candidate_id pending) active_candidates,
                  fmupd (pj_request_id pending) pending pending_joins))"

definition check_reserved ::
  "GroupPolicySnapshot \<Rightarrow> (IdentityId, Revision) fmap \<Rightarrow> (InviteCapabilityId, InviteCapability) fmap
    \<Rightarrow> IdentityId fset \<Rightarrow> ReservedJoin
    \<Rightarrow> JoinRequestId fset \<times> IdentityId fset \<times> (InviteCapabilityId, u32) fmap \<times> (JoinRequestId, ReservedJoin) fmap
    \<Rightarrow> GroupPolicySnapshotError
       + JoinRequestId fset \<times> IdentityId fset \<times> (InviteCapabilityId, u32) fmap \<times> (JoinRequestId, ReservedJoin) fmap" where
  "check_reserved snap generations invitations members reserved vars =
     (case vars of (seen_join_ids, active_candidates, expected_reservations, reserved_joins) \<Rightarrow>
        if rj_request_id reserved |\<in>| seen_join_ids
          \<or> \<not> contains_key invitations (rj_invite_id reserved)
          \<or> rj_candidate_id reserved |\<in>| members
          \<or> rj_candidate_id reserved |\<in>| active_candidates
          \<or> rj_policy_revision reserved > gs_revision snap
        then Inl (invalid_snapshot ''invalid membership reservation'')
        else res_bind (check_authority (gs_owner_id snap) generations
            ''owner reservation has another issuer'' ''reservation authority generation mismatch''
            (rj_reserved_by reserved) (rj_reserved_authority reserved)) (\<lambda>_.
          res_bind (increment_snapshot_count expected_reservations (rj_invite_id reserved)
              ''reservation count overflow'') (\<lambda>expected_reservations.
          Inr (finsert (rj_request_id reserved) seen_join_ids,
               finsert (rj_candidate_id reserved) active_candidates,
               expected_reservations,
               fmupd (rj_request_id reserved) reserved reserved_joins))))"

definition check_approved ::
  "GroupPolicySnapshot \<Rightarrow> (InviteCapabilityId, InviteCapability) fmap \<Rightarrow> IdentityId fset \<Rightarrow> ApprovedJoin
    \<Rightarrow> JoinRequestId fset \<times> (InviteCapabilityId, u32) fmap \<times> (JoinRequestId, ApprovedJoin) fmap
    \<Rightarrow> GroupPolicySnapshotError
       + JoinRequestId fset \<times> (InviteCapabilityId, u32) fmap \<times> (JoinRequestId, ApprovedJoin) fmap" where
  "check_approved snap invitations members approved vars =
     (case vars of (seen_join_ids, expected_uses, approved_joins) \<Rightarrow>
        if aj_request_id approved |\<in>| seen_join_ids
          \<or> \<not> contains_key invitations (aj_invite_id approved)
          \<or> aj_candidate_id approved |\<notin>| members
          \<or> aj_policy_revision approved > gs_revision snap
        then Inl (invalid_snapshot ''invalid approved join'')
        else res_bind (increment_snapshot_count expected_uses (aj_invite_id approved)
              ''approved use count overflow'') (\<lambda>expected_uses.
          Inr (finsert (aj_request_id approved) seen_join_ids, expected_uses,
               fmupd (aj_request_id approved) approved approved_joins)))"

definition counters_match ::
  "(InviteCapabilityId, u32) fmap \<Rightarrow> (InviteCapabilityId, u32) fmap
    \<Rightarrow> (InviteCapabilityId, InviteCapability) fmap \<Rightarrow> GroupPolicySnapshotError + unit" where
  "counters_match expected_reservations expected_uses invitations =
     (if fm_any (\<lambda>invite_id iv.
           (case fmlookup expected_reservations invite_id of None \<Rightarrow> 0 | Some c \<Rightarrow> c) \<noteq> ic_reserved_use_count iv
           \<or> (case fmlookup expected_uses invite_id of None \<Rightarrow> 0 | Some c \<Rightarrow> c) \<noteq> ic_use_count iv) invitations
      then Inl (invalid_snapshot ''invitation counters do not match join history'') else Inr ())"

definition group_policy_from_snapshot ::
  "GroupPolicySnapshot \<Rightarrow> GroupPolicySnapshotError + GroupPolicy" where
  "group_policy_from_snapshot snap =
     res_bind (collect_snapshot_set (gs_members snap) ''duplicate member'') (\<lambda>members.
     if gs_owner_id snap |\<notin>| members then Inl (invalid_snapshot ''owner is not a member'')
     else res_bind (collect_snapshot_set (gs_administrators snap) ''duplicate administrator'') (\<lambda>administrators.
     if fcard administrators > MAX_ADMINS then Inl (invalid_snapshot ''administrator limit exceeded'')
     else if gs_owner_id snap |\<in>| administrators then Inl (invalid_snapshot ''owner is an administrator'')
     else if \<not> administrators |\<subseteq>| members then Inl (invalid_snapshot ''administrator is not a member'')
     else res_bind (for_each (check_generation (gs_owner_id snap)) (gs_generations snap) fmempty) (\<lambda>generations.
     if list_ex (\<lambda>identity_id. \<not> contains_key generations identity_id) (sorted_list_of_fset administrators)
     then Inl (invalid_snapshot ''administrator lacks authority generation'')
     else res_bind (for_each (check_invitation snap generations) (gs_invitations snap) fmempty) (\<lambda>invitations.
     res_bind (for_each (check_pending invitations members) (gs_pending_joins snap)
         ({||}, {||}, fmempty)) (\<lambda>(seen_join_ids, active_candidates, pending_joins).
     res_bind (for_each (check_reserved snap generations invitations members) (gs_reserved_joins snap)
         (seen_join_ids, active_candidates, fmempty, fmempty))
       (\<lambda>(seen_join_ids, active_candidates, expected_reservations, reserved_joins).
     res_bind (for_each (check_approved snap invitations members) (gs_approved_joins snap)
         (seen_join_ids, fmempty, fmempty)) (\<lambda>(seen_join_ids, expected_uses, approved_joins).
     res_bind (counters_match expected_reservations expected_uses invitations) (\<lambda>_.
     Inr \<lparr> gp_scope = gs_scope snap, gp_owner_id = gs_owner_id snap, gp_administrators = administrators,
           gp_generations = generations, gp_members = members, gp_invitations = invitations,
           gp_pending_joins = pending_joins, gp_reserved_joins = reserved_joins,
           gp_approved_joins = approved_joins, gp_revision = gs_revision snap \<rparr>))))))))"

definition try_from_snapshot :: "GroupPolicySnapshot \<Rightarrow> GroupPolicySnapshotError + GroupPolicy" where
  "try_from_snapshot snap = group_policy_from_snapshot snap"

section \<open>Persistence images\<close>

definition authority_persistence :: "InviteIssuerAuthority \<Rightarrow> GroupAuthorityPersistence" where
  "authority_persistence authority =
     (case authority of AuthorityOwner \<Rightarrow> PersistedOwner | AuthorityAdmin g \<Rightarrow> PersistedAdmin g)"

definition authority_from_persistence :: "GroupAuthorityPersistence \<Rightarrow> InviteIssuerAuthority" where
  "authority_from_persistence authority =
     (case authority of PersistedOwner \<Rightarrow> AuthorityOwner | PersistedAdmin g \<Rightarrow> AuthorityAdmin g)"

definition invite_image :: "InviteCapability \<Rightarrow> GroupInvitePersistence" where
  "invite_image iv =
     \<lparr> gip_invite_id = ic_invite_id iv, gip_issuer_id = ic_issuer_id iv, gip_target_id = ic_target_id iv,
       gip_max_uses = ic_max_uses iv, gip_use_count = ic_use_count iv,
       gip_reserved_use_count = ic_reserved_use_count iv, gip_expires_at_ms = ic_expires_at_ms iv,
       gip_revoked = ic_revoked iv, gip_policy_revision = ic_policy_revision iv,
       gip_issuer_authority = authority_persistence (ic_issuer_authority iv) \<rparr>"

definition pending_image :: "PendingJoinRequest \<Rightarrow> GroupPendingJoinPersistence" where
  "pending_image j =
     \<lparr> gpp_request_id = pj_request_id j, gpp_candidate_id = pj_candidate_id j,
       gpp_invite_id = pj_invite_id j, gpp_requested_at_ms = pj_requested_at_ms j \<rparr>"

definition reserved_image :: "ReservedJoin \<Rightarrow> GroupReservedJoinPersistence" where
  "reserved_image j =
     \<lparr> grp_request_id = rj_request_id j, grp_candidate_id = rj_candidate_id j, grp_invite_id = rj_invite_id j,
       grp_reserved_by = rj_reserved_by j,
       grp_reserved_authority = authority_persistence (rj_reserved_authority j),
       grp_reserved_at_ms = rj_reserved_at_ms j, grp_policy_revision = rj_policy_revision j \<rparr>"

definition approved_image :: "ApprovedJoin \<Rightarrow> GroupApprovedJoinPersistence" where
  "approved_image j =
     \<lparr> gap_request_id = aj_request_id j, gap_candidate_id = aj_candidate_id j, gap_invite_id = aj_invite_id j,
       gap_approved_by = aj_approved_by j, gap_approved_at_ms = aj_approved_at_ms j,
       gap_policy_revision = aj_policy_revision j \<rparr>"

definition persistence_image :: "GroupPolicySnapshot \<Rightarrow> GroupPolicyPersistenceImage" where
  "persistence_image self =
     \<lparr> gi_scope = gs_scope self, gi_owner_id = gs_owner_id self,
       gi_administrators = gs_administrators self, gi_generations = gs_generations self,
       gi_members = gs_members self, gi_invitations = map invite_image (gs_invitations self),
       gi_pending_joins = map pending_image (gs_pending_joins self),
       gi_reserved_joins = map reserved_image (gs_reserved_joins self),
       gi_approved_joins = map approved_image (gs_approved_joins self),
       gi_revision = gs_revision self \<rparr>"

definition invite_of_image :: "GroupScope \<Rightarrow> GroupInvitePersistence \<Rightarrow> InviteCapability" where
  "invite_of_image scope iv =
     \<lparr> ic_invite_id = gip_invite_id iv, ic_scope = scope, ic_issuer_id = gip_issuer_id iv,
       ic_target_id = gip_target_id iv, ic_max_uses = gip_max_uses iv, ic_use_count = gip_use_count iv,
       ic_reserved_use_count = gip_reserved_use_count iv, ic_expires_at_ms = gip_expires_at_ms iv,
       ic_revoked = gip_revoked iv, ic_policy_revision = gip_policy_revision iv,
       ic_issuer_authority = authority_from_persistence (gip_issuer_authority iv) \<rparr>"

definition pending_of_image :: "GroupPendingJoinPersistence \<Rightarrow> PendingJoinRequest" where
  "pending_of_image j =
     \<lparr> pj_request_id = gpp_request_id j, pj_candidate_id = gpp_candidate_id j,
       pj_invite_id = gpp_invite_id j, pj_requested_at_ms = gpp_requested_at_ms j \<rparr>"

definition reserved_of_image :: "GroupReservedJoinPersistence \<Rightarrow> ReservedJoin" where
  "reserved_of_image j =
     \<lparr> rj_request_id = grp_request_id j, rj_candidate_id = grp_candidate_id j, rj_invite_id = grp_invite_id j,
       rj_reserved_by = grp_reserved_by j,
       rj_reserved_authority = authority_from_persistence (grp_reserved_authority j),
       rj_reserved_at_ms = grp_reserved_at_ms j, rj_policy_revision = grp_policy_revision j \<rparr>"

definition approved_of_image :: "GroupApprovedJoinPersistence \<Rightarrow> ApprovedJoin" where
  "approved_of_image j =
     \<lparr> aj_request_id = gap_request_id j, aj_candidate_id = gap_candidate_id j, aj_invite_id = gap_invite_id j,
       aj_approved_by = gap_approved_by j, aj_approved_at_ms = gap_approved_at_ms j,
       aj_policy_revision = gap_policy_revision j \<rparr>"

definition try_from_persistence_image ::
  "GroupPolicyPersistenceImage \<Rightarrow> GroupPolicySnapshotError + GroupPolicySnapshot" where
  "try_from_persistence_image image1 =
     (let snap = \<lparr> gs_scope = gi_scope image1, gs_owner_id = gi_owner_id image1,
            gs_administrators = gi_administrators image1, gs_generations = gi_generations image1,
            gs_members = gi_members image1,
            gs_invitations = map (invite_of_image (gi_scope image1)) (gi_invitations image1),
            gs_pending_joins = map pending_of_image (gi_pending_joins image1),
            gs_reserved_joins = map reserved_of_image (gi_reserved_joins image1),
            gs_approved_joins = map approved_of_image (gi_approved_joins image1),
            gs_revision = gi_revision image1 \<rparr>
      in res_bind (try_from_snapshot snap) (\<lambda>_. Inr snap))"

end
