(* ===== verification/Group_Validator.thy ===== *)
theory Group_Validator
  imports Group_Snapshot
begin

text \<open>
  What the snapshot validator accepts: an equivalence per loop, composed into one description
  of the accepted snapshots and of the aggregate each of them gives.
\<close>

section \<open>Loops\<close>

definition put :: "('v \<Rightarrow> 'k) \<Rightarrow> 'v list \<Rightarrow> ('k, 'v) fmap \<Rightarrow> ('k, 'v) fmap" where
  "put key xs m = fold (\<lambda>x. fmupd (key x) x) xs m"

lemma put_simps [simp]: "put key [] m = m" "put key (x # xs) m = put key xs (fmupd (key x) x m)"
  by (simp_all add: put_def)

lemma fmlookup_put:
  "distinct (map key xs) \<Longrightarrow>
   fmlookup (put key xs m) k = Some v \<longleftrightarrow>
     (v \<in> set xs \<and> key v = k) \<or> (k \<notin> key ` set xs \<and> fmlookup m k = Some v)"
  by (induction xs arbitrary: m) (auto simp: image_iff)

lemma fmlookup_put_Some:
  "distinct (map key xs) \<Longrightarrow> fmlookup (put key xs fmempty) k = Some v \<longleftrightarrow> v \<in> set xs \<and> key v = k"
  by (simp add: fmlookup_put)

lemma put_values:
  assumes "\<And>k v. fmlookup m k = Some v \<Longrightarrow> key v = k"
  shows "distinct (map key (fm_values m))" and "put key (fm_values m) fmempty = m"
proof -
  have "map key (fm_values m) = map fst (sorted_list_of_fmap m)"
    unfolding fm_values_def map_map by (rule map_cong) (use assms in auto)
  then show d: "distinct (map key (fm_values m))" by simp
  have "fmlookup (put key (fm_values m) fmempty) k = Some v \<longleftrightarrow> fmlookup m k = Some v" for k v
    unfolding fmlookup_put_Some [OF d] set_fm_values using assms by auto
  then show "put key (fm_values m) fmempty = m" by (intro fmap_ext) (metis option.exhaust)
qed

lemma collect_loop:
  "for_each (\<lambda>v acc. if v |\<in>| acc then Inl e else Inr (finsert v acc)) vs acc = Inr t \<longleftrightarrow>
     distinct vs \<and> (\<forall>v\<in>set vs. v |\<notin>| acc) \<and> t = fset_of_list vs |\<union>| acc"
  by (induction vs arbitrary: acc) auto

lemma collect_snapshot_set_Ok: "collect_snapshot_set vs r = Inr t \<longleftrightarrow> distinct vs \<and> t = fset_of_list vs"
  unfolding collect_snapshot_set_def collect_loop by simp

lemma check_generation_Ok:
  "check_generation o1 e m = Inr t \<longleftrightarrow>
     fst e \<noteq> o1 \<and> fmlookup m (fst e) = None \<and> t = fmupd (fst e) (snd e) m"
  by (cases e) (auto simp: check_generation_def contains_key_def)

lemma generation_loop:
  "for_each (check_generation o1) es m = Inr t \<longleftrightarrow>
     distinct (map fst es) \<and> (\<forall>e\<in>set es. fst e \<noteq> o1 \<and> fmlookup m (fst e) = None) \<and> t = m ++\<^sub>f fmap_of_list es"
proof (induction es arbitrary: m)
  case (Cons e es)
  obtain k g where e: "e = (k, g)" by (rule prod.exhaust)
  have "fmupd k g m ++\<^sub>f fmap_of_list es = m ++\<^sub>f fmap_of_list ((k, g) # es)" if "k \<notin> fst ` set es"
  proof (rule fmap_ext)
    fix l
    have "map_of es k = None" using that by (simp add: map_of_eq_None_iff)
    then show "fmlookup (fmupd k g m ++\<^sub>f fmap_of_list es) l = fmlookup (m ++\<^sub>f fmap_of_list ((k, g) # es)) l"
      by (cases "l = k") (simp_all add: that fset_of_list.rep_eq fmlookup_of_list map_add_def split: option.split)
  qed
  then show ?case
    by (auto simp: e res_bind_Ok_iff check_generation_Ok Cons split: if_splits)
qed auto

lemma check_authority_Ok:
  "check_authority o1 gens r1 r2 h a = Inr u \<longleftrightarrow> authority_known o1 gens h a"
  by (auto simp: check_authority_def authority_known_def not_less split: InviteIssuerAuthority.splits option.splits)

definition invite_valid :: "GroupPolicySnapshot \<Rightarrow> (IdentityId, Revision) fmap \<Rightarrow> InviteCapability \<Rightarrow> bool" where
  "invite_valid s gens iv =
     (ic_scope iv = gs_scope s \<and> ic_max_uses iv \<noteq> 0
      \<and> unat (ic_use_count iv) + unat (ic_reserved_use_count iv) \<le> unat (ic_max_uses iv)
      \<and> ic_policy_revision iv \<le> gs_revision s
      \<and> authority_known (gs_owner_id s) gens (ic_issuer_id iv) (ic_issuer_authority iv))"

lemma check_invitation_Ok:
  "check_invitation s gens iv m = Inr t \<longleftrightarrow>
     invite_valid s gens iv \<and> fmlookup m (ic_invite_id iv) = None \<and> t = fmupd (ic_invite_id iv) iv m"
proof -
  have bound: "(\<exists>w. checked_add a b = Some w \<and> \<not> m < w \<and> R) \<longleftrightarrow> unat a + unat b \<le> unat m \<and> R"
    for a b m :: u32 and R
  proof (cases "checked_add a b")
    case None
    then have "2 ^ LENGTH(32) \<le> unat a + unat b" unfolding checked_add_None_iff .
    moreover have "unat m < 2 ^ LENGTH(32)" by (rule unsigned_less)
    ultimately show ?thesis unfolding None by simp
  next
    case (Some w)
    then have "unat w = unat a + unat b" unfolding checked_add_Some_iff .
    then show ?thesis unfolding Some by (simp add: word_le_nat_alt not_less)
  qed
  have guard: "(if g then Inl e else k) = Inr t \<longleftrightarrow> \<not> g \<and> k = Inr t" for g e k and t :: 'z by simp
  show ?thesis
    unfolding check_invitation_def guard res_bind_Ok_iff ok_or_Ok_iff check_authority_Ok de_Morgan_disj
    by (simp only: bound conj_assoc) (auto simp: invite_valid_def not_contains_key not_less)
qed

lemma invitation_loop:
  "for_each (check_invitation s gens) xs m = Inr t \<longleftrightarrow>
     distinct (map ic_invite_id xs) \<and> (\<forall>x\<in>set xs. invite_valid s gens x \<and> fmlookup m (ic_invite_id x) = None)
     \<and> t = put ic_invite_id xs m"
  by (induction xs arbitrary: m) (auto simp: result_simps check_invitation_Ok)

lemma pending_loop:
  "for_each (check_pending ivs mem) xs (seen, act, m) = Inr t \<longleftrightarrow>
     distinct (map pj_request_id xs) \<and> distinct (map pj_candidate_id xs)
     \<and> (\<forall>x\<in>set xs. pj_request_id x |\<notin>| seen \<and> pj_candidate_id x |\<notin>| act
          \<and> contains_key ivs (pj_invite_id x) \<and> pj_candidate_id x |\<notin>| mem)
     \<and> t = (fset_of_list (map pj_request_id xs) |\<union>| seen, fset_of_list (map pj_candidate_id xs) |\<union>| act,
            put pj_request_id xs m)"
  by (induction xs arbitrary: seen act m) (auto simp: check_pending_def split: if_splits, (metis image_eqI)+)

text \<open>The counters of the validator: \<open>count_of\<close> reads one, \<open>bump\<close> increments one per item.\<close>

definition count_of :: "('k, u32) fmap \<Rightarrow> 'k \<Rightarrow> u32" where
  "count_of c i = (case fmlookup c i of None \<Rightarrow> 0 | Some w \<Rightarrow> w)"

definition bump :: "'k list \<Rightarrow> ('k, u32) fmap \<Rightarrow> ('k, u32) fmap" where
  "bump is c = fold (\<lambda>i c. fmupd i (count_of c i + 1) c) is c"

lemma bump_simps [simp]: "bump [] c = c" "bump (i # is) c = bump is (fmupd i (count_of c i + 1) c)"
  by (simp_all add: bump_def)

definition countable_in :: "('k, u32) fmap \<Rightarrow> 'k list \<Rightarrow> bool" where
  "countable_in c is = (\<forall>i. unat (count_of c i) + count_list is i < 2 ^ LENGTH(32))"

lemma count_of_upd: "count_of (fmupd i w c) j = (if j = i then w else count_of c j)"
  by (simp add: count_of_def)

lemma count_of_empty [simp]: "count_of fmempty i = 0"
  by (simp add: count_of_def)

lemma increment_Ok:
  "increment_snapshot_count c i r = Inr t \<longleftrightarrow>
     unat (count_of c i) + 1 < 2 ^ LENGTH(32) \<and> t = fmupd i (count_of c i + 1) c"
  unfolding increment_snapshot_count_def Let_def count_of_def [symmetric]
  by (simp only: checked_add_def unat_1) (auto simp: result_simps)

lemma countable_Cons:
  "countable_in c (i # is) \<longleftrightarrow>
     unat (count_of c i) + 1 < 2 ^ LENGTH(32) \<and> countable_in (fmupd i (count_of c i + 1) c) is"
proof (cases "unat (count_of c i) + 1 < 2 ^ LENGTH(32)")
  case True
  then have "unat (count_of c i + 1) = unat (count_of c i) + 1" by (simp add: unat_word_ariths)
  with True show ?thesis unfolding countable_in_def count_of_upd by auto
next
  case False
  then have "\<not> countable_in c (i # is)" unfolding countable_in_def by (auto intro!: exI [of _ i])
  with False show ?thesis by blast
qed

lemma countable_Nil: "countable_in c []"
proof -
  have "unat (count_of c i) < 2 ^ LENGTH(32)" for i by (rule unsigned_less)
  then show ?thesis by (simp add: countable_in_def)
qed

lemma count_of_bump:
  "countable_in c is \<Longrightarrow> unat (count_of (bump is c) i) = unat (count_of c i) + count_list is i"
proof (induction "is" arbitrary: c)
  case (Cons a as)
  then have a: "unat (count_of c a) + 1 < 2 ^ LENGTH(32)" and r: "countable_in (fmupd a (count_of c a + 1) c) as"
    unfolding countable_Cons by blast+
  from a have "unat (count_of c a + 1) = unat (count_of c a) + 1" by (simp add: unat_word_ariths)
  then show ?case using Cons.IH [OF r] by (cases "i = a") (simp_all add: count_of_upd)
qed simp

definition reserved_valid ::
  "GroupPolicySnapshot \<Rightarrow> (IdentityId, Revision) fmap \<Rightarrow> (InviteCapabilityId, InviteCapability) fmap
    \<Rightarrow> IdentityId fset \<Rightarrow> ReservedJoin \<Rightarrow> bool" where
  "reserved_valid s gens ivs mem x =
     (contains_key ivs (rj_invite_id x) \<and> rj_candidate_id x |\<notin>| mem \<and> rj_policy_revision x \<le> gs_revision s
      \<and> authority_known (gs_owner_id s) gens (rj_reserved_by x) (rj_reserved_authority x))"

lemma reserved_loop:
  "for_each (check_reserved s gens ivs mem) xs (seen, act, c, m) = Inr t \<longleftrightarrow>
     distinct (map rj_request_id xs) \<and> distinct (map rj_candidate_id xs)
     \<and> (\<forall>x\<in>set xs. rj_request_id x |\<notin>| seen \<and> rj_candidate_id x |\<notin>| act \<and> reserved_valid s gens ivs mem x)
     \<and> countable_in c (map rj_invite_id xs)
     \<and> t = (fset_of_list (map rj_request_id xs) |\<union>| seen, fset_of_list (map rj_candidate_id xs) |\<union>| act,
            bump (map rj_invite_id xs) c, put rj_request_id xs m)"
proof (induction xs arbitrary: seen act c m)
  case Nil
  then show ?case by (auto simp: countable_Nil)
next
  case (Cons x xs)
  have "check_reserved s gens ivs mem x (seen, act, c, m) = Inr v \<longleftrightarrow>
      rj_request_id x |\<notin>| seen \<and> rj_candidate_id x |\<notin>| act \<and> reserved_valid s gens ivs mem x
      \<and> unat (count_of c (rj_invite_id x)) + 1 < 2 ^ LENGTH(32)
      \<and> v = (finsert (rj_request_id x) seen, finsert (rj_candidate_id x) act,
           fmupd (rj_invite_id x) (count_of c (rj_invite_id x) + 1) c, fmupd (rj_request_id x) x m)" for v
    unfolding check_reserved_def prod.case res_bind_Ok_iff check_authority_Ok increment_Ok reserved_valid_def
    by (auto simp: res_bind_Ok_iff check_authority_Ok increment_Ok not_less split: if_splits)
  then show ?case
    unfolding for_each.simps res_bind_Ok_iff list.map countable_Cons bump_simps put_simps
    by (auto simp: Cons) (metis image_eqI)+
qed

definition approved_valid ::
  "GroupPolicySnapshot \<Rightarrow> (InviteCapabilityId, InviteCapability) fmap \<Rightarrow> IdentityId fset \<Rightarrow> ApprovedJoin \<Rightarrow> bool" where
  "approved_valid s ivs mem x =
     (contains_key ivs (aj_invite_id x) \<and> aj_candidate_id x |\<in>| mem \<and> aj_policy_revision x \<le> gs_revision s)"

lemma approved_loop:
  "for_each (check_approved s ivs mem) xs (seen, c, m) = Inr t \<longleftrightarrow>
     distinct (map aj_request_id xs)
     \<and> (\<forall>x\<in>set xs. aj_request_id x |\<notin>| seen \<and> approved_valid s ivs mem x)
     \<and> countable_in c (map aj_invite_id xs)
     \<and> t = (fset_of_list (map aj_request_id xs) |\<union>| seen, bump (map aj_invite_id xs) c, put aj_request_id xs m)"
proof (induction xs arbitrary: seen c m)
  case Nil
  then show ?case by (auto simp: countable_Nil)
next
  case (Cons x xs)
  have "check_approved s ivs mem x (seen, c, m) = Inr v \<longleftrightarrow>
      aj_request_id x |\<notin>| seen \<and> approved_valid s ivs mem x
      \<and> unat (count_of c (aj_invite_id x)) + 1 < 2 ^ LENGTH(32)
      \<and> v = (finsert (aj_request_id x) seen,
           fmupd (aj_invite_id x) (count_of c (aj_invite_id x) + 1) c, fmupd (aj_request_id x) x m)" for v
    unfolding check_approved_def prod.case approved_valid_def
    by (auto simp: res_bind_Ok_iff increment_Ok not_less split: if_splits)
  then show ?case
    unfolding for_each.simps res_bind_Ok_iff list.map countable_Cons bump_simps put_simps
    by (auto simp: Cons) (metis image_eqI)+
qed

lemma counters_match_Ok:
  "counters_match cr cu ivs = Inr u \<longleftrightarrow>
     (\<forall>i iv. fmlookup ivs i = Some iv \<longrightarrow> count_of cr i = ic_reserved_use_count iv \<and> count_of cu i = ic_use_count iv)"
  unfolding counters_match_def count_of_def [symmetric] by (auto simp: fm_any_iff)

text \<open>A loop with one possible result is passed by its condition.\<close>

lemma res_bind_point:
  assumes "\<And>t. r = Inr t \<longleftrightarrow> P \<and> t = v"
  shows "res_bind r f = Inr y \<longleftrightarrow> P \<and> f v = Inr y"
  using assms by (auto simp: res_bind_Ok_iff)

lemma assoc_last:
  "(a \<and> b \<and> c) = ((a \<and> b) \<and> c)" "(a \<and> b \<and> c \<and> d) = ((a \<and> b \<and> c) \<and> d)"
  "(a \<and> b \<and> c \<and> d \<and> e) = ((a \<and> b \<and> c \<and> d) \<and> e)"
  by simp_all

lemmas pass_loops =
  res_bind_point [OF collect_snapshot_set_Ok]
  res_bind_point [OF generation_loop [unfolded assoc_last(1)]]
  res_bind_point [OF invitation_loop [unfolded assoc_last(1)]]
  res_bind_point [OF pending_loop [unfolded assoc_last(2)]]
  res_bind_point [OF reserved_loop [unfolded assoc_last(3)]]
  res_bind_point [OF approved_loop [unfolded assoc_last(2)]]

section \<open>The accepted snapshots\<close>

definition policy_of :: "GroupPolicySnapshot \<Rightarrow> GroupPolicy" where
  "policy_of s =
     \<lparr> gp_scope = gs_scope s, gp_owner_id = gs_owner_id s,
       gp_administrators = fset_of_list (gs_administrators s),
       gp_generations = fmap_of_list (gs_generations s), gp_members = fset_of_list (gs_members s),
       gp_invitations = put ic_invite_id (gs_invitations s) fmempty,
       gp_pending_joins = put pj_request_id (gs_pending_joins s) fmempty,
       gp_reserved_joins = put rj_request_id (gs_reserved_joins s) fmempty,
       gp_approved_joins = put aj_request_id (gs_approved_joins s) fmempty,
       gp_revision = gs_revision s \<rparr>"

definition roles_valid :: "GroupPolicySnapshot \<Rightarrow> bool" where
  "roles_valid s =
     (distinct (gs_members s) \<and> gs_owner_id s \<in> set (gs_members s) \<and> distinct (gs_administrators s)
      \<and> length (gs_administrators s) \<le> MAX_ADMINS \<and> gs_owner_id s \<notin> set (gs_administrators s)
      \<and> set (gs_administrators s) \<subseteq> set (gs_members s) \<and> distinct (map fst (gs_generations s))
      \<and> gs_owner_id s \<notin> fst ` set (gs_generations s)
      \<and> set (gs_administrators s) \<subseteq> fst ` set (gs_generations s))"

definition joins_valid :: "GroupPolicySnapshot \<Rightarrow> bool" where
  "joins_valid s =
     (distinct (map pj_request_id (gs_pending_joins s) @ map rj_request_id (gs_reserved_joins s)
        @ map aj_request_id (gs_approved_joins s))
      \<and> distinct (map pj_candidate_id (gs_pending_joins s) @ map rj_candidate_id (gs_reserved_joins s))
      \<and> (\<forall>x\<in>set (gs_pending_joins s). pj_invite_id x \<in> ic_invite_id ` set (gs_invitations s)
           \<and> pj_candidate_id x \<notin> set (gs_members s))
      \<and> (\<forall>x\<in>set (gs_reserved_joins s). reserved_valid s (gp_generations (policy_of s))
           (gp_invitations (policy_of s)) (gp_members (policy_of s)) x)
      \<and> (\<forall>x\<in>set (gs_approved_joins s). approved_valid s (gp_invitations (policy_of s)) (gp_members (policy_of s)) x))"

definition counts_valid :: "GroupPolicySnapshot \<Rightarrow> bool" where
  "counts_valid s =
     (countable_in fmempty (map rj_invite_id (gs_reserved_joins s))
      \<and> countable_in fmempty (map aj_invite_id (gs_approved_joins s))
      \<and> (\<forall>iv\<in>set (gs_invitations s).
           unat (ic_reserved_use_count iv) = count_list (map rj_invite_id (gs_reserved_joins s)) (ic_invite_id iv)
           \<and> unat (ic_use_count iv) = count_list (map aj_invite_id (gs_approved_joins s)) (ic_invite_id iv)))"

definition snapshot_valid :: "GroupPolicySnapshot \<Rightarrow> bool" where
  "snapshot_valid s =
     (roles_valid s \<and> distinct (map ic_invite_id (gs_invitations s))
      \<and> (\<forall>iv\<in>set (gs_invitations s). invite_valid s (gp_generations (policy_of s)) iv)
      \<and> joins_valid s \<and> counts_valid s)"

lemma contains_put: "contains_key (put key xs m) k \<longleftrightarrow> k \<in> key ` set xs \<or> contains_key m k"
  by (induction xs arbitrary: m) (auto simp: contains_key_def)

lemma contains_of_list: "contains_key (fmap_of_list es) k \<longleftrightarrow> k \<in> fst ` set es"
  by (simp add: contains_key_def fmlookup_of_list map_of_eq_None_iff)

lemma fcard_of_distinct: "distinct xs \<Longrightarrow> fcard (fset_of_list xs) = length xs"
  by (simp add: fcard.rep_eq fset_of_list.rep_eq distinct_card)

lemma guard_Ok: "(if g then Inl e else k) = Inr t \<longleftrightarrow> \<not> g \<and> k = Inr t"
  by simp

lemma count_bumped:
  assumes "countable_in fmempty ks"
  shows "count_of (bump ks fmempty) i = w \<longleftrightarrow> unat w = count_list ks i"
proof -
  have "unat (count_of (bump ks fmempty) i) = count_list ks i"
    using count_of_bump [OF assms, of i] by simp
  then show ?thesis by (simp add: word_unat_eq_iff eq_commute [of _ "unat w"])
qed

lemma counters_bumped:
  assumes "countable_in fmempty rs" "countable_in fmempty us" "distinct (map ic_invite_id xs)"
  shows "counters_match (bump rs fmempty) (bump us fmempty) (put ic_invite_id xs fmempty) = Inr u \<longleftrightarrow>
    (\<forall>iv\<in>set xs. unat (ic_reserved_use_count iv) = count_list rs (ic_invite_id iv)
       \<and> unat (ic_use_count iv) = count_list us (ic_invite_id iv))"
  unfolding counters_match_Ok fmlookup_put_Some [OF assms(3)] count_bumped [OF assms(1)] count_bumped [OF assms(2)]
  by blast

lemma roles_valid_iff:
  fixes s defines "mem \<equiv> fset_of_list (gs_members s)" and "adm \<equiv> fset_of_list (gs_administrators s)"
    and "gens \<equiv> fmap_of_list (gs_generations s)"
  shows "roles_valid s \<longleftrightarrow> distinct (gs_members s) \<and> gs_owner_id s |\<in>| mem \<and> distinct (gs_administrators s)
      \<and> \<not> fcard adm > MAX_ADMINS \<and> gs_owner_id s |\<notin>| adm \<and> adm |\<subseteq>| mem
      \<and> (distinct (map fst (gs_generations s))
         \<and> (\<forall>e\<in>set (gs_generations s). fst e \<noteq> gs_owner_id s \<and> fmlookup fmempty (fst e) = (None :: Revision option)))
      \<and> \<not> list_ex (\<lambda>i. \<not> contains_key gens i) (sorted_list_of_fset adm)"
proof -
  have "(\<forall>e\<in>set (gs_generations s). fst e \<noteq> gs_owner_id s) \<longleftrightarrow> gs_owner_id s \<notin> fst ` set (gs_generations s)"
    by force
  moreover have "list_ex (\<lambda>i. \<not> contains_key gens i) (sorted_list_of_fset adm) \<longleftrightarrow>
      \<not> set (gs_administrators s) \<subseteq> fst ` set (gs_generations s)"
    by (auto simp: gens_def adm_def contains_of_list list_ex_iff sorted_list_of_fset.rep_eq fset_of_list.rep_eq)
  moreover have "adm |\<subseteq>| mem \<longleftrightarrow> set (gs_administrators s) \<subseteq> set (gs_members s)"
    by (simp add: adm_def mem_def less_eq_fset.rep_eq fset_of_list.rep_eq)
  ultimately show ?thesis
    unfolding roles_valid_def by (auto simp: mem_def adm_def fcard_of_distinct fset_of_list_elem)
qed

lemma disjoint_image: "S \<inter> f ` B = {} \<longleftrightarrow> (\<forall>x\<in>B. f x \<notin> S)"
  by auto

text \<open>The join lists as the validator sees them: no request and no active candidate seen before.\<close>

lemma joins_valid_iff:
  fixes s defines "mem \<equiv> fset_of_list (gs_members s)" and "gens \<equiv> fmap_of_list (gs_generations s)"
    and "ivs \<equiv> put ic_invite_id (gs_invitations s) fmempty"
    and "pr \<equiv> map pj_request_id (gs_pending_joins s)" and "pc \<equiv> map pj_candidate_id (gs_pending_joins s)"
    and "rr \<equiv> map rj_request_id (gs_reserved_joins s)" and "rc \<equiv> map rj_candidate_id (gs_reserved_joins s)"
  shows "joins_valid s \<longleftrightarrow>
      (distinct pr \<and> distinct pc
       \<and> (\<forall>x\<in>set (gs_pending_joins s). pj_request_id x |\<notin>| {||} \<and> pj_candidate_id x |\<notin>| {||}
            \<and> contains_key ivs (pj_invite_id x) \<and> pj_candidate_id x |\<notin>| mem))
      \<and> (distinct rr \<and> distinct rc
         \<and> (\<forall>x\<in>set (gs_reserved_joins s). rj_request_id x |\<notin>| fset_of_list pr |\<union>| {||}
              \<and> rj_candidate_id x |\<notin>| fset_of_list pc |\<union>| {||} \<and> reserved_valid s gens ivs mem x))
      \<and> (distinct (map aj_request_id (gs_approved_joins s))
         \<and> (\<forall>x\<in>set (gs_approved_joins s). aj_request_id x |\<notin>| fset_of_list rr |\<union>| (fset_of_list pr |\<union>| {||})
              \<and> approved_valid s ivs mem x))"
  unfolding joins_valid_def policy_of_def assms distinct_append
  by (simp add: contains_put contains_key_def [of fmempty] fset_of_list_elem fset_of_list.rep_eq
      disjoint_image Int_Un_distrib ball_conj_distrib) blast

lemma counters_last:
  assumes "countable_in fmempty rs" "countable_in fmempty us" "distinct (map ic_invite_id xs)"
  shows "res_bind (counters_match (bump rs fmempty) (bump us fmempty) (put ic_invite_id xs fmempty)) (\<lambda>_. Inr q) = Inr p
    \<longleftrightarrow> (\<forall>iv\<in>set xs. unat (ic_reserved_use_count iv) = count_list rs (ic_invite_id iv)
       \<and> unat (ic_use_count iv) = count_list us (ic_invite_id iv)) \<and> p = q"
  unfolding res_bind_Ok_iff counters_bumped [OF assms] by auto

lemma from_snapshot_Ok: "group_policy_from_snapshot s = Inr p \<longleftrightarrow> snapshot_valid s \<and> p = policy_of s"
proof -
  have v: "(\<forall>x\<in>set (gs_invitations s). invite_valid s g x \<and> fmlookup fmempty (ic_invite_id x) = None) \<longleftrightarrow>
      (\<forall>x\<in>set (gs_invitations s). invite_valid s g x)" for g by simp
  show ?thesis
    unfolding group_policy_from_snapshot_def snapshot_valid_def roles_valid_iff joins_valid_iff counts_valid_def
    by (simp only: pass_loops guard_Ok prod.case not_not fmadd_empty v conj_assoc policy_of_def GroupPolicy.simps
        counters_last simp_thms cong: conj_cong) blast
qed

end
