(* ===== verification/Revisioned.thy ===== *)
theory Revisioned
  imports Domain_Ids
begin

text \<open>
  The contract of an aggregate with optimistic concurrency: every call names the revision it was
  prepared against, is refused when that is not the current one, moves to the successor when it
  succeeds and changes nothing when it fails. The consequences for sequences of calls are proved
  once for the contract.
\<close>

primrec run_calls :: "('c \<Rightarrow> Revision \<Rightarrow> 's \<Rightarrow> ('e + 'r) \<times> 's) \<Rightarrow> ('c \<times> Revision) list \<Rightarrow> 's \<Rightarrow> 's" where
  "run_calls call [] s = s"
| "run_calls call (cr # crs) s = run_calls call crs (snd (call (fst cr) (snd cr) s))"

primrec successes :: "('c \<Rightarrow> Revision \<Rightarrow> 's \<Rightarrow> ('e + 'r) \<times> 's) \<Rightarrow> ('c \<times> Revision) list \<Rightarrow> 's \<Rightarrow> nat" where
  "successes call [] s = 0"
| "successes call (cr # crs) s =
     (if is_ok (fst (call (fst cr) (snd cr) s)) then 1 else 0)
     + successes call crs (snd (call (fst cr) (snd cr) s))"

locale revisioned_aggregate =
  fixes revision :: "'s \<Rightarrow> Revision"
    and call :: "'c \<Rightarrow> Revision \<Rightarrow> 's \<Rightarrow> ('e + 'r) \<times> 's"
    and conflict :: "Revision \<Rightarrow> Revision \<Rightarrow> 'e"
    and inv :: "'s \<Rightarrow> bool"
  assumes stale: "inv s \<Longrightarrow> r \<noteq> revision s \<Longrightarrow> call c r s = (Inl (conflict (revision s) r), s)"
    and success: "inv s \<Longrightarrow> call c r s = (Inr x, t) \<Longrightarrow> inv t \<and> checked_next (revision s) = Inr (revision t)"
    and failure: "inv s \<Longrightarrow> call c r s = (Inl e, t) \<Longrightarrow> t = s"
    and valid: "inv s \<Longrightarrow> valid_revision (revision s)"
begin

lemma call_cases:
  assumes "inv s"
  shows "inv (snd (call c r s))"
    and "unat (rev_get (revision (snd (call c r s)))) =
      unat (rev_get (revision s)) + (if is_ok (fst (call c r s)) then 1 else 0)"
proof -
  obtain y t where c: "call c r s = (y, t)" by (rule prod.exhaust)
  show "inv (snd (call c r s))"
  proof (cases y)
    case (Inl e)
    then show ?thesis using failure [OF assms, of c r e t] assms c by simp
  next
    case (Inr x)
    then show ?thesis using success [OF assms, of c r x t] c by simp
  qed
  show "unat (rev_get (revision (snd (call c r s)))) =
      unat (rev_get (revision s)) + (if is_ok (fst (call c r s)) then 1 else 0)"
  proof (cases y)
    case (Inl e)
    then show ?thesis using failure [OF assms, of c r e t] c by simp
  next
    case (Inr x)
    then show ?thesis
      using success [OF assms, of c r x t] checked_next_succ(1) [OF _ valid [OF assms]] c by simp
  qed
qed

lemma run_inv: "inv s \<Longrightarrow> inv (run_calls call crs s)"
  by (induction crs arbitrary: s) (simp_all add: call_cases(1))

lemma run_counts:
  "inv s \<Longrightarrow> unat (rev_get (revision (run_calls call crs s))) =
     unat (rev_get (revision s)) + successes call crs s"
  by (induction crs arbitrary: s) (simp_all add: call_cases)

lemma run_mono: "inv s \<Longrightarrow> revision s \<le> revision (run_calls call crs s)"
  using run_counts [of s crs] by (simp add: less_eq_Revision_def word_le_nat_alt)

lemma run_rel:
  assumes "inv s" "\<And>s. R s s" "\<And>s t u. R s t \<Longrightarrow> R t u \<Longrightarrow> R s u"
    and step: "\<And>s c r x t. inv s \<Longrightarrow> call c r s = (Inr x, t) \<Longrightarrow> R s t"
  shows "R s (run_calls call crs s)"
  using assms(1)
proof (induction crs arbitrary: s)
  case (Cons cr crs)
  let ?t = "snd (call (fst cr) (snd cr) s)"
  have "R s ?t"
  proof (cases "fst (call (fst cr) (snd cr) s)")
    case (Inl e)
    then have "?t = s" using failure [OF Cons.prems] by (metis prod.collapse)
    then show ?thesis using assms(2) by simp
  next
    case (Inr x)
    then show ?thesis using step [OF Cons.prems] by (metis prod.collapse)
  qed
  moreover have "R ?t (run_calls call crs ?t)" by (rule Cons.IH [OF call_cases(1) [OF Cons.prems]])
  ultimately show ?case using assms(3) by auto
qed (simp add: assms(2))

text \<open>A revision is spent by one success: no later call prepared against it can succeed.\<close>

lemma spent:
  assumes "inv s" "call c r s = (Inr x, t)"
  shows "call d r (run_calls call crs t) =
    (Inl (conflict (revision (run_calls call crs t)) r), run_calls call crs t)"
proof (rule stale)
  show "inv (run_calls call crs t)" using success [OF assms] run_inv by blast
  have "r = revision s" using stale [OF assms(1)] assms(2) by (metis Inl_Inr_False prod.inject)
  moreover have "revision s < revision t"
    using success [OF assms] checked_next_succ(3) valid assms(1) by blast
  moreover have "revision t \<le> revision (run_calls call crs t)"
    using success [OF assms] run_mono by blast
  ultimately show "r \<noteq> revision (run_calls call crs t)" by simp
qed

end

end
