(* ===== verification/Group_Calls.thy ===== *)
theory Group_Calls
  imports Group_Invariant Revisioned
begin

text \<open>
  The mutating methods of the group aggregate as calls: each keeps the invariant when it
  succeeds and changes nothing when it fails, so the aggregate meets the contract of
  \<open>Revisioned\<close> and every reachable state satisfies the invariant.
\<close>

lemmas group_op_Ok = grant_admin_Ok revoke_admin_Ok remove_member_Ok issue_invite_Ok revoke_invite_Ok
  request_join_Ok reserve_join_Ok finalize_reserved_join_Ok release_join_reservation_Ok approve_join_Ok

lemma group_apply_inv: "group_inv p \<Longrightarrow> group_apply c r p = (Inr u, q) \<Longrightarrow> group_inv q"
  by (cases c) (auto simp: forget_Ok intro: grant_admin_inv revoke_admin_inv remove_member_inv
      issue_invite_inv revoke_invite_inv request_join_inv reserve_join_inv
      finalize_reserved_join_inv release_join_reservation_inv approve_join_inv)

text \<open>Room for one more use of an invitation whose reservation is being settled.\<close>

lemma reservation_counters:
  assumes inv: "group_inv p" and j: "fmlookup (gp_reserved_joins p) k = Some j"
  shows "\<exists>iv w u. fmlookup (gp_invitations p) (rj_invite_id j) = Some iv
    \<and> checked_sub (ic_reserved_use_count iv) 1 = Some w \<and> checked_add (ic_use_count iv) 1 = Some u"
proof -
  obtain iv where iv: "fmlookup (gp_invitations p) (rj_invite_id j) = Some iv"
    using join_invite_exists(2) [OF inv j] by blast
  have "0 < fm_count (\<lambda>x. rj_invite_id x = rj_invite_id j) (gp_reserved_joins p)"
    by (rule fm_count_pos [OF j]) simp
  with group_invD(4) [OF inv iv] have pos: "0 < unat (ic_reserved_use_count iv)"
    by (simp add: counters_ok_def)
  have "unat (ic_use_count iv) + unat (ic_reserved_use_count iv) \<le> unat (ic_max_uses iv)"
    using group_invD(3) [OF inv iv] by (simp add: invite_ok_def)
  moreover have "unat (ic_max_uses iv) < 2 ^ LENGTH(32)" by (rule unsigned_less)
  ultimately have room: "unat (ic_use_count iv) + 1 < 2 ^ LENGTH(32)" using pos by linarith
  have "checked_sub (ic_reserved_use_count iv) 1 \<noteq> None" unfolding checked_sub_None_iff using pos by simp
  moreover have "checked_add (ic_use_count iv) 1 \<noteq> None"
    unfolding checked_add_None_iff using room by simp
  ultimately show ?thesis using iv by blast
qed

lemma finalize_atomic:
  assumes inv: "group_inv p"
  shows "atomic p (finalize_reserved_join r k now p)"
proof -
  have "atomic p (finalize_reserved_join r k now p)"
    if j: "fmlookup (gp_reserved_joins p) k = Some j" for j
  proof -
    from reservation_counters [OF inv j] obtain iv w u where
      "fmlookup (gp_invitations p) (rj_invite_id j) = Some iv"
      "checked_sub (ic_reserved_use_count iv) 1 = Some w" "checked_add (ic_use_count iv) 1 = Some u"
      by blast
    with j show ?thesis unfolding finalize_reserved_join_def Let_def
      by (auto intro!: atomic_intros)
  qed
  then show ?thesis
    by (cases "fmlookup (gp_reserved_joins p) k")
      (auto simp: finalize_reserved_join_def intro!: atomic_intros)
qed

lemma group_apply_atomic:
  assumes "group_inv p" "group_apply c r p = (Inl e, q)"
  shows "q = p"
proof -
  have "atomic p (grant_admin r a b p)" "atomic p (revoke_admin r a b p)" "atomic p (remove_member r a b p)" for a b
    unfolding grant_admin_def revoke_admin_def remove_member_def by (intro atomic_intros)+
  moreover have "atomic p (issue_invite r a i t m ex now p)" "atomic p (revoke_invite r a i p)"
    "atomic p (request_join r a b k i now p)" for a i t m ex now b k
    unfolding issue_invite_def revoke_invite_def request_join_def Let_def by (intro atomic_intros)+
  moreover have "atomic p (reserve_join r a k now p)" "atomic p (release_join_reservation r k p)"
    "atomic p (approve_join r a k now p)" for a k now
    unfolding reserve_join_def release_join_reservation_def approve_join_def Let_def
    by (intro atomic_intros)+
  ultimately have "atomic p (group_apply c r p)"
    using finalize_atomic [OF assms(1)] by (cases c) (simp_all add: atomic_forget)
  then show ?thesis using assms(2) atomicD by simp
qed

lemma group_apply_revision:
  assumes "group_apply c r p = (Inr u, q)"
  shows "r = gp_revision p" and "checked_next (gp_revision p) = Inr (gp_revision q)"
proof -
  have "r = gp_revision p \<and> checked_next (gp_revision p) = Inr (gp_revision q)"
    using assms by (cases c; simp only: group_apply.simps forget_Ok group_op_Ok; elim exE conjE; simp)
  then show "r = gp_revision p" and "checked_next (gp_revision p) = Inr (gp_revision q)" by blast+
qed

lemma group_apply_stale:
  assumes "r \<noteq> gp_revision p"
  shows "group_apply c r p = (Inl (RevisionConflict (gp_revision p)), p)"
proof -
  have "next_mutation_revision p r = Inl (RevisionConflict (gp_revision p))"
    using assms by (simp add: next_mutation_revision_def)
  then show ?thesis
    by (cases c) (simp_all add: forget_def grant_admin_def revoke_admin_def remove_member_def issue_invite_def
        revoke_invite_def request_join_def reserve_join_def finalize_reserved_join_def
        release_join_reservation_def approve_join_def)
qed

interpretation group_calls: revisioned_aggregate gp_revision group_apply "\<lambda>now _. RevisionConflict now" group_inv
proof unfold_locales
  fix r c and s :: GroupPolicy
  assume "r \<noteq> gp_revision s"
  then show "group_apply c r s = (Inl (RevisionConflict (gp_revision s)), s)" by (rule group_apply_stale)
next
  fix s t :: GroupPolicy and c r x
  assume "group_inv s" "group_apply c r s = (Inr x, t)"
  then show "group_inv t \<and> checked_next (gp_revision s) = Inr (gp_revision t)"
    using group_apply_inv group_apply_revision(2) by blast
next
  fix s t :: GroupPolicy and c r e
  assume "group_inv s" "group_apply c r s = (Inl e, t)"
  then show "t = s" by (rule group_apply_atomic)
next
  fix s :: GroupPolicy
  assume "group_inv s"
  then show "valid_revision (gp_revision s)" by (simp add: group_inv_def roles_ok_def)
qed

lemma group_step_inv: "group_step p q \<Longrightarrow> group_inv p \<Longrightarrow> group_inv q"
  using group_calls.call_cases(1) by (metis group_stepE snd_conv)

lemma group_reachable_inv: "group_reachable p \<Longrightarrow> group_inv p"
  by (induction rule: group_reachable.induct) (auto intro: group_inv_new group_step_inv)

end
