(* ===== verification/Group_Safety.thy ===== *)
theory Group_Safety
  imports Group_Calls
begin

text \<open>
  The properties of the group aggregate over its reachable states: the invariant, the revision
  discipline, who is admitted and by whom, the permanence of revocation, and how a reservation
  is settled. The states of the example are computed from the methods.
\<close>

section \<open>What a call can change\<close>

lemma admins_step:
  assumes "group_apply c r p = (Inr u, q)" "h |\<in>| gp_administrators q"
  shows "(h |\<in>| gp_administrators p \<and> fmlookup (gp_generations q) h = fmlookup (gp_generations p) h)
    \<or> (\<exists>g. next_admin_authorization_generation p h = Inr g \<and> fmlookup (gp_generations q) h = Some g)"
  using assms by (cases c; simp only: group_apply.simps forget_Ok group_op_Ok; elim exE conjE; auto)

lemma owner_step:
  assumes "group_apply c r p = (Inr u, q)"
  shows "gp_owner_id q = gp_owner_id p \<and> gp_scope q = gp_scope p"
  using assms by (cases c; simp only: group_apply.simps forget_Ok group_op_Ok; elim exE conjE; simp)

definition invite_continues :: "InviteCapability \<Rightarrow> InviteCapability \<Rightarrow> bool" where
  "invite_continues iv iv' =
     (ic_issuer_id iv' = ic_issuer_id iv \<and> ic_issuer_authority iv' = ic_issuer_authority iv
      \<and> ic_target_id iv' = ic_target_id iv \<and> ic_max_uses iv' = ic_max_uses iv
      \<and> ic_expires_at_ms iv' = ic_expires_at_ms iv \<and> (ic_revoked iv \<longrightarrow> ic_revoked iv'))"

lemma invite_step:
  assumes "group_apply c r p = (Inr u, q)" "fmlookup (gp_invitations p) i = Some iv"
  shows "\<exists>iv'. fmlookup (gp_invitations q) i = Some iv' \<and> invite_continues iv iv'"
  using assms
  by (cases c; simp only: group_apply.simps forget_Ok group_op_Ok; elim exE conjE;
      auto simp: invite_continues_def)

definition invite_dead :: "GroupPolicy \<Rightarrow> InviteCapability \<Rightarrow> bool" where
  "invite_dead p iv = (ic_revoked iv \<or> \<not> invite_issuer_authority_is_current p iv)"

lemma authority_lost_step:
  assumes inv: "group_inv p" and "group_apply c r p = (Inr u, q)"
    and known: "authority_known (gp_owner_id p) (gp_generations p) h a" and "\<not> authority_is_current p h a"
  shows "\<not> authority_is_current q h a"
proof (cases a)
  case AuthorityOwner
  then show ?thesis using known assms(4) by (simp add: authority_known_def authority_is_current_def)
next
  case (AuthorityAdmin g)
  then obtain d where d: "fmlookup (gp_generations p) h = Some d" "g \<le> d"
    using known by (auto simp: authority_known_def split: option.splits)
  have "d < e" if "next_admin_authorization_generation p h = Inr e" for e
    using next_generation_valid(2) [OF group_invD(1) [OF inv] that d(1)] .
  then show ?thesis
    using admins_step [OF assms(2), of h] assms(4) d AuthorityAdmin
    by (fastforce simp: authority_is_current_def)
qed

lemma invite_dead_step:
  assumes "group_inv p" "group_step p q" "fmlookup (gp_invitations p) i = Some iv" "invite_dead p iv"
  shows "\<exists>iv'. fmlookup (gp_invitations q) i = Some iv' \<and> invite_dead q iv'"
proof -
  from assms(2) obtain c r res where c: "group_apply c r p = (res, q)" by (rule group_stepE)
  show ?thesis
  proof (cases res)
    case (Inl e)
    then show ?thesis using group_apply_atomic [OF assms(1)] c assms(3,4) by blast
  next
    case (Inr u)
    with c have s: "group_apply c r p = (Inr u, q)" by simp
    obtain iv' where iv': "fmlookup (gp_invitations q) i = Some iv'" "invite_continues iv iv'"
      using invite_step [OF s assms(3)] by blast
    have "authority_known (gp_owner_id p) (gp_generations p) (ic_issuer_id iv) (ic_issuer_authority iv)"
      using group_invD(3) [OF assms(1,3)] by (simp add: invite_ok_def)
    from authority_lost_step [OF assms(1) s this]
    have "invite_dead q iv'" using assms(4) iv'(2)
      by (auto simp: invite_dead_def invite_continues_def invite_issuer_authority_is_current_def)
    then show ?thesis using iv'(1) by blast
  qed
qed

lemma invite_dead_forever:
  assumes "group_step\<^sup>*\<^sup>* p q" "group_inv p" "fmlookup (gp_invitations p) i = Some iv" "invite_dead p iv"
  shows "group_inv q \<and> (\<exists>iv'. fmlookup (gp_invitations q) i = Some iv' \<and> invite_dead q iv')"
  using assms
proof (induction rule: rtranclp_induct)
  case (step y z)
  then show ?case using group_step_inv invite_dead_step by blast
qed blast

lemma dead_not_usable: "invite_dead p iv \<Longrightarrow> ensure_invite_usable p iv c now \<noteq> Inr ()"
  by (auto simp: invite_dead_def ensure_invite_usable_Ok invite_issuer_authority_is_current_def)

text \<open>
  What is left of an invitation that is dead: reservations that were made before, and admissions that
  complete one of them.
\<close>

definition only_completes :: "InviteCapabilityId \<Rightarrow> GroupPolicy \<Rightarrow> GroupPolicy \<Rightarrow> bool" where
  "only_completes i p q \<longleftrightarrow>
     (\<forall>k j. reserved_join q k = Some j \<longrightarrow> rj_invite_id j = i \<longrightarrow> reserved_join p k = Some j)
     \<and> (\<forall>k x. approved_join q k = Some x \<longrightarrow> aj_invite_id x = i \<longrightarrow> approved_join p k = Some x
          \<or> (\<exists>j. reserved_join p k = Some j \<and> rj_invite_id j = i \<and> rj_candidate_id j = aj_candidate_id x))"

lemma only_completes_refl: "only_completes i p p"
  by (simp add: only_completes_def)

lemma only_completes_trans: "only_completes i p q \<Longrightarrow> only_completes i q r \<Longrightarrow> only_completes i p r"
  unfolding only_completes_def by blast

lemma only_completes_apply:
  assumes "group_apply c r p = (Inr u, q)" "fmlookup (gp_invitations p) i = Some iv" "invite_dead p iv"
  shows "only_completes i p q"
  using assms(1,2) dead_not_usable [OF assms(3)]
  by (cases c; simp only: group_apply.simps forget_Ok group_op_Ok; elim exE conjE;
      auto simp: only_completes_def reserved_join_def approved_join_def split: if_splits)

lemma only_completes_steps:
  assumes "group_step\<^sup>*\<^sup>* p q" "group_inv p" "fmlookup (gp_invitations p) i = Some iv" "invite_dead p iv"
  shows "only_completes i p q"
  using assms(1)
proof (induction rule: rtranclp_induct)
  case (step y z)
  from step(2) obtain c r res where c: "group_apply c r y = (res, z)" by (rule group_stepE)
  obtain iv' where y: "group_inv y" "fmlookup (gp_invitations y) i = Some iv'" "invite_dead y iv'"
    using invite_dead_forever [OF step(1) assms(2-4)] by blast
  have "only_completes i y z"
    using only_completes_apply [OF _ y(2,3)] group_apply_atomic [OF y(1)] c only_completes_refl by (cases res) blast+
  then show ?case using step.IH only_completes_trans by blast
qed (rule only_completes_refl)

lemma revoke_admin_kills:
  assumes "group_inv p" "revoke_admin r o1 a p = (Inr n, q)" "fmlookup (gp_invitations p) i = Some iv"
    "ic_issuer_id iv = a"
  shows "fmlookup (gp_invitations q) i = Some iv \<and> invite_dead q iv"
proof -
  from assms(2) have a: "a \<noteq> gp_owner_id p"
    and q: "q = p\<lparr> gp_administrators := gp_administrators p |-| {|a|}, gp_revision := n \<rparr>"
    by (auto simp: revoke_admin_Ok)
  have "authority_known (gp_owner_id p) (gp_generations p) a (ic_issuer_authority iv)"
    using group_invD(3) [OF assms(1,3)] assms(4) by (simp add: invite_ok_def)
  then have "\<not> authority_is_current q a (ic_issuer_authority iv)"
    using a by (auto simp: q authority_known_def authority_is_current_def split: InviteIssuerAuthority.splits)
  then show ?thesis
    using assms(3,4) by (simp add: q invite_dead_def invite_issuer_authority_is_current_def)
qed

definition accounted :: "GroupPolicy \<Rightarrow> bool" where
  "accounted p =
     (\<forall>x. x |\<in>| gp_members p \<longrightarrow> x = gp_owner_id p \<or> x |\<in>| fmdom (gp_generations p)
        \<or> (\<exists>k j. fmlookup (gp_approved_joins p) k = Some j \<and> aj_candidate_id j = x))"

lemma records_step:
  assumes "group_apply c r p = (Inr u, q)"
  shows "fmlookup (gp_approved_joins p) k = Some j \<Longrightarrow> fmlookup (gp_approved_joins q) k = Some j"
    and "fmdom (gp_generations p) |\<subseteq>| fmdom (gp_generations q)"
  using assms
  by (cases c; simp only: group_apply.simps forget_Ok group_op_Ok; elim exE conjE; auto)+

lemma members_step:
  assumes "group_apply c r p = (Inr u, q)" "x |\<in>| gp_members q" "x |\<notin>| gp_members p"
  shows "(c = GrantAdmin (gp_owner_id p) x \<and> x |\<in>| fmdom (gp_generations q))
    \<or> (\<exists>a k now j v. c = ApproveJoin a k now \<and> (a = gp_owner_id p \<or> a |\<in>| gp_administrators p)
        \<and> fmlookup (gp_pending_joins p) k = Some j \<and> pj_candidate_id j = x
        \<and> fmlookup (gp_approved_joins q) k = Some v \<and> aj_candidate_id v = x)
    \<or> (\<exists>k now j v. c = FinalizeReservedJoin k now
        \<and> fmlookup (gp_reserved_joins p) k = Some j \<and> rj_candidate_id j = x
        \<and> fmlookup (gp_approved_joins q) k = Some v \<and> aj_candidate_id v = x)"
  using assms
  by (cases c; simp only: group_apply.simps forget_Ok group_op_Ok; elim exE conjE; auto)

lemma accounted_step:
  assumes "group_apply c r p = (Inr u, q)" "accounted p"
  shows "accounted q"
  unfolding accounted_def
proof (intro allI impI)
  fix x assume x: "x |\<in>| gp_members q"
  show "x = gp_owner_id q \<or> x |\<in>| fmdom (gp_generations q)
        \<or> (\<exists>k j. fmlookup (gp_approved_joins q) k = Some j \<and> aj_candidate_id j = x)"
  proof (cases "x |\<in>| gp_members p")
    case True
    then show ?thesis
      using assms(2) records_step [OF assms(1)] owner_step [OF assms(1)] unfolding accounted_def
      by (metis fsubsetD)
  next
    case False
    then show ?thesis using members_step [OF assms(1) x] by blast
  qed
qed

lemma accounted_reachable: "group_reachable p \<Longrightarrow> accounted p"
proof (induction rule: group_reachable.induct)
  case (group_created scope owner_id)
  then show ?case by (simp add: accounted_def GroupPolicy_new_def)
next
  case (group_stepped p q)
  from group_stepped(2) obtain c r res where "group_apply c r p = (res, q)" by (rule group_stepE)
  then show ?case
    using group_apply_atomic [OF group_reachable_inv [OF group_stepped(1)]] accounted_step group_stepped.IH
    by (cases res) blast+
qed

lemma reachable_run: "group_reachable p \<Longrightarrow> group_reachable (run_calls group_apply crs p)"
proof (induction crs arbitrary: p)
  case (Cons cr crs)
  have "group_step p (snd (group_apply (fst cr) (snd cr) p))"
    by (rule group_call [of "fst cr" "snd cr" _ "fst (group_apply (fst cr) (snd cr) p)"]) simp
  then show ?case using Cons by (simp add: group_stepped)
qed simp

section \<open>An example group\<close>

text \<open>
  The owner makes an administrator, who invites a guest; the guest asks to join and the owner
  reserves the place.
\<close>

definition demo_owner :: IdentityId where "demo_owner = PublicId 1"
definition demo_admin :: IdentityId where "demo_admin = PublicId 2"
definition demo_guest :: IdentityId where "demo_guest = PublicId 3"

definition demo_group :: GroupPolicy where
  "demo_group = GroupPolicy_new (PrivateConversation (UuidId 7)) demo_owner"

definition demo_calls :: "(GroupCall \<times> Revision) list" where
  "demo_calls =
     [(GrantAdmin demo_owner demo_admin, Revision 1),
      (IssueInvite demo_admin (UuidId 3) None 2 100 0, Revision 2),
      (RequestJoin demo_guest demo_guest (UuidId 5) (UuidId 3) 10, Revision 3),
      (ReserveJoin demo_owner (UuidId 5) 20, Revision 4)]"

definition demo_invite :: InviteCapability where
  "demo_invite =
     \<lparr> ic_invite_id = UuidId 3, ic_scope = PrivateConversation (UuidId 7), ic_issuer_id = demo_admin,
       ic_target_id = None, ic_max_uses = 2, ic_use_count = 0, ic_reserved_use_count = 1,
       ic_expires_at_ms = 100, ic_revoked = False, ic_policy_revision = Revision 2,
       ic_issuer_authority = AuthorityAdmin (Revision 1) \<rparr>"

definition demo_reservation :: ReservedJoin where
  "demo_reservation =
     \<lparr> rj_request_id = UuidId 5, rj_candidate_id = demo_guest, rj_invite_id = UuidId 3,
       rj_reserved_by = demo_owner, rj_reserved_authority = AuthorityOwner, rj_reserved_at_ms = 20,
       rj_policy_revision = Revision 4 \<rparr>"

definition demo_reserved :: GroupPolicy where
  "demo_reserved = run_calls group_apply demo_calls demo_group"

lemmas group_eval = demo_owner_def demo_admin_def demo_guest_def demo_group_def demo_calls_def demo_invite_def
  demo_reservation_def demo_reserved_def GroupPolicy_new_def grant_admin_def revoke_admin_def remove_member_def
  issue_invite_def revoke_invite_def request_join_def reserve_join_def finalize_reserved_join_def
  release_join_reservation_def approve_join_def next_mutation_revision_def checked_next_def Revision_MAX_def
  ensure_owner_def invite_issuer_authority_def Let_def contains_key_def candidate_has_active_join_def
  ensure_invite_usable_def invite_issuer_authority_is_current_def authority_is_current_def checked_add_def
  ensure_approval_authority_def can_approve_join_def can_issue_invite_def role_of_def forget_def
  Revision_INITIAL_def fm_values_def checked_sub_def next_admin_authorization_generation_def MAX_ADMINS_def
  fcard.rep_eq

lemma fmdrop_upd_same: "fmdrop k (fmupd k v m) = fmdrop k m"
  by (rule fmap_ext) simp

lemma demo_reserved_eq:
  "demo_reserved =
     \<lparr> gp_scope = PrivateConversation (UuidId 7), gp_owner_id = demo_owner, gp_administrators = {|demo_admin|},
       gp_generations = fmupd demo_admin (Revision 1) fmempty, gp_members = {|demo_admin, demo_owner|},
       gp_invitations = fmupd (UuidId 3) demo_invite fmempty, gp_pending_joins = fmempty,
       gp_reserved_joins = fmupd (UuidId 5) demo_reservation fmempty, gp_approved_joins = fmempty,
       gp_revision = Revision 5 \<rparr>"
  by (simp add: group_eval fmupd_twice fmdrop_upd_same)

lemma demo_reserved_reachable: "group_reachable demo_reserved"
  unfolding demo_reserved_def demo_group_def by (intro reachable_run group_created)

text \<open>The administrator then loses the role and gets it back under a new generation.\<close>

definition demo_revoked :: GroupPolicy where
  "demo_revoked = run_calls group_apply [(RevokeAdmin demo_owner demo_admin, Revision 5)] demo_reserved"

definition demo_regranted :: GroupPolicy where
  "demo_regranted = run_calls group_apply [(GrantAdmin demo_owner demo_admin, Revision 6)] demo_revoked"

lemma demo_revoked_eq:
  "demo_revoked = demo_reserved\<lparr> gp_administrators := {||}, gp_revision := Revision 6 \<rparr>"
  unfolding demo_revoked_def demo_reserved_eq by (simp add: group_eval)

lemma demo_regranted_eq:
  "demo_regranted = demo_reserved\<lparr> gp_generations := fmupd demo_admin (Revision 2) fmempty,
     gp_revision := Revision 7 \<rparr>"
  unfolding demo_regranted_def demo_revoked_eq demo_reserved_eq
  by (simp add: group_eval fmupd_twice)

section \<open>Properties\<close>

text \<open>C7. Every state the aggregate can reach satisfies the group invariant: one owner, who is a
  member and no administrator; at most five administrators, all members with a generation; join
  requests in one phase each and one active request per candidate; every record consistent with
  its invitation; and invitation counters equal to the number of join records they count.\<close>
theorem group_invariant: "group_reachable p \<Longrightarrow> group_inv p"
  by (rule group_reachable_inv)

theorem group_invariant_witness:
  "group_inv demo_reserved \<and> fmlookup (gp_reserved_joins demo_reserved) (UuidId 5) = Some demo_reservation"
  using group_invariant [OF demo_reserved_reachable] by (simp add: demo_reserved_eq)

text \<open>C8. The admissions through an invitation never exceed its limit: in a reachable state the
  approved and the reserved joins that name it together number at most \<open>max_uses\<close>.\<close>
theorem group_invite_capacity:
  assumes "group_reachable p" "invite p i = Some iv"
  shows "fm_count (\<lambda>j. aj_invite_id j = i) (gp_approved_joins p)
    + fm_count (\<lambda>j. rj_invite_id j = i) (gp_reserved_joins p) \<le> unat (ic_max_uses iv)"
proof -
  note inv = group_reachable_inv [OF assms(1)]
  from assms(2) have iv: "fmlookup (gp_invitations p) i = Some iv" by (simp add: invite_def)
  show ?thesis
    using group_invD(3) [OF inv iv] group_invD(4) [OF inv iv] by (simp add: invite_ok_def counters_ok_def)
qed

theorem group_invite_capacity_witness:
  "invite demo_reserved (UuidId 3) = Some demo_invite
   \<and> fm_count (\<lambda>j. aj_invite_id j = UuidId 3) (gp_approved_joins demo_reserved)
     + fm_count (\<lambda>j. rj_invite_id j = UuidId 3) (gp_reserved_joins demo_reserved) \<le> 2"
proof -
  have i: "invite demo_reserved (UuidId 3) = Some demo_invite" by (simp add: invite_def demo_reserved_eq)
  show ?thesis using group_invite_capacity [OF demo_reserved_reachable i] i by (simp add: demo_invite_def)
qed

text \<open>C9. Failed calls change nothing, although \<open>finalize_reserved_join\<close> writes a counter before its
  last check: in a reachable state a call that returns an error leaves the state as it was.\<close>
theorem group_calls_atomic:
  "group_reachable p \<Longrightarrow> group_apply c r p = (Inl e, q) \<Longrightarrow> q = p"
  using group_apply_atomic group_reachable_inv by blast

theorem group_calls_atomic_witness:
  "snd (group_apply (FinalizeReservedJoin (UuidId 6) 30) (Revision 5) demo_reserved) = demo_reserved
   \<and> fst (group_apply (FinalizeReservedJoin (UuidId 6) 30) (Revision 5) demo_reserved) = Inl ReservedJoinNotFound"
proof -
  have "group_apply (FinalizeReservedJoin (UuidId 6) 30) (Revision 5) demo_reserved =
      (Inl ReservedJoinNotFound, demo_reserved)"
    by (simp add: demo_reserved_eq) (simp add: group_eval)
  then show ?thesis using group_calls_atomic [OF demo_reserved_reachable] by (simp add: prod_eq_iff)
qed

text \<open>C10. A revision is spent once. After a call succeeded against a revision, every later call
  prepared against the same revision is refused with the current revision and changes nothing,
  whatever calls ran in between.\<close>
theorem group_revision_spent:
  assumes "group_reachable p" "group_apply c r p = (Inr x, q)"
  shows "group_apply d r (run_calls group_apply crs q) =
    (Inl (RevisionConflict (gp_revision (run_calls group_apply crs q))), run_calls group_apply crs q)"
  by (rule group_calls.spent [OF group_reachable_inv [OF assms(1)] assms(2)])

theorem group_revision_spent_witness:
  "fst (group_apply (GrantAdmin demo_owner demo_guest) (Revision 5)
       (snd (group_apply (RevokeAdmin demo_owner demo_admin) (Revision 5) demo_reserved))) =
     Inl (RevisionConflict (Revision 6))"
proof -
  obtain q where q: "group_apply (RevokeAdmin demo_owner demo_admin) (Revision 5) demo_reserved = (Inr (), q)"
      "gp_revision q = Revision 6"
    by (simp add: demo_reserved_eq) (simp add: group_eval)
  show ?thesis using group_revision_spent [OF demo_reserved_reachable q(1), of _ "[]"] q by simp
qed

text \<open>The revision counts the successful calls: after any sequence of calls it is the initial
  revision plus their number, and it stays within the 53-bit range.\<close>
theorem group_revision_counts:
  assumes "group_reachable p"
  shows "unat (rev_get (gp_revision (run_calls group_apply crs p))) =
      unat (rev_get (gp_revision p)) + successes group_apply crs p
    \<and> unat (rev_get (gp_revision (run_calls group_apply crs p))) < 2 ^ 53"
proof -
  note inv = group_reachable_inv [OF assms]
  have "valid_revision (gp_revision (run_calls group_apply crs p))"
    using group_calls.run_inv [OF inv] group_calls.valid by blast
  then have "unat (rev_get (gp_revision (run_calls group_apply crs p))) \<le> unat Revision_MAX"
    by (simp only: valid_revision_def word_le_nat_alt)
  then show ?thesis using group_calls.run_counts [OF inv] by simp
qed

theorem group_revision_counts_witness:
  "unat (rev_get (gp_revision demo_reserved)) = 5 \<and> successes group_apply demo_calls demo_group = 4"
proof -
  have "unat (rev_get (gp_revision demo_group)) = 1" by (simp add: group_eval)
  moreover have "unat (rev_get (gp_revision demo_reserved)) = 5" by (simp add: demo_reserved_eq)
  moreover have "group_reachable demo_group" unfolding demo_group_def by (rule group_created)
  ultimately show ?thesis
    using group_revision_counts [of demo_group demo_calls] by (simp add: demo_reserved_def)
qed

text \<open>C11. Nobody is admitted without authority. When a call adds a member, it is the owner granting
  that identity the administrator role, the owner or an administrator approving that identity's
  own pending request, or the finalisation of that identity's reservation.\<close>
theorem group_admission:
  assumes "group_reachable p" "group_apply c r p = (res, q)" "x |\<in>| gp_members q" "x |\<notin>| gp_members p"
  shows "c = GrantAdmin (gp_owner_id p) x
    \<or> (\<exists>a k now j. c = ApproveJoin a k now \<and> can_approve_join p a
        \<and> pending_join p k = Some j \<and> pj_candidate_id j = x)
    \<or> (\<exists>k now j. c = FinalizeReservedJoin k now \<and> reserved_join p k = Some j \<and> rj_candidate_id j = x)"
proof (cases res)
  case (Inl e)
  then show ?thesis using group_apply_atomic [OF group_reachable_inv [OF assms(1)]] assms(2-) by blast
next
  case (Inr u)
  then show ?thesis using members_step [of c r p u q x] assms(2-)
    by (auto simp: can_approve_join_def can_issue_invite_def role_of_def pending_join_def reserved_join_def)
qed

theorem group_admission_witness:
  "demo_guest |\<in>| gp_members (snd (group_apply (FinalizeReservedJoin (UuidId 5) 30) (Revision 5) demo_reserved))
   \<and> demo_guest |\<notin>| gp_members demo_reserved
   \<and> (\<exists>j. reserved_join demo_reserved (UuidId 5) = Some j \<and> rj_candidate_id j = demo_guest)"
proof -
  obtain q where q: "group_apply (FinalizeReservedJoin (UuidId 5) 30) (Revision 5) demo_reserved = (Inr (), q)"
      "demo_guest |\<in>| gp_members q"
    by (simp add: demo_reserved_eq) (simp add: group_eval)
  have g: "demo_guest |\<notin>| gp_members demo_reserved"
    by (simp add: demo_reserved_eq demo_guest_def demo_owner_def demo_admin_def)
  from group_admission [OF demo_reserved_reachable q g] show ?thesis using q g by simp
qed

text \<open>Every member is accounted for: in a reachable state a member is the owner, holds or held
  the administrator role, or is the candidate of a recorded approved join.\<close>
theorem group_members_accounted:
  assumes "group_reachable p" "role_of p x \<noteq> None"
  shows "x = gp_owner_id p \<or> contains_key (gp_generations p) x
    \<or> (\<exists>k j. approved_join p k = Some j \<and> aj_candidate_id j = x)"
proof -
  have "x = gp_owner_id p \<or> x |\<in>| gp_administrators p \<or> x |\<in>| gp_members p"
    using assms(2) by (auto simp: role_of_def split: if_splits)
  then have "x = gp_owner_id p \<or> x |\<in>| gp_members p"
    using group_invD(1) [OF group_reachable_inv [OF assms(1)]] unfolding roles_ok_def by (metis fsubsetD)
  then show ?thesis using accounted_reachable [OF assms(1)]
    by (auto simp: accounted_def approved_join_def contains_key_iff fmlookup_dom_iff)
qed

theorem group_members_accounted_witness:
  "role_of demo_reserved demo_admin = Some RoleAdmin
   \<and> (contains_key (gp_generations demo_reserved) demo_admin
      \<or> (\<exists>k j. approved_join demo_reserved k = Some j \<and> aj_candidate_id j = demo_admin))"
proof -
  have r: "role_of demo_reserved demo_admin = Some RoleAdmin"
    by (simp add: demo_reserved_eq) (simp add: group_eval)
  have "demo_admin \<noteq> gp_owner_id demo_reserved" by (simp add: demo_reserved_eq) (simp add: group_eval)
  then show ?thesis using group_members_accounted [OF demo_reserved_reachable, of demo_admin] r by simp
qed

text \<open>C12. Revocation is permanent up to the reservations made before it. Once an invitation is revoked,
  or its issuer has lost the administrator role it was issued under, every later request, reservation
  and approval through it is refused, even after the issuer is made administrator again. No reservation
  through it is added, and whoever is admitted through it held a reservation at that time, which
  \<open>finalize_reserved_join\<close> completes.\<close>
theorem group_revocation_permanent:
  assumes "group_reachable p" "invite p i = Some iv"
    and "ic_revoked iv \<or> \<not> invite_issuer_authority_is_current p iv"
    and "group_step\<^sup>*\<^sup>* p q"
  shows "\<not> is_ok (fst (request_join r a c k i now q))
    \<and> (\<forall>j. pending_join q k = Some j \<and> pj_invite_id j = i \<longrightarrow>
         \<not> is_ok (fst (reserve_join r a k now q)) \<and> \<not> is_ok (fst (approve_join r a k now q)))
    \<and> (\<forall>j. reserved_join q k = Some j \<and> rj_invite_id j = i \<longrightarrow> reserved_join p k = Some j)
    \<and> (\<forall>x. approved_join q k = Some x \<and> aj_invite_id x = i \<longrightarrow> approved_join p k = Some x
         \<or> (\<exists>j. reserved_join p k = Some j \<and> rj_invite_id j = i \<and> rj_candidate_id j = aj_candidate_id x))"
proof -
  have iv: "fmlookup (gp_invitations p) i = Some iv" "invite_dead p iv" and inv: "group_inv p"
    using assms(2,3) group_reachable_inv [OF assms(1)] by (auto simp: invite_def invite_dead_def)
  obtain iv' where iv': "fmlookup (gp_invitations q) i = Some iv'" "invite_dead q iv'"
    using invite_dead_forever [OF assms(4) inv iv] by blast
  note dead = dead_not_usable [OF iv'(2)]
  have "\<not> is_ok (fst (request_join r a c k i now q))"
    using iv'(1) dead unfolding is_ok_iff by (metis option.inject prod.collapse request_join_Ok)
  moreover have "\<not> is_ok (fst (reserve_join r a k now q))" "\<not> is_ok (fst (approve_join r a k now q))"
    if "pending_join q k = Some j" "pj_invite_id j = i" for j
    using that iv'(1) dead unfolding is_ok_iff pending_join_def
    by (metis option.inject prod.collapse reserve_join_Ok, metis option.inject prod.collapse approve_join_Ok)
  ultimately show ?thesis using only_completes_steps [OF assms(4) inv iv] unfolding only_completes_def by blast
qed

theorem group_revocation_permanent_witness:
  "gp_administrators demo_regranted = {|demo_admin|} \<and> invite demo_regranted (UuidId 3) = Some demo_invite
   \<and> \<not> is_ok (fst (request_join (Revision 7) (PublicId 9) (PublicId 9) (UuidId 8) (UuidId 3) 10 demo_regranted))"
proof -
  have p: "group_reachable demo_revoked" unfolding demo_revoked_def by (rule reachable_run [OF demo_reserved_reachable])
  have i: "invite demo_revoked (UuidId 3) = Some demo_invite"
    and c: "ic_revoked demo_invite \<or> \<not> invite_issuer_authority_is_current demo_revoked demo_invite"
    by (simp_all add: invite_def demo_revoked_eq demo_reserved_eq demo_invite_def invite_issuer_authority_is_current_def
        authority_is_current_def)
  have "group_step demo_revoked demo_regranted"
    by (rule group_call [of "GrantAdmin demo_owner demo_admin" "Revision 6" _ "Inr ()"])
      (simp add: demo_regranted_def demo_revoked_eq, simp add: group_eval)
  then have st: "group_step\<^sup>*\<^sup>* demo_revoked demo_regranted" by simp
  show ?thesis
    using group_revocation_permanent [OF p i c st] by (simp add: demo_regranted_eq demo_reserved_eq invite_def)
qed

text \<open>C13. What becomes of a reservation in a reachable state. While the revision counter has a
  successor, releasing the reservation succeeds; finalising it succeeds and admits the candidate, or is
  refused as \<open>AlreadyMember\<close> without effect when the candidate is a member already. No other counter and
  no other check is in the way. At the last revision both calls are refused as \<open>CounterExhausted\<close> and
  the reservation stays.\<close>
theorem group_reservation_settles:
  assumes "group_reachable p" "reserved_join p k = Some j"
  shows "if rev_get (gp_revision p) = Revision_MAX
    then release_join_reservation (gp_revision p) k p = (Inl CounterExhausted, p)
      \<and> finalize_reserved_join (gp_revision p) k now p = (Inl CounterExhausted, p)
    else (\<exists>q. release_join_reservation (gp_revision p) k p = (Inr j, q) \<and> reserved_join q k = None)
      \<and> (if is_member p (rj_candidate_id j)
         then finalize_reserved_join (gp_revision p) k now p = (Inl AlreadyMember, p)
         else \<exists>x q. finalize_reserved_join (gp_revision p) k now p = (Inr x, q)
             \<and> is_member q (rj_candidate_id j) \<and> reserved_join q k = None \<and> approved_join q k = Some x)"
proof (cases "rev_get (gp_revision p) = Revision_MAX")
  case True
  then show ?thesis
    by (simp add: release_join_reservation_def finalize_reserved_join_def next_mutation_revision_def checked_next_def)
next
  case False
  note inv = group_reachable_inv [OF assms(1)]
  have j: "fmlookup (gp_reserved_joins p) k = Some j" using assms(2) by (simp add: reserved_join_def)
  obtain n where n: "checked_next (gp_revision p) = Inr n" using False by (simp add: checked_next_def)
  obtain iv w u where c: "fmlookup (gp_invitations p) (rj_invite_id j) = Some iv"
      "checked_sub (ic_reserved_use_count iv) 1 = Some w" "checked_add (ic_use_count iv) 1 = Some u"
    using reservation_counters [OF inv j] by blast
  have a: "fmlookup (gp_approved_joins p) k = None"
    using group_invD(2) [OF inv] apart_at(1) [OF _ j] unfolding requests_ok_def by blast
  have "\<exists>q. release_join_reservation (gp_revision p) k p = (Inr j, q) \<and> reserved_join q k = None"
    unfolding release_join_reservation_Ok using n j c by (simp add: reserved_join_def)
  moreover have "\<exists>x q. finalize_reserved_join (gp_revision p) k now p = (Inr x, q)
             \<and> is_member q (rj_candidate_id j) \<and> reserved_join q k = None \<and> approved_join q k = Some x"
    if "\<not> is_member p (rj_candidate_id j)"
    unfolding finalize_reserved_join_Ok using that n j c a
    by (simp add: reserved_join_def approved_join_def is_member_def)
  moreover have "finalize_reserved_join (gp_revision p) k now p = (Inl AlreadyMember, p)"
    if "is_member p (rj_candidate_id j)"
    using that n j a by (simp add: finalize_reserved_join_def next_mutation_revision_def contains_key_def is_member_def)
  ultimately show ?thesis using False by simp
qed

theorem group_reservation_settles_witness:
  "\<exists>x q. finalize_reserved_join (Revision 5) (UuidId 5) 30 demo_reserved = (Inr x, q) \<and> is_member q demo_guest"
proof -
  have r: "reserved_join demo_reserved (UuidId 5) = Some demo_reservation"
    and n: "rev_get (gp_revision demo_reserved) \<noteq> Revision_MAX"
    and m: "\<not> is_member demo_reserved (rj_candidate_id demo_reservation)"
    by (simp_all add: demo_reserved_eq) (simp_all add: reserved_join_def Revision_MAX_def is_member_def group_eval)
  show ?thesis
    using group_reservation_settles [OF demo_reserved_reachable r, of 30] m n
    by (auto simp: demo_reserved_eq demo_reservation_def)
qed

end
