(* ===== verification/Group_Roundtrip.thy ===== *)
theory Group_Roundtrip
  imports Group_Validator Group_Safety
begin

text \<open>
  Rebuilding the group aggregate from a snapshot: every rebuilt aggregate satisfies the group
  invariant, and the snapshot of a group that satisfies it is accepted exactly when the join
  records agree with the membership.
\<close>

section \<open>Rebuilt aggregates satisfy the invariant\<close>

definition joins_agree :: "GroupPolicy \<Rightarrow> bool" where
  "joins_agree p =
     ((\<forall>k j. fmlookup (gp_pending_joins p) k = Some j \<longrightarrow> pj_candidate_id j |\<notin>| gp_members p)
      \<and> (\<forall>k j. fmlookup (gp_reserved_joins p) k = Some j \<longrightarrow> rj_candidate_id j |\<notin>| gp_members p)
      \<and> (\<forall>k j. fmlookup (gp_approved_joins p) k = Some j \<longrightarrow> aj_candidate_id j |\<in>| gp_members p))"

definition revisions_valid :: "GroupPolicySnapshot \<Rightarrow> bool" where
  "revisions_valid s = (valid_revision (gs_revision s) \<and> (\<forall>e\<in>set (gs_generations s). valid_revision (snd e)))"

lemma count_list_filter: "count_list (map f xs) i = length (filter (\<lambda>x. f x = i) xs)"
  by (induction xs) auto

lemma fm_count_put:
  assumes "distinct (map key xs)"
  shows "fm_count P (put key xs fmempty) = length (filter P xs)"
proof -
  have "{k. \<exists>v. fmlookup (put key xs fmempty) k = Some v \<and> P v} = set (map key (filter P xs))"
    unfolding fmlookup_put_Some [OF assms] by auto
  moreover have "distinct (map key (filter P xs))" using assms by (rule distinct_map_filter)
  ultimately show ?thesis unfolding fm_count_card by (metis distinct_card length_map)
qed

lemma policy_of_lookups:
  assumes "snapshot_valid s"
  shows "fmlookup (gp_invitations (policy_of s)) i = Some iv \<longleftrightarrow> iv \<in> set (gs_invitations s) \<and> ic_invite_id iv = i"
    and "fmlookup (gp_pending_joins (policy_of s)) k = Some j \<longleftrightarrow> j \<in> set (gs_pending_joins s) \<and> pj_request_id j = k"
    and "fmlookup (gp_reserved_joins (policy_of s)) k = Some r \<longleftrightarrow> r \<in> set (gs_reserved_joins s) \<and> rj_request_id r = k"
    and "fmlookup (gp_approved_joins (policy_of s)) k = Some a \<longleftrightarrow> a \<in> set (gs_approved_joins s) \<and> aj_request_id a = k"
  using assms by (auto simp: snapshot_valid_def joins_valid_def policy_of_def fmlookup_put_Some)

lemma roles_ok_policy_of:
  assumes "snapshot_valid s" "revisions_valid s"
  shows "roles_ok (policy_of s)"
proof -
  from assms(1) have r: "roles_valid s" by (simp add: snapshot_valid_def)
  have d: "k |\<in>| fmdom (fmap_of_list (gs_generations s)) \<longleftrightarrow> k \<in> fst ` set (gs_generations s)" for k
    by (simp add: fset_of_list.rep_eq)
  have "valid_revision g" if "fmlookup (fmap_of_list (gs_generations s)) k = Some g" for k g
    using that assms(2) by (auto simp: revisions_valid_def fmlookup_of_list dest!: map_of_SomeD)
  then show ?thesis
    using r assms(2) unfolding roles_ok_def policy_of_def GroupPolicy.simps d fmpred_iff
    by (auto simp: roles_valid_def revisions_valid_def fcard_of_distinct fset_of_list_elem fset_of_list.rep_eq
        less_eq_fset.rep_eq)
qed

lemma requests_ok_policy_of:
  assumes v: "snapshot_valid s"
  shows "policy_requests_ok (policy_of s)"
proof -
  from v have j: "joins_valid s" by (simp add: snapshot_valid_def)
  note look = policy_of_lookups [OF v]
  have pc: "distinct (map pj_candidate_id (gs_pending_joins s))" "distinct (map rj_candidate_id (gs_reserved_joins s))"
    "pj_candidate_id ` set (gs_pending_joins s) \<inter> rj_candidate_id ` set (gs_reserved_joins s) = {}"
    and rq: "pj_request_id ` set (gs_pending_joins s) \<inter> rj_request_id ` set (gs_reserved_joins s) = {}"
    "pj_request_id ` set (gs_pending_joins s) \<inter> aj_request_id ` set (gs_approved_joins s) = {}"
    "rj_request_id ` set (gs_reserved_joins s) \<inter> aj_request_id ` set (gs_approved_joins s) = {}"
    using j unfolding joins_valid_def distinct_append by auto
  have "apart (gp_pending_joins (policy_of s)) (gp_reserved_joins (policy_of s))"
    "apart (gp_pending_joins (policy_of s)) (gp_approved_joins (policy_of s))"
    "apart (gp_reserved_joins (policy_of s)) (gp_approved_joins (policy_of s))"
    using rq unfolding apart_def by (metis (no_types, lifting) disjoint_iff image_eqI look not_None_eq)+
  moreover have "one_each (active_candidate (gp_pending_joins (policy_of s)) (gp_reserved_joins (policy_of s)))"
    unfolding one_each_def
  proof (intro allI impI)
    fix k l c
    let ?act = "active_candidate (gp_pending_joins (policy_of s)) (gp_reserved_joins (policy_of s))"
    have act: "(\<exists>j\<in>set (gs_pending_joins s). pj_request_id j = m \<and> pj_candidate_id j = c)
        \<or> (\<exists>j\<in>set (gs_reserved_joins s). rj_request_id j = m \<and> rj_candidate_id j = c)" if "?act m = Some c" for m
      using that look(2,3) by (auto simp: active_candidate_def split: option.splits)
    have pend: "x = y" if "x \<in> set (gs_pending_joins s)" "y \<in> set (gs_pending_joins s)"
      "pj_candidate_id x = pj_candidate_id y" for x y
      using pc(1) that by (auto simp: distinct_map dest: inj_onD)
    have res: "x = y" if "x \<in> set (gs_reserved_joins s)" "y \<in> set (gs_reserved_joins s)"
      "rj_candidate_id x = rj_candidate_id y" for x y
      using pc(2) that by (auto simp: distinct_map dest: inj_onD)
    assume "?act k = Some c" "?act l = Some c"
    from act [OF this(1)] act [OF this(2)] show "k = l"
      using pend res pc(3) by (elim disjE bexE conjE) (blast | force)+
  qed
  ultimately show ?thesis by (simp add: requests_ok_def)
qed

lemma policy_of_inv:
  assumes v: "snapshot_valid s" "revisions_valid s"
  shows "group_inv (policy_of s)" and "joins_agree (policy_of s)"
proof -
  note look = policy_of_lookups [OF v(1)]
  from v(1) have iv: "\<forall>iv\<in>set (gs_invitations s). invite_valid s (gp_generations (policy_of s)) iv"
    and j: "joins_valid s" and c: "counts_valid s" by (simp_all add: snapshot_valid_def)
  have sel: "gp_scope (policy_of s) = gs_scope s" "gp_owner_id (policy_of s) = gs_owner_id s"
    "gp_revision (policy_of s) = gs_revision s" "gp_members (policy_of s) = fset_of_list (gs_members s)"
    by (simp_all add: policy_of_def)
  have dom: "i |\<in>| fmdom (gp_invitations (policy_of s)) \<longleftrightarrow> contains_key (gp_invitations (policy_of s)) i" for i
    by (simp add: fmlookup_dom_iff contains_key_iff)
  have dist: "distinct (map rj_request_id (gs_reserved_joins s))" "distinct (map aj_request_id (gs_approved_joins s))"
    using j by (simp_all add: joins_valid_def)
  have cnt: "counters_ok (policy_of s) (ic_invite_id x) x" if "x \<in> set (gs_invitations s)" for x
    using c that unfolding counters_ok_def
    by (simp add: policy_of_def fm_count_put [OF dist(1)] fm_count_put [OF dist(2)] counts_valid_def count_list_filter)
  show "group_inv (policy_of s)"
    unfolding group_inv_def fmpred_iff look
    using roles_ok_policy_of [OF v] requests_ok_policy_of [OF v(1)] iv j cnt
    by (auto simp: record_ok_defs sel dom invite_valid_def joins_valid_def reserved_valid_def approved_valid_def
        contains_key_iff look image_iff) metis
  show "joins_agree (policy_of s)"
    unfolding joins_agree_def look using j
    by (auto simp: sel joins_valid_def reserved_valid_def approved_valid_def policy_of_def fset_of_list_elem)
qed

section \<open>The round trip\<close>

lemma fmap_keys:
  assumes "group_inv p"
  shows "fmlookup (gp_invitations p) i = Some iv \<Longrightarrow> ic_invite_id iv = i"
    and "fmlookup (gp_pending_joins p) k = Some j \<Longrightarrow> pj_request_id j = k"
    and "fmlookup (gp_reserved_joins p) k = Some r \<Longrightarrow> rj_request_id r = k"
    and "fmlookup (gp_approved_joins p) k = Some a \<Longrightarrow> aj_request_id a = k"
  using group_invD(3-7) [OF assms] by (auto simp: record_ok_defs)

lemma distinct_ids:
  assumes "group_inv p"
  shows "distinct (map ic_invite_id (fm_values (gp_invitations p)))"
    and "distinct (map pj_request_id (fm_values (gp_pending_joins p)))"
    and "distinct (map rj_request_id (fm_values (gp_reserved_joins p)))"
    and "distinct (map aj_request_id (fm_values (gp_approved_joins p)))"
  using fmap_keys [OF assms] by (simp_all only: put_values(1))

lemma policy_of_snapshot:
  assumes "group_inv p"
  shows "policy_of (snapshot p) = p"
  unfolding policy_of_def snapshot_def
  by (simp add: put_values(2) [OF fmap_keys(1) [OF assms]] put_values(2) [OF fmap_keys(2) [OF assms]]
      put_values(2) [OF fmap_keys(3) [OF assms]] put_values(2) [OF fmap_keys(4) [OF assms]])

lemma count_values: "count_list (map f (fm_values m)) i = fm_count (\<lambda>x. f x = i) m"
  by (simp add: count_list_filter fm_count_def)

lemma roles_valid_snapshot:
  assumes "roles_ok p"
  shows "roles_valid (snapshot p)"
proof -
  have "fst ` set (sorted_list_of_fmap (gp_generations p)) = fset (fmdom (gp_generations p))"
    by (force simp: fmlookup_dom_iff)
  moreover have "length (sorted_list_of_fset (gp_administrators p)) = fcard (gp_administrators p)"
    by (simp add: sorted_list_of_fset.rep_eq fcard.rep_eq)
  ultimately show ?thesis
    using assms by (simp add: roles_ok_def roles_valid_def snapshot_def sorted_list_of_fset.rep_eq less_eq_fset.rep_eq)
qed

lemma counts_valid_snapshot:
  assumes inv: "group_inv p"
  shows "counts_valid (snapshot p)"
proof -
  have small: "fm_count (\<lambda>j. rj_invite_id j = i) (gp_reserved_joins p) < 2 ^ LENGTH(32)
      \<and> fm_count (\<lambda>j. aj_invite_id j = i) (gp_approved_joins p) < 2 ^ LENGTH(32)" for i
  proof (cases "fmlookup (gp_invitations p) i")
    case None
    then have "fm_count (\<lambda>j. rj_invite_id j = i) (gp_reserved_joins p) = 0"
      "fm_count (\<lambda>j. aj_invite_id j = i) (gp_approved_joins p) = 0"
      using join_invite_exists(2,3) [OF inv] by (force intro!: fm_count_zero)+
    then show ?thesis by simp
  next
    case (Some iv)
    then have "counters_ok p i iv" by (rule group_invD(4) [OF inv])
    then show ?thesis unfolding counters_ok_def by (metis unsigned_less)
  qed
  have "counters_ok p (ic_invite_id iv) iv" if "iv \<in> set (fm_values (gp_invitations p))" for iv
    using that fmap_keys(1) [OF inv] group_invD(4) [OF inv] by (auto simp: set_fm_values)
  then show ?thesis using small
    unfolding counts_valid_def countable_in_def snapshot_def GroupPolicySnapshot.simps count_values count_of_empty
      unat_0 add_0 counters_ok_def by blast
qed

lemma distinct_values:
  assumes "\<And>k l x y. fmlookup m k = Some x \<Longrightarrow> fmlookup m l = Some y \<Longrightarrow> f x = f y \<Longrightarrow> k = l"
  shows "distinct (map f (fm_values m))"
proof -
  have "map f (fm_values m) = map (\<lambda>k. f (the (fmlookup m k))) (sorted_list_of_fset (fmdom m))"
    by (simp add: fm_values_def sorted_list_of_fmap_def)
  moreover have "inj_on (\<lambda>k. f (the (fmlookup m k))) (fset (fmdom m))"
    using assms by (auto simp: inj_on_def fmlookup_dom_iff)
  ultimately show ?thesis by (simp add: distinct_map sorted_list_of_fset.rep_eq)
qed

lemma distinct_candidates:
  assumes "one_each (active_candidate pend res)" "apart pend res"
  shows "distinct (map pj_candidate_id (fm_values pend) @ map rj_candidate_id (fm_values res))"
proof -
  have p: "active_candidate pend res k = Some (pj_candidate_id j)" if "fmlookup pend k = Some j" for k j
    using that by (simp add: active_candidate_def)
  have r: "active_candidate pend res k = Some (rj_candidate_id j)" if "fmlookup res k = Some j" for k j
    using that apart_at(2) [OF assms(2) that] by (simp add: active_candidate_def)
  note one = assms(1) [unfolded one_each_def, rule_format]
  have "distinct (map pj_candidate_id (fm_values pend))" by (rule distinct_values) (metis one p)
  moreover have "distinct (map rj_candidate_id (fm_values res))" by (rule distinct_values) (metis one r)
  moreover have "pj_candidate_id x \<noteq> rj_candidate_id y"
    if "fmlookup pend k = Some x" "fmlookup res l = Some y" for k l x y
    using one [OF p [OF that(1)], of l] r [OF that(2)] apart_at(1) [OF assms(2) that(1)] that(2) by auto
  ultimately show ?thesis
    by (auto simp: set_fm_values)
qed

lemma snapshot_sel [simp]:
  "gs_scope (snapshot p) = gp_scope p" "gs_owner_id (snapshot p) = gp_owner_id p"
  "gs_revision (snapshot p) = gp_revision p" "set (gs_members (snapshot p)) = fset (gp_members p)"
  "gs_invitations (snapshot p) = fm_values (gp_invitations p)"
  "gs_pending_joins (snapshot p) = fm_values (gp_pending_joins p)"
  "gs_reserved_joins (snapshot p) = fm_values (gp_reserved_joins p)"
  "gs_approved_joins (snapshot p) = fm_values (gp_approved_joins p)"
  by (simp_all add: snapshot_def sorted_list_of_fset.rep_eq)

lemma apart_dom: "apart a b \<Longrightarrow> fset (fmdom a) \<inter> fset (fmdom b) = {}"
  by (auto simp: fmlookup_dom_iff) (metis apart_at(1) option.distinct(1))

lemma distinct_requests:
  assumes inv: "group_inv p"
  shows "distinct (map pj_request_id (fm_values (gp_pending_joins p)) @ map rj_request_id (fm_values (gp_reserved_joins p))
        @ map aj_request_id (fm_values (gp_approved_joins p)))"
proof -
  have "apart (gp_pending_joins p) (gp_reserved_joins p)" "apart (gp_pending_joins p) (gp_approved_joins p)"
    "apart (gp_reserved_joins p) (gp_approved_joins p)"
    using group_invD(2) [OF inv] by (simp_all add: requests_ok_def)
  then have "fset (fmdom (gp_pending_joins p)) \<inter> fset (fmdom (gp_reserved_joins p)) = {}"
    "fset (fmdom (gp_pending_joins p)) \<inter> fset (fmdom (gp_approved_joins p)) = {}"
    "fset (fmdom (gp_reserved_joins p)) \<inter> fset (fmdom (gp_approved_joins p)) = {}"
    by (simp_all only: apart_dom)
  moreover have "pj_request_id ` set (fm_values (gp_pending_joins p)) = fset (fmdom (gp_pending_joins p))"
    "rj_request_id ` set (fm_values (gp_reserved_joins p)) = fset (fmdom (gp_reserved_joins p))"
    "aj_request_id ` set (fm_values (gp_approved_joins p)) = fset (fmdom (gp_approved_joins p))"
    using fmap_keys(2-4) [OF inv] by (force simp: set_fm_values fmlookup_dom_iff image_iff)+
  moreover note distinct_ids [OF inv]
  ultimately show ?thesis by (simp add: Int_Un_distrib)
qed

lemma snapshot_valid_iff:
  assumes inv: "group_inv p"
  shows "snapshot_valid (snapshot p) \<longleftrightarrow> joins_agree p"
proof -
  note po = policy_of_snapshot [OF inv]
  have iv: "invite_valid (snapshot p) (gp_generations p) iv" if "iv \<in> set (fm_values (gp_invitations p))" for iv
    using that group_invD(3) [OF inv] by (auto simp: set_fm_values invite_ok_def invite_valid_def)
  have cand: "distinct (map pj_candidate_id (fm_values (gp_pending_joins p)) @ map rj_candidate_id (fm_values (gp_reserved_joins p)))"
    using group_invD(2) [OF inv] distinct_candidates by (simp only: requests_ok_def)
  have ex: "i \<in> ic_invite_id ` {v. \<exists>k. fmlookup (gp_invitations p) k = Some v} \<longleftrightarrow> i |\<in>| fmdom (gp_invitations p)" for i
    using fmap_keys(1) [OF inv] by (force simp: fmlookup_dom_iff image_iff)
  have ck: "contains_key (gp_invitations p) i \<longleftrightarrow> i |\<in>| fmdom (gp_invitations p)" for i
    by (simp add: contains_key_iff fmlookup_dom_iff)
  have "joins_valid (snapshot p) \<longleftrightarrow> joins_agree p"
    using distinct_requests [OF inv] cand group_invD(5-7) [OF inv]
    unfolding joins_valid_def po snapshot_sel set_fm_values ex joins_agree_def reserved_valid_def approved_valid_def ck
      record_ok_defs by blast
  then show ?thesis
    using roles_valid_snapshot [OF group_invD(1) [OF inv]] counts_valid_snapshot [OF inv] iv
      distinct_ids(1) [OF inv]
    unfolding snapshot_valid_def po snapshot_sel by blast
qed

end
