(* ===== verification/Group_Rehydrate.thy ===== *)
theory Group_Rehydrate
  imports Group_Roundtrip
begin

text \<open>
  The properties of group persistence: rebuilt aggregates satisfy the invariant and keep it, the
  stored image gives back the snapshot, and which calls leave a group whose snapshot the
  validator refuses.
\<close>

section \<open>Which calls keep the records in agreement\<close>

definition breaks_agreement :: "GroupPolicy \<Rightarrow> GroupCall \<Rightarrow> bool" where
  "breaks_agreement p c =
     (case c of
        RemoveMember _ m \<Rightarrow> fm_any (\<lambda>_ j. aj_candidate_id j = m) (gp_approved_joins p)
      | GrantAdmin _ b \<Rightarrow> candidate_has_active_join p b
      | _ \<Rightarrow> False)"

lemma agree_grant:
  assumes "joins_agree p" "grant_admin r a b p = (Inr n, q)"
  shows "joins_agree q \<longleftrightarrow> \<not> candidate_has_active_join p b"
proof -
  from assms(2) obtain g where q: "q = p\<lparr> gp_administrators := finsert b (gp_administrators p),
            gp_generations := fmupd b g (gp_generations p),
            gp_members := finsert b (gp_members p), gp_revision := n \<rparr>"
    by (auto simp: grant_admin_Ok)
  show ?thesis using assms(1) by (auto simp: q joins_agree_def candidate_has_active_join_iff)
qed

lemma agree_remove:
  assumes "joins_agree p" "remove_member r a m p = (Inr n, q)"
  shows "joins_agree q \<longleftrightarrow> \<not> fm_any (\<lambda>_ j. aj_candidate_id j = m) (gp_approved_joins p)"
  using assms by (auto simp: remove_member_Ok joins_agree_def fm_any_iff)

lemma agree_admit:
  assumes inv: "group_inv p" and a: "joins_agree p"
    and c: "active_candidate (gp_pending_joins p) (gp_reserved_joins p) k = Some c"
    and pend: "\<And>l j. fmlookup (gp_pending_joins q) l = Some j \<Longrightarrow> l \<noteq> k \<and> fmlookup (gp_pending_joins p) l = Some j"
    and res: "\<And>l j. fmlookup (gp_reserved_joins q) l = Some j \<Longrightarrow> l \<noteq> k \<and> fmlookup (gp_reserved_joins p) l = Some j"
    and appr: "\<And>l j. fmlookup (gp_approved_joins q) l = Some j \<Longrightarrow>
      fmlookup (gp_approved_joins p) l = Some j \<or> aj_candidate_id j = c"
    and mem: "gp_members q = finsert c (gp_members p)"
  shows "joins_agree q"
proof -
  have re: "apart (gp_pending_joins p) (gp_reserved_joins p)"
    "one_each (active_candidate (gp_pending_joins p) (gp_reserved_joins p))"
    using group_invD(2) [OF inv] by (simp_all add: requests_ok_def)
  have one: "l = k" if "active_candidate (gp_pending_joins p) (gp_reserved_joins p) l = Some c" for l
    using re(2) that c unfolding one_each_def by blast
  have "pj_candidate_id j \<noteq> c" if "fmlookup (gp_pending_joins q) l = Some j" for l j
    using one [of l] pend [OF that] by (auto simp: active_candidate_def)
  moreover have "rj_candidate_id j \<noteq> c" if "fmlookup (gp_reserved_joins q) l = Some j" for l j
    using one [of l] res [OF that] apart_at(2) [OF re(1), of l j] by (auto simp: active_candidate_def)
  ultimately show ?thesis
    using a pend res appr unfolding joins_agree_def mem by (metis finsert_iff)
qed

lemma agree_approve:
  assumes inv: "group_inv p" and a: "joins_agree p" and "approve_join r o1 k now p = (Inr x, q)"
  shows "joins_agree q"
proof -
  from assms(3) obtain n j iv u where j: "fmlookup (gp_pending_joins p) k = Some j"
    and x: "aj_candidate_id x = pj_candidate_id j"
    and q: "q = p\<lparr> gp_invitations := fmupd (pj_invite_id j) (iv\<lparr> ic_use_count := u \<rparr>) (gp_invitations p),
            gp_members := finsert (pj_candidate_id j) (gp_members p),
            gp_pending_joins := fmdrop k (gp_pending_joins p),
            gp_approved_joins := fmupd k x (gp_approved_joins p), gp_revision := n \<rparr>"
    unfolding approve_join_Ok by (metis ApprovedJoin.select_convs(2))
  have "fmlookup (gp_reserved_joins p) k = None"
    using group_invD(2) [OF inv] apart_at(1) [OF _ j] by (auto simp: requests_ok_def)
  then show ?thesis
    using j x by (intro agree_admit [OF inv a, of k "pj_candidate_id j"])
      (auto simp: q active_candidate_def split: if_splits)
qed

lemma agree_finalize:
  assumes inv: "group_inv p" and a: "joins_agree p" and "finalize_reserved_join r k now p = (Inr x, q)"
  shows "joins_agree q"
proof -
  from assms(3) obtain n j iv w u where j: "fmlookup (gp_reserved_joins p) k = Some j"
    and x: "aj_candidate_id x = rj_candidate_id j"
    and q: "q = p\<lparr> gp_invitations := fmupd (rj_invite_id j)
              (iv\<lparr> ic_reserved_use_count := w, ic_use_count := u \<rparr>) (gp_invitations p),
            gp_reserved_joins := fmdrop k (gp_reserved_joins p),
            gp_members := finsert (rj_candidate_id j) (gp_members p),
            gp_approved_joins := fmupd k x (gp_approved_joins p), gp_revision := n \<rparr>"
    unfolding finalize_reserved_join_Ok by (metis ApprovedJoin.select_convs(2))
  have "fmlookup (gp_pending_joins p) k = None"
    using group_invD(2) [OF inv] apart_at(2) [OF _ j] by (auto simp: requests_ok_def)
  then show ?thesis
    using j x by (intro agree_admit [OF inv a, of k "rj_candidate_id j"])
      (auto simp: q active_candidate_def split: if_splits)
qed

lemma agree_others:
  assumes "joins_agree p"
  shows "revoke_admin r a b p = (Inr n, q) \<Longrightarrow> joins_agree q"
    and "issue_invite r a i t m ex now p = (Inr x, q) \<Longrightarrow> joins_agree q"
    and "revoke_invite r a i p = (Inr n, q) \<Longrightarrow> joins_agree q"
    and "request_join r a c k i now p = (Inr y, q) \<Longrightarrow> joins_agree q"
    and "release_join_reservation r k p = (Inr z, q) \<Longrightarrow> joins_agree q"
  using assms
  by (auto simp: joins_agree_def revoke_admin_Ok issue_invite_Ok revoke_invite_Ok request_join_Ok
      release_join_reservation_Ok split: if_splits)

lemma agree_reserve:
  assumes "joins_agree p" "reserve_join r a k now p = (Inr x, q)"
  shows "joins_agree q"
  using assms(2) [unfolded reserve_join_Ok]
  by (elim exE conjE) (use assms(1) in \<open>simp add: joins_agree_def\<close>)

lemma agree_step:
  assumes "group_inv p" "joins_agree p" "group_apply c r p = (Inr u, q)"
  shows "joins_agree q \<longleftrightarrow> \<not> breaks_agreement p c"
  using assms(3)
  by (cases c) (auto simp: forget_Ok breaks_agreement_def agree_grant [OF assms(2)] agree_remove [OF assms(2)]
      intro: agree_others [OF assms(2)] agree_reserve [OF assms(2)] agree_approve [OF assms(1,2)]
        agree_finalize [OF assms(1,2)])

lemma from_snapshot_iff:
  assumes "group_inv p"
  shows "group_policy_from_snapshot (snapshot p) = Inr p \<longleftrightarrow> joins_agree p"
    and "is_ok (group_policy_from_snapshot (snapshot p)) \<longleftrightarrow> joins_agree p"
  by (simp_all add: from_snapshot_Ok is_ok_iff snapshot_valid_iff [OF assms] policy_of_snapshot [OF assms])

section \<open>Images\<close>

lemma authority_image [simp]: "authority_from_persistence (authority_persistence a) = a"
  by (simp add: authority_from_persistence_def authority_persistence_def split: InviteIssuerAuthority.split)

lemma images [simp]:
  "invite_of_image (ic_scope iv) (invite_image iv) = iv" "pending_of_image (pending_image j) = j"
  "reserved_of_image (reserved_image r) = r" "approved_of_image (approved_image a) = a"
  by (simp_all add: invite_of_image_def invite_image_def pending_of_image_def pending_image_def
      reserved_of_image_def reserved_image_def approved_of_image_def approved_image_def)

lemma image_of_snapshot:
  assumes "\<forall>iv\<in>set (gs_invitations s). ic_scope iv = gs_scope s"
  shows "try_from_persistence_image (persistence_image s) = map_ok (\<lambda>_. s) (group_policy_from_snapshot s)"
proof -
  have "invite_of_image (gs_scope s) (invite_image iv) = iv" if "iv \<in> set (gs_invitations s)" for iv
    using images(1) [of iv] assms that by simp
  then have "map (invite_of_image (gs_scope s)) (map invite_image (gs_invitations s)) = gs_invitations s"
    by (simp add: map_idI)
  then have "try_from_persistence_image (persistence_image s) = res_bind (try_from_snapshot s) (\<lambda>_. Inr s)"
    by (cases s) (simp add: try_from_persistence_image_def persistence_image_def Let_def map_idI)
  then show ?thesis by (cases "group_policy_from_snapshot s") (simp_all add: try_from_snapshot_def)
qed

section \<open>The example group, stored and loaded\<close>

definition demo_admitted :: GroupPolicy where
  "demo_admitted = run_calls group_apply [(FinalizeReservedJoin (UuidId 5) 30, Revision 5)] demo_reserved"

definition demo_join :: ApprovedJoin where
  "demo_join = \<lparr> aj_request_id = UuidId 5, aj_candidate_id = demo_guest, aj_invite_id = UuidId 3,
     aj_approved_by = demo_owner, aj_approved_at_ms = 30, aj_policy_revision = Revision 4 \<rparr>"

lemma demo_admitted_eq:
  "demo_admitted = demo_reserved\<lparr> gp_members := {|demo_guest, demo_admin, demo_owner|},
     gp_invitations := fmupd (UuidId 3) (demo_invite\<lparr> ic_use_count := 1, ic_reserved_use_count := 0 \<rparr>) fmempty,
     gp_reserved_joins := fmempty, gp_approved_joins := fmupd (UuidId 5) demo_join fmempty,
     gp_revision := Revision 6 \<rparr>"
  unfolding demo_admitted_def demo_reserved_eq
  by (simp add: group_eval demo_join_def fmupd_twice fmdrop_upd_same)

lemma demo_admitted_reachable: "group_reachable demo_admitted"
  unfolding demo_admitted_def by (rule reachable_run [OF demo_reserved_reachable])

lemma demo_agree: "joins_agree demo_reserved" "joins_agree demo_admitted"
  by (simp_all add: joins_agree_def demo_admitted_eq demo_reserved_eq demo_reservation_def demo_join_def
      demo_guest_def demo_admin_def demo_owner_def split: if_splits)

section \<open>Properties\<close>

text \<open>C14. Loading is safe: whatever lists a repository returns, an aggregate the validator accepts
  satisfies the group invariant, and so does every state reached from it by further calls.\<close>
theorem group_loaded_invariant:
  assumes "revisions_valid s" "group_policy_from_snapshot s = Inr p"
  shows "group_inv (run_calls group_apply crs p)"
  using assms policy_of_inv(1) group_calls.run_inv by (auto simp: from_snapshot_Ok)

theorem group_loaded_invariant_witness:
  "group_policy_from_snapshot (snapshot demo_reserved) = Inr demo_reserved
   \<and> group_inv (run_calls group_apply [(ReleaseJoinReservation (UuidId 5), Revision 5)] demo_reserved)"
proof -
  have i: "group_inv demo_reserved" by (rule group_reachable_inv [OF demo_reserved_reachable])
  have l: "group_policy_from_snapshot (snapshot demo_reserved) = Inr demo_reserved"
    using from_snapshot_iff(1) [OF i] demo_agree(1) by blast
  have "revisions_valid (snapshot demo_reserved)"
    by (simp add: revisions_valid_def snapshot_def demo_reserved_eq valid_revision_def Revision_MAX_def)
  from group_loaded_invariant [OF this l] l show ?thesis by blast
qed

text \<open>C15. Storing and loading a group is the identity, and does not fail, exactly when its records
  agree with its membership: no active request of a member, no approved join of a non-member.\<close>
theorem group_snapshot_roundtrip:
  assumes "group_reachable p"
  shows "(group_policy_from_snapshot (snapshot p) = Inr p \<longleftrightarrow> joins_agree p)
    \<and> (is_ok (group_policy_from_snapshot (snapshot p)) \<longleftrightarrow> joins_agree p)"
  using from_snapshot_iff [OF group_reachable_inv [OF assms]] by blast

theorem group_snapshot_roundtrip_witness:
  "group_policy_from_snapshot (snapshot demo_admitted) = Inr demo_admitted"
  using group_snapshot_roundtrip [OF demo_admitted_reachable] demo_agree(2) by blast

text \<open>The stored image loses nothing: reading back the image of a reachable group's snapshot gives
  the same snapshot whenever the validator accepts that snapshot, and the same error otherwise.\<close>
theorem group_image_roundtrip:
  assumes "group_reachable p"
  shows "try_from_persistence_image (persistence_image (snapshot p)) =
    map_ok (\<lambda>_. snapshot p) (try_from_snapshot (snapshot p))"
proof -
  have "\<forall>iv\<in>set (gs_invitations (snapshot p)). ic_scope iv = gs_scope (snapshot p)"
    using group_invD(3) [OF group_reachable_inv [OF assms]] by (auto simp: set_fm_values invite_ok_def)
  from image_of_snapshot [OF this] show ?thesis by (simp add: try_from_snapshot_def)
qed

theorem group_image_roundtrip_witness:
  "try_from_persistence_image (persistence_image (snapshot demo_admitted)) = Inr (snapshot demo_admitted)"
  using group_image_roundtrip [OF demo_admitted_reachable]
    from_snapshot_iff(1) [OF group_reachable_inv [OF demo_admitted_reachable]] demo_agree(2)
  by (simp add: try_from_snapshot_def)

text \<open>C16. Which calls make a stored group unloadable. From a reachable group that can be loaded, a
  successful call leads to a group that can be loaded, unless it removes a member who was
  admitted through a join request, or makes an administrator of an identity with a join request
  in flight; in these two cases the resulting group is always refused.\<close>
theorem group_stays_loadable:
  assumes "group_reachable p" "group_policy_from_snapshot (snapshot p) = Inr p"
    and "group_apply c r p = (Inr u, q)"
  shows "is_ok (group_policy_from_snapshot (snapshot q)) \<longleftrightarrow> \<not> breaks_agreement p c"
proof -
  note inv = group_reachable_inv [OF assms(1)]
  have "joins_agree p" using from_snapshot_iff(1) [OF inv] assms(2) by blast
  from agree_step [OF inv this assms(3)] show ?thesis
    using from_snapshot_iff(2) [OF group_apply_inv [OF inv assms(3)]] by blast
qed

theorem group_stays_loadable_witness:
  "is_ok (fst (group_apply (RemoveMember demo_owner demo_guest) (Revision 6) demo_admitted))
   \<and> \<not> is_ok (group_policy_from_snapshot (snapshot
        (snd (group_apply (RemoveMember demo_owner demo_guest) (Revision 6) demo_admitted))))"
proof -
  obtain q where q: "group_apply (RemoveMember demo_owner demo_guest) (Revision 6) demo_admitted = (Inr (), q)"
    by (simp add: demo_admitted_eq demo_reserved_eq) (simp add: group_eval)
  have l: "group_policy_from_snapshot (snapshot demo_admitted) = Inr demo_admitted"
    using from_snapshot_iff(1) [OF group_reachable_inv [OF demo_admitted_reachable]] demo_agree(2) by blast
  have "breaks_agreement demo_admitted (RemoveMember demo_owner demo_guest)"
    by (simp add: breaks_agreement_def fm_any_iff demo_admitted_eq demo_join_def)
  then show ?thesis
    using group_stays_loadable [OF demo_admitted_reachable l q] q by simp
qed

end
