(* ===== verification/Membership.thy ===== *)
theory Membership
  imports Wire Group_Policy
begin

text \<open>
  The crate \<open>dtx-membership-command\<close>: the replay-safe book of membership commands. The book
  remembers every command under its identity and under its idempotency key, and drives one
  workflow per join request from the request over an approval to the result of a remote
  sequencer. The \<open>uuid\<close> crate's hyphenated printer and SHA-256 are arguments; the \<open>expect\<close> on the
  transcript encoder is the value \<open>Panic\<close>.
\<close>

section \<open>Ordered keys\<close>

instantiation GroupScope :: linorder
begin

fun less_eq_GroupScope :: "GroupScope \<Rightarrow> GroupScope \<Rightarrow> bool" where
  "PrivateConversation a \<le> PrivateConversation b = (a \<le> b)"
| "ControlledPublicChannel a \<le> ControlledPublicChannel b = (a \<le> b)"
| "PrivateConversation a \<le> ControlledPublicChannel b = True"
| "ControlledPublicChannel a \<le> PrivateConversation b = False"

definition less_GroupScope :: "GroupScope \<Rightarrow> GroupScope \<Rightarrow> bool" where
  "less_GroupScope a b = (a \<le> b \<and> \<not> b \<le> a)"

instance
proof
  fix x y z :: GroupScope
  show "x < y \<longleftrightarrow> x \<le> y \<and> \<not> y \<le> x" by (rule less_GroupScope_def)
  show "x \<le> x" by (cases x) auto
  show "x \<le> y \<Longrightarrow> y \<le> z \<Longrightarrow> x \<le> z" by (cases x; cases y; cases z) auto
  show "x \<le> y \<Longrightarrow> y \<le> x \<Longrightarrow> x = y" by (cases x; cases y) auto
  show "x \<le> y \<or> y \<le> x" by (cases x; cases y) auto
qed

end

instantiation Sha256Digest :: linorder
begin

definition less_eq_Sha256Digest :: "Sha256Digest \<Rightarrow> Sha256Digest \<Rightarrow> bool" where
  "less_eq_Sha256Digest a b = (sha_word a \<le> sha_word b)"

definition less_Sha256Digest :: "Sha256Digest \<Rightarrow> Sha256Digest \<Rightarrow> bool" where
  "less_Sha256Digest a b = (sha_word a < sha_word b)"

instance
  by standard (auto simp: less_eq_Sha256Digest_def less_Sha256Digest_def intro: Sha256Digest.expand)

end

datatype MembershipCommandId = MembershipCommandId (request_id: RequestId)

instantiation MembershipCommandId :: linorder
begin

definition less_eq_MembershipCommandId :: "MembershipCommandId \<Rightarrow> MembershipCommandId \<Rightarrow> bool" where
  "less_eq_MembershipCommandId a b = (request_id a \<le> request_id b)"

definition less_MembershipCommandId :: "MembershipCommandId \<Rightarrow> MembershipCommandId \<Rightarrow> bool" where
  "less_MembershipCommandId a b = (request_id a < request_id b)"

instance
  by standard (auto simp: less_eq_MembershipCommandId_def less_MembershipCommandId_def
      intro: MembershipCommandId.expand)

end

datatype IdempotencyLookup =
  IdempotencyLookup (il_scope: GroupScope) (il_actor_identity_id: IdentityId) (il_idempotency_key_hash: Sha256Digest)

instantiation IdempotencyLookup :: linorder
begin

definition less_eq_IdempotencyLookup :: "IdempotencyLookup \<Rightarrow> IdempotencyLookup \<Rightarrow> bool" where
  "less_eq_IdempotencyLookup a b =
     (il_scope a < il_scope b
      \<or> (il_scope a = il_scope b
         \<and> (il_actor_identity_id a < il_actor_identity_id b
            \<or> (il_actor_identity_id a = il_actor_identity_id b
               \<and> il_idempotency_key_hash a \<le> il_idempotency_key_hash b))))"

definition less_IdempotencyLookup :: "IdempotencyLookup \<Rightarrow> IdempotencyLookup \<Rightarrow> bool" where
  "less_IdempotencyLookup a b = (a \<le> b \<and> \<not> b \<le> a)"

instance
proof
  fix x y z :: IdempotencyLookup
  show "x < y \<longleftrightarrow> x \<le> y \<and> \<not> y \<le> x" by (rule less_IdempotencyLookup_def)
  show "x \<le> x" by (simp add: less_eq_IdempotencyLookup_def)
  show "x \<le> y \<Longrightarrow> y \<le> z \<Longrightarrow> x \<le> z" unfolding less_eq_IdempotencyLookup_def by (auto intro: order.trans)
  show "x \<le> y \<Longrightarrow> y \<le> x \<Longrightarrow> x = y"
    unfolding less_eq_IdempotencyLookup_def by (cases x; cases y) auto
  show "x \<le> y \<or> y \<le> x" unfolding less_eq_IdempotencyLookup_def by auto
qed

end

section \<open>Commands\<close>

record MembershipFence =
  mf_policy_revision :: Revision
  mf_sequencer_head :: Sha256Digest

record MembershipCommandContext =
  cx_command_id :: MembershipCommandId
  cx_idempotency_key_hash :: Sha256Digest
  cx_scope :: GroupScope
  cx_actor_identity_id :: IdentityId
  cx_actor_device_id :: DeviceId
  cx_join_request_id :: JoinRequestId
  cx_candidate_identity_id :: IdentityId
  cx_candidate_device_id :: DeviceId
  cx_invite_id :: InviteCapabilityId
  cx_fence :: MembershipFence
  cx_candidate_key_package_digest :: "Sha256Digest option"

definition context_new ::
  "MembershipCommandId \<Rightarrow> Sha256Digest \<Rightarrow> GroupScope \<Rightarrow> IdentityId \<Rightarrow> DeviceId \<Rightarrow> JoinRequestId \<Rightarrow> IdentityId
    \<Rightarrow> DeviceId \<Rightarrow> InviteCapabilityId \<Rightarrow> MembershipFence \<Rightarrow> MembershipCommandContext" where
  "context_new command_id key_hash scope actor actor_device join_id candidate candidate_device invite_id fence =
     \<lparr> cx_command_id = command_id, cx_idempotency_key_hash = key_hash, cx_scope = scope,
       cx_actor_identity_id = actor, cx_actor_device_id = actor_device, cx_join_request_id = join_id,
       cx_candidate_identity_id = candidate, cx_candidate_device_id = candidate_device,
       cx_invite_id = invite_id, cx_fence = fence, cx_candidate_key_package_digest = None \<rparr>"

definition context_new_v2 ::
  "MembershipCommandId \<Rightarrow> Sha256Digest \<Rightarrow> GroupScope \<Rightarrow> IdentityId \<Rightarrow> DeviceId \<Rightarrow> JoinRequestId \<Rightarrow> IdentityId
    \<Rightarrow> DeviceId \<Rightarrow> InviteCapabilityId \<Rightarrow> MembershipFence \<Rightarrow> Sha256Digest \<Rightarrow> MembershipCommandContext" where
  "context_new_v2 command_id key_hash scope actor actor_device join_id candidate candidate_device invite_id fence kp =
     \<lparr> cx_command_id = command_id, cx_idempotency_key_hash = key_hash, cx_scope = scope,
       cx_actor_identity_id = actor, cx_actor_device_id = actor_device, cx_join_request_id = join_id,
       cx_candidate_identity_id = candidate, cx_candidate_device_id = candidate_device,
       cx_invite_id = invite_id, cx_fence = fence, cx_candidate_key_package_digest = Some kp \<rparr>"

datatype CommandKind = KindRequestJoin | KindApproveJoin

definition kind_code :: "CommandKind \<Rightarrow> u64" where
  "kind_code self = (case self of KindRequestJoin \<Rightarrow> 1 | KindApproveJoin \<Rightarrow> 2)"

datatype MembershipCommandError =
    IdempotencyConflict | CommandIdConflict | ActorCandidateMismatch | JoinRequestConflict
  | JoinRequestNotFound | JoinRequestMismatch | JoinCommitInFlight | JoinWorkflowTerminal
  | CommandNotFound | CommandNotReady | CommitReferenceMismatch | TerminalResolutionConflict
  | InvariantViolation

section \<open>Request digests\<close>

definition MEMBERSHIP_COMMAND_REQUEST_HASH_DOMAIN :: "byte list" where
  "MEMBERSHIP_COMMAND_REQUEST_HASH_DOMAIN = ascii ''dirextalk.membership-command-request.v1'' @ [0]"

definition MEMBERSHIP_COMMAND_REQUEST_V2_HASH_DOMAIN :: "byte list" where
  "MEMBERSHIP_COMMAND_REQUEST_V2_HASH_DOMAIN = ascii ''dirextalk.membership-command-request.v2'' @ [0]"

text \<open>\<open>uuid_text\<close> is the hyphenated form the \<open>uuid\<close> crate prints, \<open>sha256\<close> the hash function.\<close>

definition scope_value :: "(128 word \<Rightarrow> byte list) \<Rightarrow> GroupScope \<Rightarrow> CanonicalValue" where
  "scope_value uuid_text scope =
     (let (kind, identifier) = (case scope of
        PrivateConversation identifier \<Rightarrow> (1, uuid_text (as_uuid identifier))
      | ControlledPublicChannel identifier \<Rightarrow> (2, channel_to_string identifier))
      in Map [(Unsigned 1, Unsigned kind), (Unsigned 2, Text identifier)])"

definition command_fields ::
  "(128 word \<Rightarrow> byte list) \<Rightarrow> CommandKind \<Rightarrow> MembershipCommandContext \<Rightarrow> Sha256Digest option
    \<Rightarrow> (CanonicalValue \<times> CanonicalValue) list" where
  "command_fields uuid_text kind context authorization_digest =
     [(Unsigned 1, Unsigned (kind_code kind)),
      (Unsigned 2, Text (uuid_text (as_uuid (request_id (cx_command_id context))))),
      (Unsigned 3, scope_value uuid_text (cx_scope context)),
      (Unsigned 4, Text (identity_to_string (cx_actor_identity_id context))),
      (Unsigned 5, Text (uuid_text (as_uuid (cx_actor_device_id context)))),
      (Unsigned 6, Text (uuid_text (as_uuid (cx_join_request_id context)))),
      (Unsigned 7, Text (identity_to_string (cx_candidate_identity_id context))),
      (Unsigned 8, Text (uuid_text (as_uuid (cx_candidate_device_id context)))),
      (Unsigned 9, Text (uuid_text (as_uuid (cx_invite_id context)))),
      (Unsigned 10, Unsigned (rev_get (mf_policy_revision (cx_fence context)))),
      (Unsigned 11, Bytes (sha_as_bytes (mf_sequencer_head (cx_fence context)))),
      (Unsigned 12, case authorization_digest of None \<Rightarrow> Null | Some digest \<Rightarrow> Bytes (sha_as_bytes digest))]
     @ (case cx_candidate_key_package_digest context of
          None \<Rightarrow> []
        | Some key_package \<Rightarrow> [(Unsigned 13, Bytes (sha_as_bytes key_package))])"

definition command_domain :: "MembershipCommandContext \<Rightarrow> byte list" where
  "command_domain context =
     (case cx_candidate_key_package_digest context of
        None \<Rightarrow> MEMBERSHIP_COMMAND_REQUEST_HASH_DOMAIN
      | Some _ \<Rightarrow> MEMBERSHIP_COMMAND_REQUEST_V2_HASH_DOMAIN)"

definition command_digest ::
  "(128 word \<Rightarrow> byte list) \<Rightarrow> (byte list \<Rightarrow> 256 word) \<Rightarrow> CommandKind \<Rightarrow> MembershipCommandContext
    \<Rightarrow> Sha256Digest option \<Rightarrow> MembershipCommandError fault + Sha256Digest" where
  "command_digest uuid_text sha256 kind context authorization_digest =
     (case encode_deterministic_cbor (Map (command_fields uuid_text kind context authorization_digest)) of
        Inl _ \<Rightarrow> Inl Panic
      | Inr bytes \<Rightarrow> Inr (hash_domain sha256 (command_domain context) bytes))"

definition join_request_digest ::
  "(128 word \<Rightarrow> byte list) \<Rightarrow> (byte list \<Rightarrow> 256 word) \<Rightarrow> MembershipCommandContext \<Rightarrow> MembershipCommandError fault + Sha256Digest" where
  "join_request_digest uuid_text sha256 self = command_digest uuid_text sha256 KindRequestJoin self None"

record JoinRequestCommand =
  jr_context :: MembershipCommandContext
  jr_request_digest :: Sha256Digest

definition JoinRequestCommand_new ::
  "(128 word \<Rightarrow> byte list) \<Rightarrow> (byte list \<Rightarrow> 256 word) \<Rightarrow> MembershipCommandContext
    \<Rightarrow> MembershipCommandError fault + JoinRequestCommand" where
  "JoinRequestCommand_new uuid_text sha256 context =
     map_ok (\<lambda>digest. \<lparr> jr_context = context, jr_request_digest = digest \<rparr>)
       (join_request_digest uuid_text sha256 context)"

record ApproveJoinCommand =
  ac_context :: MembershipCommandContext
  ac_authorization_digest :: Sha256Digest
  ac_request_digest :: Sha256Digest

definition ApproveJoinCommand_new ::
  "(128 word \<Rightarrow> byte list) \<Rightarrow> (byte list \<Rightarrow> 256 word) \<Rightarrow> MembershipCommandContext \<Rightarrow> Sha256Digest
    \<Rightarrow> MembershipCommandError fault + ApproveJoinCommand" where
  "ApproveJoinCommand_new uuid_text sha256 context authorization_digest =
     map_ok (\<lambda>digest. \<lparr> ac_context = context, ac_authorization_digest = authorization_digest,
         ac_request_digest = digest \<rparr>)
       (command_digest uuid_text sha256 KindApproveJoin context (Some authorization_digest))"

end
