(* ===== verification/Membership_Book.thy ===== *)
theory Membership_Book
  imports Membership
begin

text \<open>
  The command book of \<open>dtx-membership-command\<close>: its records, the four methods that change it,
  the queries, the snapshot and the validator that rebuilds a book from stored rows.
\<close>

section \<open>Records\<close>

record MembershipCommitReference =
  cr_scope :: GroupScope
  cr_command_id :: MembershipCommandId
  cr_request_digest :: Sha256Digest
  cr_committed_digest :: Sha256Digest

datatype MembershipAdmission =
    Applied MembershipCommitReference
  | AdmittedAlready MembershipCommitReference

definition commit_reference :: "MembershipAdmission \<Rightarrow> MembershipCommitReference" where
  "commit_reference self = (case self of Applied reference \<Rightarrow> reference | AdmittedAlready reference \<Rightarrow> reference)"

datatype MembershipRejection = PolicyDenied | StaleFence | AdmissionDenied

datatype MembershipCommandPhase =
    PhasePendingApproval | PhasePendingCommit | PhaseReconciling
  | PhaseCommitted MembershipAdmission | PhaseRejected MembershipRejection

definition is_terminal :: "MembershipCommandPhase \<Rightarrow> bool" where
  "is_terminal self = (case self of PhaseCommitted _ \<Rightarrow> True | PhaseRejected _ \<Rightarrow> True | _ \<Rightarrow> False)"

record MembershipReceipt =
  re_command_id :: MembershipCommandId
  re_request_digest :: Sha256Digest
  re_phase :: MembershipCommandPhase

datatype CandidateMembership = NotMember | MemberAlready MembershipCommitReference

datatype SequencerResolution =
    ResolvedCommitted MembershipCommitReference
  | ResolvedRejected MembershipRejection
  | ResolvedAbsent
  | ResolvedUnknown

record SequencerSubmit =
  ss_scope :: GroupScope
  ss_command_id :: MembershipCommandId
  ss_request_digest :: Sha256Digest
  ss_join_request_id :: JoinRequestId
  ss_actor_identity_id :: IdentityId
  ss_actor_device_id :: DeviceId
  ss_candidate_identity_id :: IdentityId
  ss_candidate_device_id :: DeviceId
  ss_invite_id :: InviteCapabilityId
  ss_fence :: MembershipFence
  ss_authorization_digest :: Sha256Digest

definition submit_idempotency :: "SequencerSubmit \<Rightarrow> MembershipCommandId \<times> Sha256Digest" where
  "submit_idempotency self = (ss_command_id self, ss_request_digest self)"

record SequencerQuery =
  sq_scope :: GroupScope
  sq_command_id :: MembershipCommandId
  sq_request_digest :: Sha256Digest

definition query_idempotency :: "SequencerQuery \<Rightarrow> MembershipCommandId \<times> Sha256Digest" where
  "query_idempotency self = (sq_command_id self, sq_request_digest self)"

datatype SequencerAction = Submit SequencerSubmit | Query SequencerQuery

record StoredCommand =
  sc_kind :: CommandKind
  sc_request_digest :: Sha256Digest
  sc_workflow_id :: "JoinRequestId option"
  sc_terminal_phase :: "MembershipCommandPhase option"

definition stored_workflow :: "CommandKind \<Rightarrow> Sha256Digest \<Rightarrow> JoinRequestId \<Rightarrow> StoredCommand" where
  "stored_workflow kind request_digest workflow_id =
     \<lparr> sc_kind = kind, sc_request_digest = request_digest, sc_workflow_id = Some workflow_id,
       sc_terminal_phase = None \<rparr>"

definition stored_terminal :: "CommandKind \<Rightarrow> Sha256Digest \<Rightarrow> MembershipCommandPhase \<Rightarrow> StoredCommand" where
  "stored_terminal kind request_digest terminal_phase =
     \<lparr> sc_kind = kind, sc_request_digest = request_digest, sc_workflow_id = None,
       sc_terminal_phase = Some terminal_phase \<rparr>"

datatype WorkflowPhase =
    PendingApproval
  | PendingCommit MembershipCommandId MembershipCommandContext Sha256Digest
  | Reconciling MembershipCommandId MembershipCommandContext Sha256Digest
  | Committed MembershipAdmission
  | Rejected MembershipRejection

definition as_public :: "WorkflowPhase \<Rightarrow> MembershipCommandPhase" where
  "as_public self =
     (case self of
        PendingApproval \<Rightarrow> PhasePendingApproval
      | PendingCommit _ _ _ \<Rightarrow> PhasePendingCommit
      | Reconciling _ _ _ \<Rightarrow> PhaseReconciling
      | Committed admission \<Rightarrow> PhaseCommitted admission
      | Rejected rejection \<Rightarrow> PhaseRejected rejection)"

record JoinWorkflow =
  jw_context :: MembershipCommandContext
  jw_phase :: WorkflowPhase

definition workflow_pending :: "MembershipCommandContext \<Rightarrow> JoinWorkflow" where
  "workflow_pending context = \<lparr> jw_context = context, jw_phase = PendingApproval \<rparr>"

definition workflow_context_matches :: "MembershipCommandContext \<Rightarrow> MembershipCommandContext \<Rightarrow> bool" where
  "workflow_context_matches request candidate =
     (cx_scope request = cx_scope candidate
      \<and> cx_join_request_id request = cx_join_request_id candidate
      \<and> cx_candidate_identity_id request = cx_candidate_identity_id candidate
      \<and> cx_candidate_device_id request = cx_candidate_device_id candidate
      \<and> cx_invite_id request = cx_invite_id candidate
      \<and> cx_candidate_key_package_digest request = cx_candidate_key_package_digest candidate)"

definition lookup_new :: "MembershipCommandContext \<Rightarrow> IdempotencyLookup" where
  "lookup_new context =
     IdempotencyLookup (cx_scope context) (cx_actor_identity_id context) (cx_idempotency_key_hash context)"

record MembershipCommandBook =
  mb_commands :: "(MembershipCommandId, StoredCommand) fmap"
  mb_idempotency :: "(IdempotencyLookup, MembershipCommandId) fmap"
  mb_workflows :: "(JoinRequestId, JoinWorkflow) fmap"

type_synonym 'r book_op = "MembershipCommandBook \<Rightarrow> (MembershipCommandError + 'r) \<times> MembershipCommandBook"

definition book_new :: MembershipCommandBook where
  "book_new = \<lparr> mb_commands = fmempty, mb_idempotency = fmempty, mb_workflows = fmempty \<rparr>"

section \<open>Receipts and replay\<close>

definition receipt_for ::
  "MembershipCommandBook \<Rightarrow> MembershipCommandId \<Rightarrow> MembershipCommandError + MembershipReceipt" where
  "receipt_for self command_id =
     res_bind (ok_or CommandNotFound (fmlookup (mb_commands self) command_id)) (\<lambda>command.
     res_bind (case (sc_workflow_id command, sc_terminal_phase command) of
         (Some workflow_id, None) \<Rightarrow>
           ok_or InvariantViolation (map_option (\<lambda>workflow. as_public (jw_phase workflow))
             (fmlookup (mb_workflows self) workflow_id))
       | (None, Some phase) \<Rightarrow> Inr phase
       | _ \<Rightarrow> Inl InvariantViolation) (\<lambda>phase.
     Inr \<lparr> re_command_id = command_id, re_request_digest = sc_request_digest command, re_phase = phase \<rparr>))"

definition receipt ::
  "MembershipCommandBook \<Rightarrow> MembershipCommandId \<Rightarrow> MembershipCommandError + MembershipReceipt" where
  "receipt self command_id = receipt_for self command_id"

definition existing_or_conflict ::
  "MembershipCommandBook \<Rightarrow> MembershipCommandId \<Rightarrow> Sha256Digest \<Rightarrow> IdempotencyLookup
    \<Rightarrow> MembershipCommandError + MembershipReceipt option" where
  "existing_or_conflict self command_id request_digest idempotency =
     (case fmlookup (mb_commands self) command_id of
        Some existing \<Rightarrow>
          if sc_request_digest existing \<noteq> request_digest then Inl CommandIdConflict
          else map_ok Some (receipt_for self command_id)
      | None \<Rightarrow>
          (case fmlookup (mb_idempotency self) idempotency of
             Some existing_id \<Rightarrow>
               res_bind (ok_or InvariantViolation (fmlookup (mb_commands self) existing_id)) (\<lambda>existing.
               if sc_request_digest existing \<noteq> request_digest then Inl IdempotencyConflict
               else map_ok Some (receipt_for self existing_id))
           | None \<Rightarrow> Inr None))"

section \<open>Requests and approvals\<close>

definition record_join_request ::
  "JoinRequestCommand \<Rightarrow> CandidateMembership \<Rightarrow> MembershipReceipt book_op" where
  "record_join_request command candidate_membership self =
     (let context = jr_context command in
      try_in self (existing_or_conflict self (cx_command_id context) (jr_request_digest command)
          (lookup_new context)) (\<lambda>found.
      case found of Some rec \<Rightarrow> (Inr rec, self) | None \<Rightarrow>
      if cx_actor_identity_id context \<noteq> cx_candidate_identity_id context
      then (Inl ActorCandidateMismatch, self)
      else case candidate_membership of
        MemberAlready reference \<Rightarrow>
          if cr_scope reference \<noteq> cx_scope context then (Inl CommitReferenceMismatch, self)
          else
            let phase = PhaseCommitted (AdmittedAlready reference);
                self = self\<lparr> mb_commands := fmupd (cx_command_id context)
                      (stored_terminal KindRequestJoin (jr_request_digest command) phase) (mb_commands self),
                    mb_idempotency := fmupd (lookup_new context) (cx_command_id context) (mb_idempotency self) \<rparr>
            in (receipt_for self (cx_command_id context), self)
      | NotMember \<Rightarrow>
          if contains_key (mb_workflows self) (cx_join_request_id context) then (Inl JoinRequestConflict, self)
          else
            let self = self\<lparr> mb_commands := fmupd (cx_command_id context)
                      (stored_workflow KindRequestJoin (jr_request_digest command) (cx_join_request_id context))
                      (mb_commands self),
                    mb_idempotency := fmupd (lookup_new context) (cx_command_id context) (mb_idempotency self),
                    mb_workflows := fmupd (cx_join_request_id context) (workflow_pending context)
                      (mb_workflows self) \<rparr>
            in (receipt_for self (cx_command_id context), self)))"

definition book_approve_join ::
  "ApproveJoinCommand \<Rightarrow> CandidateMembership \<Rightarrow> MembershipReceipt book_op" where
  "book_approve_join command candidate_membership self =
     (let context = ac_context command in
      try_in self (existing_or_conflict self (cx_command_id context) (ac_request_digest command)
          (lookup_new context)) (\<lambda>found.
      case found of Some rec \<Rightarrow> (Inr rec, self) | None \<Rightarrow>
      try_in self (ok_or JoinRequestNotFound
          (fmlookup (mb_workflows self) (cx_join_request_id context))) (\<lambda>workflow.
      if \<not> workflow_context_matches (jw_context workflow) context then (Inl JoinRequestMismatch, self)
      else case candidate_membership of
        MemberAlready reference \<Rightarrow>
          if cr_scope reference \<noteq> cx_scope context then (Inl CommitReferenceMismatch, self)
          else
            let phase = PhaseCommitted (AdmittedAlready reference);
                self = self\<lparr> mb_commands := fmupd (cx_command_id context)
                      (stored_terminal KindApproveJoin (ac_request_digest command) phase) (mb_commands self),
                    mb_idempotency := fmupd (lookup_new context) (cx_command_id context) (mb_idempotency self) \<rparr>;
                active = (case jw_phase workflow of
                    PendingApproval \<Rightarrow> True | PendingCommit _ _ _ \<Rightarrow> True | Reconciling _ _ _ \<Rightarrow> True | _ \<Rightarrow> False);
                self = (if active
                  then self\<lparr> mb_workflows := fmupd (cx_join_request_id context)
                      (workflow\<lparr> jw_phase := Committed (AdmittedAlready reference) \<rparr>) (mb_workflows self) \<rparr>
                  else self)
            in (receipt_for self (cx_command_id context), self)
      | NotMember \<Rightarrow>
          (case jw_phase workflow of
             PendingApproval \<Rightarrow>
               let self = self\<lparr> mb_commands := fmupd (cx_command_id context)
                         (stored_workflow KindApproveJoin (ac_request_digest command) (cx_join_request_id context))
                         (mb_commands self),
                       mb_idempotency := fmupd (lookup_new context) (cx_command_id context) (mb_idempotency self),
                       mb_workflows := fmupd (cx_join_request_id context)
                         (workflow\<lparr> jw_phase := PendingCommit (cx_command_id context) context
                            (ac_authorization_digest command) \<rparr>) (mb_workflows self) \<rparr>
               in (receipt_for self (cx_command_id context), self)
           | PendingCommit _ _ _ \<Rightarrow> (Inl JoinCommitInFlight, self)
           | Reconciling _ _ _ \<Rightarrow> (Inl JoinCommitInFlight, self)
           | Committed _ \<Rightarrow> (Inl JoinWorkflowTerminal, self)
           | Rejected _ \<Rightarrow> (Inl JoinWorkflowTerminal, self)))))"

section \<open>The sequencer\<close>

definition next_sequencer_action ::
  "MembershipCommandBook \<Rightarrow> MembershipCommandId \<Rightarrow> MembershipCommandError + SequencerAction option" where
  "next_sequencer_action self command_id =
     res_bind (ok_or CommandNotFound (fmlookup (mb_commands self) command_id)) (\<lambda>command.
     case sc_workflow_id command of None \<Rightarrow> Inr None | Some workflow_id \<Rightarrow>
     if sc_kind command \<noteq> KindApproveJoin then Inr None
     else res_bind (ok_or InvariantViolation (fmlookup (mb_workflows self) workflow_id)) (\<lambda>workflow.
       Inr (case jw_phase workflow of
          PendingCommit approval_command_id approval_context authorization_digest \<Rightarrow>
            if approval_command_id = command_id
            then Some (Submit \<lparr> ss_scope = cx_scope approval_context, ss_command_id = command_id,
                   ss_request_digest = sc_request_digest command,
                   ss_join_request_id = cx_join_request_id approval_context,
                   ss_actor_identity_id = cx_actor_identity_id approval_context,
                   ss_actor_device_id = cx_actor_device_id approval_context,
                   ss_candidate_identity_id = cx_candidate_identity_id approval_context,
                   ss_candidate_device_id = cx_candidate_device_id approval_context,
                   ss_invite_id = cx_invite_id approval_context, ss_fence = cx_fence approval_context,
                   ss_authorization_digest = authorization_digest \<rparr>)
            else None
        | Reconciling approval_command_id _ _ \<Rightarrow>
            if approval_command_id = command_id
            then Some (Query \<lparr> sq_scope = cx_scope (jw_context workflow), sq_command_id = command_id,
                   sq_request_digest = sc_request_digest command \<rparr>)
            else None
        | _ \<Rightarrow> None)))"

definition validate_commit_reference ::
  "MembershipCommitReference \<Rightarrow> GroupScope \<Rightarrow> MembershipCommandId \<Rightarrow> Sha256Digest
    \<Rightarrow> MembershipCommandError + unit" where
  "validate_commit_reference reference scope command_id request_digest =
     (if cr_scope reference = scope \<and> cr_command_id reference = command_id
         \<and> cr_request_digest reference = request_digest
      then Inr () else Inl CommitReferenceMismatch)"

text \<open>
  The result of a sequencer call on an active approval: the phase that follows. \<open>reconciling\<close> says
  whether the workflow is in that phase, the one in which \<open>Absent\<close> may re-arm the submit.
\<close>

definition resolve_active ::
  "bool \<Rightarrow> MembershipCommandId \<Rightarrow> MembershipCommandContext \<Rightarrow> Sha256Digest \<Rightarrow> GroupScope \<Rightarrow> Sha256Digest
    \<Rightarrow> SequencerResolution \<Rightarrow> MembershipCommandError + WorkflowPhase" where
  "resolve_active reconciling command_id approval_context authorization_digest scope request_digest resolution =
     (case resolution of
        ResolvedUnknown \<Rightarrow> Inr (Reconciling command_id approval_context authorization_digest)
      | ResolvedAbsent \<Rightarrow>
          if reconciling then Inr (PendingCommit command_id approval_context authorization_digest)
          else Inl CommandNotReady
      | ResolvedRejected rejection \<Rightarrow> Inr (Rejected rejection)
      | ResolvedCommitted reference \<Rightarrow>
          res_bind (validate_commit_reference reference scope command_id request_digest) (\<lambda>_.
          Inr (Committed (Applied reference))))"

definition observe_sequencer_resolution ::
  "MembershipCommandId \<Rightarrow> SequencerResolution \<Rightarrow> MembershipReceipt book_op" where
  "observe_sequencer_resolution command_id resolution self =
     try_in self (ok_or CommandNotFound (fmlookup (mb_commands self) command_id)) (\<lambda>command.
     if sc_kind command \<noteq> KindApproveJoin then (Inl CommandNotReady, self)
     else try_in self (ok_or CommandNotReady (sc_workflow_id command)) (\<lambda>workflow_id.
     try_in self (ok_or InvariantViolation (fmlookup (mb_workflows self) workflow_id)) (\<lambda>workflow.
     let advance = (\<lambda>reconciling approval_context authorization_digest.
           try_in self (resolve_active reconciling command_id approval_context authorization_digest
               (cx_scope (jw_context workflow)) (sc_request_digest command) resolution) (\<lambda>next_phase.
           let self = self\<lparr> mb_workflows := fmupd workflow_id (workflow\<lparr> jw_phase := next_phase \<rparr>)
                 (mb_workflows self) \<rparr>
           in (receipt_for self command_id, self)))
     in case jw_phase workflow of
          PendingCommit approval_command_id approval_context authorization_digest \<Rightarrow>
            if approval_command_id = command_id then advance False approval_context authorization_digest
            else (Inl CommandNotReady, self)
        | Reconciling approval_command_id approval_context authorization_digest \<Rightarrow>
            if approval_command_id = command_id then advance True approval_context authorization_digest
            else (Inl CommandNotReady, self)
        | Committed admission \<Rightarrow>
            if resolution = ResolvedCommitted (commit_reference admission) then (receipt_for self command_id, self)
            else (Inl TerminalResolutionConflict, self)
        | Rejected rejection \<Rightarrow>
            if resolution = ResolvedRejected rejection then (receipt_for self command_id, self)
            else (Inl TerminalResolutionConflict, self)
        | PendingApproval \<Rightarrow> (Inl CommandNotReady, self))))"

definition reject_locally ::
  "MembershipCommandId \<Rightarrow> MembershipRejection \<Rightarrow> MembershipReceipt book_op" where
  "reject_locally command_id rejection self =
     try_in self (ok_or CommandNotFound (fmlookup (mb_commands self) command_id)) (\<lambda>command.
     try_in self (ok_or CommandNotReady (sc_workflow_id command)) (\<lambda>workflow_id.
     try_in self (ok_or InvariantViolation (fmlookup (mb_workflows self) workflow_id)) (\<lambda>workflow.
     case (sc_kind command, jw_phase workflow) of
       (KindRequestJoin, PendingApproval) \<Rightarrow>
         let self = self\<lparr> mb_workflows := fmdrop workflow_id (mb_workflows self),
               mb_commands := fmupd command_id (stored_terminal KindRequestJoin (sc_request_digest command)
                 (PhaseRejected rejection)) (mb_commands self) \<rparr>
         in (receipt_for self command_id, self)
     | (KindApproveJoin, PendingCommit approval_command_id _ _) \<Rightarrow>
         if approval_command_id \<noteq> command_id then (Inl CommandNotReady, self)
         else
           let self = self\<lparr> mb_workflows := fmupd workflow_id (workflow\<lparr> jw_phase := Rejected rejection \<rparr>)
                 (mb_workflows self) \<rparr>
           in (receipt_for self command_id, self)
     | _ \<Rightarrow> (Inl CommandNotReady, self))))"

end
