(* ===== verification/Membership_Digest.thy ===== *)
theory Membership_Digest
  imports Membership Wire_Codec
begin

text \<open>
  The request digest of a membership command: the transcript always fits the CBOR profile, so
  the \<open>expect\<close> is never reached, and it determines every field of the command but the
  idempotency key.
\<close>

text \<open>What the \<open>uuid\<close> crate documents of its hyphenated form: 36 ASCII characters, one form per value.\<close>

definition uuid_printer :: "(128 word \<Rightarrow> byte list) \<Rightarrow> bool" where
  "uuid_printer uuid_text =
     (inj uuid_text \<and> (\<forall>u. length (uuid_text u) = 36 \<and> list_all (\<lambda>b. b < 0x80) (uuid_text u)))"

lemma ascii_utf8: "list_all (\<lambda>b. b < 0x80) bs \<Longrightarrow> utf8_valid bs"
  by (induction bs) simp_all

lemma public_id_text:
  "length (identity_to_string i) = 57" "list_all (\<lambda>b. b < 0x80) (identity_to_string i)"
  "length (channel_to_string c) = 57" "list_all (\<lambda>b. b < 0x80) (channel_to_string c)"
  by (simp_all add: identity_to_string_def channel_to_string_def length_display_public_id length_prefixes
      display_public_id_ascii prefixes_ascii)

lemma length_cbor_head: "length (cbor_head m n) \<le> 9"
  by (simp add: cbor_head_def)

text \<open>Every value of the transcript is a short scalar, or the two-entry map of the scope.\<close>

definition small :: "CanonicalValue \<Rightarrow> bool" where
  "small v = (profile 2 v \<and> profile 1 v \<and> utf8_texts v \<and> sorted_maps v \<and> nitems v \<le> 5 \<and> length (cbor v) \<le> 200)"

lemma small_scalars:
  "small (Unsigned n)" "small Null"
  "length bs \<le> 100 \<Longrightarrow> small (Bytes bs)"
  "length bs \<le> 100 \<Longrightarrow> list_all (\<lambda>b. b < 0x80) bs \<Longrightarrow> small (Text bs)"
  using length_cbor_head [of 0 "unat n"] length_cbor_head [of 2 "length bs"] length_cbor_head [of 3 "length bs"]
  by (simp_all add: small_def MAX_DEPTH_def ascii_utf8)

lemma sum_list_le: "(\<And>x. x \<in> set xs \<Longrightarrow> f x \<le> b) \<Longrightarrow> sum_list (map f xs) \<le> length xs * (b :: nat)"
proof (induction xs)
  case (Cons x xs)
  then have "f x \<le> b" "sum_list (map f xs) \<le> length xs * b" by simp_all
  then show ?case by simp
qed simp

lemma small_map:
  assumes "length es \<le> 20" "list_all (\<lambda>(k, v). small k \<and> small v) es"
    and "sorted_wrt (<) (map (\<lambda>(k, _). cbor k) es)"
  shows "encode_deterministic_cbor (Map es) = Inr (cbor (Map es))" and "utf8_texts (Map es)"
    and "sorted_maps (Map es)"
proof -
  have sm: "small (fst e)" "small (snd e)" if "e \<in> set es" for e
    using that assms(2) by (auto simp: list_all_iff)
  have so: "sorted_maps (Map es)" using assms(3) sm by (auto simp: list_all_iff small_def)
  then have c: "canon (Map es) = Map es" by (rule canon_sorted)
  have p: "profile 0 (Map es)" using assms(1) sm
    by (auto simp: list_all_iff small_def MAX_DEPTH_def MAX_CONTAINER_ENTRIES_def)
  have "sum_list (map (\<lambda>(k, v). nitems k + nitems v) es) \<le> length es * 10"
    using sm by (intro sum_list_le) (force simp: small_def)
  then have n: "nitems (Map es) \<le> MAX_TOTAL_ITEMS" using assms(1) by (simp add: MAX_TOTAL_ITEMS_def)
  have "length (concat (map (\<lambda>(k, v). cbor k @ cbor v) es)) = sum_list (map (\<lambda>(k, v). length (cbor k) + length (cbor v)) es)"
    by (simp add: length_concat o_def case_prod_unfold)
  also have "\<dots> \<le> length es * 400" using sm by (intro sum_list_le) (force simp: small_def)
  finally have "length (cbor (Map es)) \<le> 9 + 8000"
    using assms(1) length_cbor_head [of 5 "length es"] by simp
  then have "length (cbor (Map es)) \<le> unat MAX_ENCODED_BYTES" by (simp add: MAX_ENCODED_BYTES_def)
  then show "encode_deterministic_cbor (Map es) = Inr (cbor (Map es))"
    unfolding encode_deterministic_cbor_def encode_with_limit_Ok_iff c
    using p n sorted_maps_distinct [OF so] by blast
  show "utf8_texts (Map es)" using sm by (auto simp: list_all_iff small_def)
  show "sorted_maps (Map es)" by (rule so)
qed

lemma key_cbor:
  "cbor (Unsigned 1) = [1]" "cbor (Unsigned 2) = [2]" "cbor (Unsigned 3) = [3]" "cbor (Unsigned 4) = [4]"
  "cbor (Unsigned 5) = [5]" "cbor (Unsigned 6) = [6]" "cbor (Unsigned 7) = [7]" "cbor (Unsigned 8) = [8]"
  "cbor (Unsigned 9) = [9]" "cbor (Unsigned 10) = [10]" "cbor (Unsigned 11) = [11]" "cbor (Unsigned 12) = [12]"
  "cbor (Unsigned 13) = [13]"
  by (simp_all add: cbor_head_def)

lemma small_scope:
  assumes "uuid_printer uuid_text"
  shows "small (scope_value uuid_text s)"
proof -
  obtain k bs where s: "scope_value uuid_text s = Map [(Unsigned 1, Unsigned k), (Unsigned 2, Text bs)]"
    and bs: "length bs \<le> 57" "list_all (\<lambda>b. b < 0x80) bs"
  proof (cases s)
    case (PrivateConversation i)
    then show ?thesis using that [of 1 "uuid_text (as_uuid i)"] assms
      by (simp add: scope_value_def uuid_printer_def)
  next
    case (ControlledPublicChannel i)
    then show ?thesis using that [of 2 "channel_to_string i"] public_id_text
      by (simp add: scope_value_def)
  qed
  have "length (cbor_head 0 (unat k)) \<le> 9" "length (cbor_head 3 (length bs)) \<le> 9" "length (cbor_head 5 2) \<le> 9"
    by (rule length_cbor_head)+
  with bs show ?thesis
    by (simp add: s small_def MAX_DEPTH_def MAX_CONTAINER_ENTRIES_def ascii_utf8 cbor_head_def)
qed

lemma command_transcript:
  assumes "uuid_printer uuid_text"
  shows "encode_deterministic_cbor (Map (command_fields uuid_text k c a)) = Inr (cbor (Map (command_fields uuid_text k c a)))"
    and "utf8_texts (Map (command_fields uuid_text k c a))"
    and command_sorted: "sorted_maps (Map (command_fields uuid_text k c a))"
proof -
  let ?es = "command_fields uuid_text k c a"
  have u: "length (uuid_text x) \<le> 100" "list_all (\<lambda>b. b < 0x80) (uuid_text x)" for x
    using assms by (simp_all add: uuid_printer_def)
  have h: "small (Bytes (sha_as_bytes d))" for d by (rule small_scalars(3)) (simp add: length_sha_as_bytes)
  have 1: "length ?es \<le> 20" by (simp add: command_fields_def split: option.split)
  have 2: "list_all (\<lambda>(k, v). small k \<and> small v) ?es"
    using u h small_scope [OF assms] public_id_text
    by (simp add: command_fields_def small_scalars split: option.split)
  have 3: "sorted_wrt (<) (map (\<lambda>(k, _). cbor k) ?es)"
    by (simp add: command_fields_def cbor_head_def split: option.split)
  show "encode_deterministic_cbor (Map ?es) = Inr (cbor (Map ?es))" "utf8_texts (Map ?es)" "sorted_maps (Map ?es)"
    using small_map [OF 1 2 3] by blast+
qed

section \<open>What a digest binds\<close>

definition command_message ::
  "(128 word \<Rightarrow> byte list) \<Rightarrow> CommandKind \<Rightarrow> MembershipCommandContext \<Rightarrow> Sha256Digest option \<Rightarrow> byte list" where
  "command_message uuid_text kind context authorization_digest =
     command_domain context @ cbor (Map (command_fields uuid_text kind context authorization_digest))"

definition digest_of ::
  "(128 word \<Rightarrow> byte list) \<Rightarrow> (byte list \<Rightarrow> 256 word) \<Rightarrow> CommandKind \<Rightarrow> MembershipCommandContext
    \<Rightarrow> Sha256Digest option \<Rightarrow> Sha256Digest" where
  "digest_of uuid_text sha256 kind context authorization_digest =
     Sha256Digest (sha256 (command_message uuid_text kind context authorization_digest))"

lemma command_digest_value:
  "uuid_printer uuid_text \<Longrightarrow>
    command_digest uuid_text sha256 k c a = Inr (digest_of uuid_text sha256 k c a)"
  by (simp add: command_digest_def command_transcript digest_of_def command_message_def hash_domain_def)

lemma join_request_digest_value:
  "uuid_printer uuid_text \<Longrightarrow>
    join_request_digest uuid_text sha256 c = Inr (digest_of uuid_text sha256 KindRequestJoin c None)"
  by (simp add: join_request_digest_def command_digest_value)

lemma request_new_value:
  "uuid_printer uuid_text \<Longrightarrow> JoinRequestCommand_new uuid_text sha256 c =
    Inr \<lparr> jr_context = c, jr_request_digest = digest_of uuid_text sha256 KindRequestJoin c None \<rparr>"
  by (simp add: JoinRequestCommand_new_def join_request_digest_value)

lemma approve_new_value:
  "uuid_printer uuid_text \<Longrightarrow> ApproveJoinCommand_new uuid_text sha256 c a =
    Inr \<lparr> ac_context = c, ac_authorization_digest = a,
      ac_request_digest = digest_of uuid_text sha256 KindApproveJoin c (Some a) \<rparr>"
  by (simp add: ApproveJoinCommand_new_def command_digest_value)

text \<open>Equal transcripts are transcripts of equal fields: the encoding of a profile value decodes to it.\<close>

lemma transcript_inj:
  assumes "uuid_printer uuid_text"
    and "cbor (Map (command_fields uuid_text k c a)) = cbor (Map (command_fields uuid_text k' c' a'))"
  shows "command_fields uuid_text k c a = command_fields uuid_text k' c' a'"
proof -
  let ?v = "Map (command_fields uuid_text k c a)" and ?v' = "Map (command_fields uuid_text k' c' a')"
  have "canon ?v = canon ?v'"
    using decode_encode_value command_transcript [OF assms(1), of k c a] command_transcript [OF assms(1), of k' c' a']
      assms(2) unfolding encode_deterministic_cbor_def by (metis Inr_inject)
  moreover have "canon (Map (command_fields uuid_text k c a)) = Map (command_fields uuid_text k c a)" for k c a
    by (rule canon_sorted) (rule command_sorted [OF assms(1)])
  ultimately show ?thesis by simp
qed

text \<open>Each scalar of the transcript determines the field it prints.\<close>

lemma field_inj:
  "as_uuid x = as_uuid y \<longleftrightarrow> x = y" "request_id i = request_id j \<longleftrightarrow> i = j" "rev_get r = rev_get s \<longleftrightarrow> r = s"
  "sha_as_bytes d = sha_as_bytes e \<longleftrightarrow> d = e" "identity_to_string p = identity_to_string q \<longleftrightarrow> p = q"
  "channel_to_string v = channel_to_string w \<longleftrightarrow> v = w"
  by (auto intro: uuid_id.expand MembershipCommandId.expand Revision.expand identity_text.render_inj
      channel_text.render_inj dest: arg_cong [where f = sha_from_bytes] simp: sha_from_as_bytes)

lemma scope_value_inj: "inj uuid_text \<Longrightarrow> scope_value uuid_text s = scope_value uuid_text t \<longleftrightarrow> s = t"
  by (cases s; cases t) (auto simp: scope_value_def inj_eq field_inj)

definition same_command :: "MembershipCommandContext \<Rightarrow> MembershipCommandContext \<Rightarrow> bool" where
  "same_command c c' = (c\<lparr> cx_idempotency_key_hash := cx_idempotency_key_hash c' \<rparr> = c')"

lemma command_fields_inj:
  assumes "inj uuid_text" "command_fields uuid_text k c a = command_fields uuid_text k' c' a'"
  shows "k = k' \<and> a = a' \<and> same_command c c'"
proof -
  have "k = k'" using assms(2) by (cases k; cases k') (simp_all add: command_fields_def kind_code_def)
  moreover have "a = a'"
    using assms(2) by (cases a; cases a') (simp_all add: command_fields_def field_inj)
  moreover have "cx_candidate_key_package_digest c = cx_candidate_key_package_digest c'"
    using assms(2) by (simp add: command_fields_def field_inj split: option.splits)
  ultimately show ?thesis using assms(2)
    by (simp add: command_fields_def same_command_def field_inj scope_value_inj inj_eq
        MembershipCommandContext.equality MembershipFence.equality assms(1))
qed

lemma command_domain_tag: "command_domain c = command_domain c' \<longleftrightarrow>
    (cx_candidate_key_package_digest c = None) = (cx_candidate_key_package_digest c' = None)"
  and command_domain_length: "length (command_domain c) = 40"
proof -
  have "MEMBERSHIP_COMMAND_REQUEST_HASH_DOMAIN \<noteq> MEMBERSHIP_COMMAND_REQUEST_V2_HASH_DOMAIN"
    by (simp add: MEMBERSHIP_COMMAND_REQUEST_HASH_DOMAIN_def MEMBERSHIP_COMMAND_REQUEST_V2_HASH_DOMAIN_def ascii_def)
  then show "command_domain c = command_domain c' \<longleftrightarrow>
    (cx_candidate_key_package_digest c = None) = (cx_candidate_key_package_digest c' = None)"
    by (auto simp: command_domain_def split: option.splits)
  show "length (command_domain c) = 40"
    by (simp add: command_domain_def MEMBERSHIP_COMMAND_REQUEST_HASH_DOMAIN_def
        MEMBERSHIP_COMMAND_REQUEST_V2_HASH_DOMAIN_def split: option.split)
qed

lemma command_message_inj:
  assumes "uuid_printer uuid_text" "command_message uuid_text k c a = command_message uuid_text k' c' a'"
  shows "k = k' \<and> a = a' \<and> same_command c c'"
proof (rule command_fields_inj)
  show "inj uuid_text" using assms(1) by (simp add: uuid_printer_def)
  show "command_fields uuid_text k c a = command_fields uuid_text k' c' a'"
    using assms(2) command_domain_length by (intro transcript_inj [OF assms(1)]) (simp add: command_message_def)
qed

section \<open>Properties\<close>

text \<open>The request digest never reaches its \<open>expect\<close>: for every kind, context and authorization the
  transcript fits the CBOR profile, whatever the scope and however large the revision.\<close>
theorem command_digest_total:
  assumes "uuid_printer uuid_text"
  shows "\<exists>d. command_digest uuid_text sha256 kind context authorization = Inr d"
  using command_digest_value [OF assms] by blast

text \<open>C17. A digest binds the command: if two commands have the same digest, short of a SHA-256 collision
  between their two messages, they are of the same kind, carry the same authorization and agree on
  every field of the context but the hash of the idempotency key.\<close>
theorem command_digest_binds:
  assumes "uuid_printer uuid_text"
    and "command_digest uuid_text sha256 kind context auth = Inr d"
    and "command_digest uuid_text sha256 kind' context' auth' = Inr d"
    and "inj_on sha256 {command_message uuid_text kind context auth, command_message uuid_text kind' context' auth'}"
  shows "kind = kind' \<and> auth = auth'
    \<and> context\<lparr> cx_idempotency_key_hash := cx_idempotency_key_hash context' \<rparr> = context'"
proof -
  have "command_message uuid_text kind context auth = command_message uuid_text kind' context' auth'"
    using assms(2,3) unfolding command_digest_value [OF assms(1)] digest_of_def
    by (intro inj_onD [OF assms(4)]) auto
  then show ?thesis using command_message_inj [OF assms(1)] unfolding same_command_def by blast
qed

text \<open>
  For the witnesses: a printer with the documented properties, and a context of the v2 form with a given
  command identity, idempotency key and actor.
\<close>

definition sample_uuid_text :: "128 word \<Rightarrow> byte list" where
  "sample_uuid_text u = concat (map hex_byte (be_bytes 16 (unat u))) @ [45, 45, 45, 45]"

definition sample_context :: "128 word \<Rightarrow> 256 word \<Rightarrow> 256 word \<Rightarrow> MembershipCommandContext" where
  "sample_context i h actor =
     context_new_v2 (MembershipCommandId (UuidId i)) (Sha256Digest h) (PrivateConversation (UuidId 7)) (PublicId actor)
       (UuidId 8) (UuidId 9) (PublicId 11) (UuidId 10) (UuidId 12)
       \<lparr> mf_policy_revision = Revision 3, mf_sequencer_head = Sha256Digest 4 \<rparr> (Sha256Digest 5)"

text \<open>A hash that tells the message of one request from all others.\<close>

definition sample_sha256 :: "byte list \<Rightarrow> 256 word" where
  "sample_sha256 bs =
     (if bs = command_message sample_uuid_text KindRequestJoin (sample_context 1 2 11) None then 1 else 0)"

lemma sample_uuid_printer: "uuid_printer sample_uuid_text"
proof -
  have "inj sample_uuid_text"
  proof (rule injI)
    fix u v assume "sample_uuid_text u = sample_uuid_text v"
    then have "be_bytes 16 (unat u) = be_bytes 16 (unat v)"
      unfolding sample_uuid_text_def append_same_eq by (metis hex_pairs_concat)
    moreover have "unat w < 256 ^ 16" for w :: "128 word"
      using unsigned_less [where w = w and ?'a = nat] by simp
    ultimately have "unat u = unat v" by (intro be_bytes_inj [of _ 16]) blast+
    then show "u = v" by (simp only: word_unat_eq_iff)
  qed
  moreover have "list_all (\<lambda>b. b < 0x80) (concat (map hex_byte bs))" for bs
    using hex_concat_digits [of bs] by (rule list.pred_mono_strong) (auto simp: hex_range word_less_nat_alt)
  ultimately show ?thesis by (simp add: uuid_printer_def sample_uuid_text_def length_hex_concat)
qed

lemma sample_digest_other:
  assumes "\<not> (k = KindRequestJoin \<and> a = None \<and> same_command x (sample_context 1 2 11))"
  shows "digest_of sample_uuid_text sample_sha256 k x a \<noteq>
    digest_of sample_uuid_text sample_sha256 KindRequestJoin (sample_context 1 2 11) None"
  using assms command_message_inj [OF sample_uuid_printer, of k x a KindRequestJoin "sample_context 1 2 11" None]
  by (auto simp: digest_of_def sample_sha256_def)

lemma command_digest_total_witness:
  "uuid_printer sample_uuid_text
    \<and> (\<exists>d. command_digest sample_uuid_text sample_sha256 KindApproveJoin (sample_context 1 2 3) (Some (Sha256Digest 6)) = Inr d)"
  using command_digest_total [OF sample_uuid_printer] sample_uuid_printer by blast

lemma command_digest_binds_witness:
  "let c = sample_context 1 2 3; c' = sample_context 1 99 3 in
   c \<noteq> c' \<and> (\<exists>d. command_digest sample_uuid_text sample_sha256 KindRequestJoin c None = Inr d
     \<and> command_digest sample_uuid_text sample_sha256 KindRequestJoin c' None = Inr d
     \<and> c\<lparr> cx_idempotency_key_hash := cx_idempotency_key_hash c' \<rparr> = c')"
proof -
  let ?c = "sample_context 1 2 3" and ?c' = "sample_context 1 99 3"
  have m: "command_message sample_uuid_text KindRequestJoin ?c' None = command_message sample_uuid_text KindRequestJoin ?c None"
    by (simp add: command_message_def command_fields_def command_domain_def sample_context_def context_new_v2_def)
  note v = command_digest_value [OF sample_uuid_printer, of sample_sha256 KindRequestJoin]
  have v': "command_digest sample_uuid_text sample_sha256 KindRequestJoin ?c' None =
      Inr (digest_of sample_uuid_text sample_sha256 KindRequestJoin ?c None)"
    by (simp add: v digest_of_def m)
  have "?c\<lparr> cx_idempotency_key_hash := cx_idempotency_key_hash ?c' \<rparr> = ?c'"
    using command_digest_binds [OF sample_uuid_printer v v'] by (simp add: m)
  moreover have "?c \<noteq> ?c'" by (simp add: sample_context_def context_new_v2_def)
  ultimately show ?thesis using v [of ?c None] v' by (simp add: Let_def)
qed

end
