(* ===== verification/Calls.thy ===== *)
theory Calls
  imports Prelude
begin

text \<open>
  The contract of a state machine driven by method calls: a call that succeeds leaves the state or
  makes one step, a call that fails changes nothing, and steps keep the invariant. What follows for
  sequences of calls is proved once for the contract.
\<close>

primrec run :: "('c \<Rightarrow> 's \<Rightarrow> ('e + 'r) \<times> 's) \<Rightarrow> 'c list \<Rightarrow> 's \<Rightarrow> 's" where
  "run call [] s = s"
| "run call (c # cs) s = run call cs (snd (call c s))"

lemma run_append: "run call (cs @ ds) s = run call ds (run call cs s)"
  by (induction cs arbitrary: s) simp_all

locale stepping_calls =
  fixes call :: "'c \<Rightarrow> 's \<Rightarrow> ('e + 'r) \<times> 's"
    and step :: "'s \<Rightarrow> 's \<Rightarrow> bool"
    and iv :: "'s \<Rightarrow> bool"
  assumes success: "iv s \<Longrightarrow> call c s = (Inr x, t) \<Longrightarrow> t = s \<or> step s t"
    and failure: "iv s \<Longrightarrow> call c s = (Inl e, t) \<Longrightarrow> t = s"
    and keeps: "iv s \<Longrightarrow> step s t \<Longrightarrow> iv t"
begin

lemma call_step: "iv s \<Longrightarrow> snd (call c s) = s \<or> step s (snd (call c s))"
  using success [of s c] failure [of s c] by (cases "call c s"; cases "fst (call c s)") auto

lemma run_stable:
  assumes "iv s" "P s" and st: "\<And>s t. iv s \<Longrightarrow> step s t \<Longrightarrow> P s \<Longrightarrow> P t"
  shows "iv (run call cs s) \<and> P (run call cs s)"
  using assms(1,2)
proof (induction cs arbitrary: s)
  case (Cons c cs)
  have "iv (snd (call c s)) \<and> P (snd (call c s))"
    using call_step [OF Cons.prems(1), of c] keeps st Cons.prems by metis
  then show ?case using Cons.IH by simp
qed simp

lemma run_inv: "iv s \<Longrightarrow> iv (run call cs s)"
  using run_stable [of s "\<lambda>_. True" cs] by simp

lemma run_rel:
  assumes "iv s" "\<And>s. R s s" "\<And>s t u. R s t \<Longrightarrow> R t u \<Longrightarrow> R s u"
    and "\<And>s t. iv s \<Longrightarrow> step s t \<Longrightarrow> R s t"
  shows "R s (run call cs s)"
  using run_stable [of s "R s" cs] assms by blast

end

end
