(* ===== verification/Membership_Steps.thy ===== *)
theory Membership_Steps
  imports Membership_Book Membership_Digest Calls
begin

text \<open>
  The abstract behaviour of the command book: the six ways its state can change, as a step relation,
  and the refinement lemma that every method call, on every branch, leaves the state or makes one of
  these steps.
\<close>

section \<open>The step relation\<close>

definition fresh :: "MembershipCommandBook \<Rightarrow> MembershipCommandId \<Rightarrow> IdempotencyLookup \<Rightarrow> bool" where
  "fresh b i l = (fmlookup (mb_commands b) i = None \<and> fmlookup (mb_idempotency b) l = None)"

definition add_command ::
  "MembershipCommandId \<Rightarrow> IdempotencyLookup \<Rightarrow> StoredCommand \<Rightarrow> MembershipCommandBook \<Rightarrow> MembershipCommandBook" where
  "add_command i l c b =
     b\<lparr> mb_commands := fmupd i c (mb_commands b), mb_idempotency := fmupd l i (mb_idempotency b) \<rparr>"

definition set_workflow :: "JoinRequestId \<Rightarrow> JoinWorkflow \<Rightarrow> MembershipCommandBook \<Rightarrow> MembershipCommandBook" where
  "set_workflow w jw b = b\<lparr> mb_workflows := fmupd w jw (mb_workflows b) \<rparr>"

lemma book_updates [simp]:
  "mb_commands (add_command i l c b) = fmupd i c (mb_commands b)"
  "mb_idempotency (add_command i l c b) = fmupd l i (mb_idempotency b)"
  "mb_workflows (add_command i l c b) = mb_workflows b"
  "mb_commands (set_workflow w jw b) = mb_commands b"
  "mb_idempotency (set_workflow w jw b) = mb_idempotency b"
  "mb_workflows (set_workflow w jw b) = fmupd w jw (mb_workflows b)"
  by (simp_all add: add_command_def set_workflow_def)

lemma set_add: "set_workflow w jw (add_command i l c b) =
    b\<lparr> mb_commands := fmupd i c (mb_commands b), mb_idempotency := fmupd l i (mb_idempotency b),
      mb_workflows := fmupd w jw (mb_workflows b) \<rparr>"
  by (simp add: set_workflow_def add_command_def)

fun active_approval :: "WorkflowPhase \<Rightarrow> (MembershipCommandId \<times> MembershipCommandContext \<times> Sha256Digest) option" where
  "active_approval (PendingCommit i c a) = Some (i, c, a)"
| "active_approval (Reconciling i c a) = Some (i, c, a)"
| "active_approval _ = None"

lemma active_approval_Some:
  "active_approval p = Some (i, c, a) \<longleftrightarrow> p = PendingCommit i c a \<or> p = Reconciling i c a"
  by (cases p) auto

definition unsettled :: "WorkflowPhase \<Rightarrow> bool" where
  "unsettled p = (p = PendingApproval \<or> active_approval p \<noteq> None)"

inductive phase_step ::
  "MembershipCommandId \<Rightarrow> Sha256Digest \<Rightarrow> GroupScope \<Rightarrow> WorkflowPhase \<Rightarrow> WorkflowPhase \<Rightarrow> bool"
  for i d s where
  uncertain: "active_approval p = Some (i, c, a) \<Longrightarrow> phase_step i d s p (Reconciling i c a)"
| rearm: "phase_step i d s (Reconciling i c a) (PendingCommit i c a)"
| refuse: "active_approval p = Some (i, c, a) \<Longrightarrow> phase_step i d s p (Rejected r)"
| commit: "active_approval p = Some (i, c, a) \<Longrightarrow> cr_scope ref = s \<Longrightarrow> cr_command_id ref = i \<Longrightarrow> cr_request_digest ref = d
    \<Longrightarrow> phase_step i d s p (Committed (Applied ref))"

inductive book_step ::
  "(128 word \<Rightarrow> byte list) \<Rightarrow> (byte list \<Rightarrow> 256 word) \<Rightarrow> MembershipCommandBook \<Rightarrow> MembershipCommandBook \<Rightarrow> bool"
  for u h where
  open_workflow: "fresh b (cx_command_id c) (lookup_new c) \<Longrightarrow> cx_actor_identity_id c = cx_candidate_identity_id c
    \<Longrightarrow> fmlookup (mb_workflows b) (cx_join_request_id c) = None
    \<Longrightarrow> book_step u h b (set_workflow (cx_join_request_id c) (workflow_pending c)
      (add_command (cx_command_id c) (lookup_new c)
        (stored_workflow KindRequestJoin (digest_of u h KindRequestJoin c None) (cx_join_request_id c)) b))"
| already: "fresh b i l \<Longrightarrow> cr_scope ref = il_scope l
    \<Longrightarrow> book_step u h b (add_command i l (stored_terminal k d (PhaseCommitted (AdmittedAlready ref))) b)"
| settle: "fresh b i l \<Longrightarrow> cr_scope ref = il_scope l
    \<Longrightarrow> fmlookup (mb_workflows b) w = Some jw \<Longrightarrow> unsettled (jw_phase jw) \<Longrightarrow> cx_scope (jw_context jw) = il_scope l
    \<Longrightarrow> book_step u h b (set_workflow w (jw\<lparr> jw_phase := Committed (AdmittedAlready ref) \<rparr>)
      (add_command i l (stored_terminal KindApproveJoin d (PhaseCommitted (AdmittedAlready ref))) b))"
| approve: "fresh b (cx_command_id c) (lookup_new c) \<Longrightarrow> w = cx_join_request_id c
    \<Longrightarrow> fmlookup (mb_workflows b) w = Some jw \<Longrightarrow> workflow_context_matches (jw_context jw) c
    \<Longrightarrow> jw_phase jw = PendingApproval
    \<Longrightarrow> book_step u h b (set_workflow w (jw\<lparr> jw_phase := PendingCommit (cx_command_id c) c a \<rparr>)
      (add_command (cx_command_id c) (lookup_new c)
        (stored_workflow KindApproveJoin (digest_of u h KindApproveJoin c (Some a)) w) b))"
| advance: "fmlookup (mb_commands b) i = Some c \<Longrightarrow> sc_kind c = KindApproveJoin \<Longrightarrow> sc_workflow_id c = Some w
    \<Longrightarrow> fmlookup (mb_workflows b) w = Some jw
    \<Longrightarrow> phase_step i (sc_request_digest c) (cx_scope (jw_context jw)) (jw_phase jw) p
    \<Longrightarrow> book_step u h b (set_workflow w (jw\<lparr> jw_phase := p \<rparr>) b)"
| dismiss: "fmlookup (mb_commands b) i = Some c \<Longrightarrow> sc_kind c = KindRequestJoin \<Longrightarrow> sc_workflow_id c = Some w
    \<Longrightarrow> fmlookup (mb_workflows b) w = Some jw \<Longrightarrow> jw_phase jw = PendingApproval
    \<Longrightarrow> book_step u h b (b\<lparr> mb_workflows := fmdrop w (mb_workflows b),
      mb_commands := fmupd i (stored_terminal KindRequestJoin (sc_request_digest c) (PhaseRejected r)) (mb_commands b) \<rparr>)"

section \<open>Calls\<close>

datatype book_call =
    CallRequest MembershipCommandContext CandidateMembership
  | CallApprove MembershipCommandContext Sha256Digest CandidateMembership
  | CallObserve MembershipCommandId SequencerResolution
  | CallRejectLocally MembershipCommandId MembershipRejection

definition failing :: "('e + 'r) \<times> 's \<Rightarrow> ('e fault + 'r) \<times> 's" where
  "failing r = map_prod (map_err Fail) id r"

fun book_apply ::
  "(128 word \<Rightarrow> byte list) \<Rightarrow> (byte list \<Rightarrow> 256 word) \<Rightarrow> book_call \<Rightarrow> MembershipCommandBook
    \<Rightarrow> (MembershipCommandError fault + MembershipReceipt) \<times> MembershipCommandBook" where
  "book_apply u h (CallRequest c m) b =
     try_in b (JoinRequestCommand_new u h c) (\<lambda>command. failing (record_join_request command m b))"
| "book_apply u h (CallApprove c a m) b =
     try_in b (ApproveJoinCommand_new u h c a) (\<lambda>command. failing (book_approve_join command m b))"
| "book_apply u h (CallObserve i res) b = failing (observe_sequencer_resolution i res b)"
| "book_apply u h (CallRejectLocally i r) b = failing (reject_locally i r b)"

lemma failing_simps [simp]: "failing (Inl e, t) = (Inl (Fail e), t)" "failing (Inr x, t) = (Inr x, t)"
  by (simp_all add: failing_def)

lemma failing_Ok: "failing r = (Inr x, t) \<longleftrightarrow> r = (Inr x, t)"
  by (cases r; cases "fst r") (auto simp: failing_def)

lemma failing_Err: "failing r = (Inl e, t) \<longleftrightarrow> (\<exists>e'. e = Fail e' \<and> r = (Inl e', t))"
  by (cases r; cases "fst r") (auto simp: failing_def)

lemma existing_None: "existing_or_conflict b i d l = Inr None \<longleftrightarrow> fresh b i l"
  by (auto simp: existing_or_conflict_def fresh_def result_simps split: option.splits)

lemma receipt_workflow:
  "fmlookup (mb_commands b) i = Some c \<Longrightarrow> sc_workflow_id c = Some w \<Longrightarrow> sc_terminal_phase c = None
    \<Longrightarrow> fmlookup (mb_workflows b) w = Some jw
    \<Longrightarrow> receipt_for b i = Inr \<lparr> re_command_id = i, re_request_digest = sc_request_digest c,
      re_phase = as_public (jw_phase jw) \<rparr>"
  by (simp add: receipt_for_def)

lemma receipt_terminal:
  "fmlookup (mb_commands b) i = Some c \<Longrightarrow> sc_workflow_id c = None \<Longrightarrow> sc_terminal_phase c = Some p
    \<Longrightarrow> receipt_for b i = Inr \<lparr> re_command_id = i, re_request_digest = sc_request_digest c, re_phase = p \<rparr>"
  by (simp add: receipt_for_def)

lemma receipt_ok:
  "is_ok (receipt_for b i) \<longleftrightarrow> (\<exists>c. fmlookup (mb_commands b) i = Some c
     \<and> (case (sc_workflow_id c, sc_terminal_phase c) of
          (Some w, None) \<Rightarrow> fmlookup (mb_workflows b) w \<noteq> None
        | (None, Some p) \<Rightarrow> True
        | _ \<Rightarrow> False))"
proof (cases "fmlookup (mb_commands b) i")
  case (Some c)
  then show ?thesis
    by (cases "sc_workflow_id c"; cases "sc_terminal_phase c"; cases "fmlookup (mb_workflows b) (the (sc_workflow_id c))")
      (simp_all add: receipt_for_def)
qed (simp add: receipt_for_def)

lemma lookup_scope [simp]: "il_scope (lookup_new c) = cx_scope c"
  by (simp add: lookup_new_def)

lemmas book_update_defs = add_command_def set_workflow_def stored_workflow_def stored_terminal_def
  workflow_pending_def

text \<open>\<open>outcome P b r\<close>: the call left the book as it was, or succeeded with a step and a receipt of \<open>i\<close>.\<close>

definition outcome ::
  "(MembershipCommandBook \<Rightarrow> MembershipCommandBook \<Rightarrow> bool) \<Rightarrow> MembershipCommandBook
    \<Rightarrow> (MembershipCommandError + MembershipReceipt) \<times> MembershipCommandBook \<Rightarrow> bool" where
  "outcome st b r = (snd r = b \<or> is_ok (fst r) \<and> st b (snd r))"

lemma outcome_same: "outcome st b (r, b)"
  by (simp add: outcome_def)

lemma outcome_try: "(\<And>x. r = Inr x \<Longrightarrow> outcome st b (k x)) \<Longrightarrow> outcome st b (try_in b r k)"
  by (cases r) (simp_all add: outcome_def)

lemma outcome_step: "st b t \<Longrightarrow> is_ok (receipt_for t i) \<Longrightarrow> outcome st b (receipt_for t i, t)"
  by (simp add: outcome_def)

lemma record_outcome:
  assumes "jr_request_digest command = digest_of u h KindRequestJoin (jr_context command) None"
  shows "outcome (book_step u h) b (record_join_request command m b)"
proof -
  let ?c = "jr_context command" and ?d = "jr_request_digest command"
  have 1: "outcome (book_step u h) b (receipt_for t (cx_command_id ?c), t)"
    if "fresh b (cx_command_id ?c) (lookup_new ?c)" "cr_scope ref = cx_scope ?c"
      and t: "t = add_command (cx_command_id ?c) (lookup_new ?c)
        (stored_terminal KindRequestJoin ?d (PhaseCommitted (AdmittedAlready ref))) b" for ref t
    unfolding t
    by (rule outcome_step, rule book_step.already) (simp_all add: that receipt_ok stored_terminal_def)
  have 2: "outcome (book_step u h) b (receipt_for t (cx_command_id ?c), t)"
    if "fresh b (cx_command_id ?c) (lookup_new ?c)" "cx_actor_identity_id ?c = cx_candidate_identity_id ?c"
      "fmlookup (mb_workflows b) (cx_join_request_id ?c) = None"
      and t: "t = set_workflow (cx_join_request_id ?c) (workflow_pending ?c)
        (add_command (cx_command_id ?c) (lookup_new ?c) (stored_workflow KindRequestJoin ?d (cx_join_request_id ?c)) b)" for t
    unfolding t assms
    by (rule outcome_step, rule book_step.open_workflow) (simp_all add: that receipt_ok stored_workflow_def)
  note steps = 1 [OF _ _ refl, unfolded add_command_def] 2 [OF _ _ _ refl, unfolded set_add, unfolded add_command_def]
  show ?thesis
    unfolding record_join_request_def Let_def
    by (auto intro!: outcome_try outcome_same steps split: option.split CandidateMembership.split
        simp: existing_None not_contains_key)
qed

lemma approve_outcome:
  assumes "ac_request_digest command = digest_of u h KindApproveJoin (ac_context command) (Some (ac_authorization_digest command))"
  shows "outcome (book_step u h) b (book_approve_join command m b)"
proof -
  let ?c = "ac_context command" and ?d = "ac_request_digest command"
  let ?w = "cx_join_request_id ?c"
  have 1: "outcome (book_step u h) b (receipt_for t (cx_command_id ?c), t)"
    if "fresh b (cx_command_id ?c) (lookup_new ?c)" "cr_scope ref = cx_scope ?c"
      and t: "t = add_command (cx_command_id ?c) (lookup_new ?c)
        (stored_terminal KindApproveJoin ?d (PhaseCommitted (AdmittedAlready ref))) b" for ref t
    unfolding t
    by (rule outcome_step, rule book_step.already) (simp_all add: that receipt_ok stored_terminal_def)
  have 2: "outcome (book_step u h) b (receipt_for t (cx_command_id ?c), t)"
    if "fresh b (cx_command_id ?c) (lookup_new ?c)" "cr_scope ref = cx_scope ?c"
      "fmlookup (mb_workflows b) ?w = Some jw" "workflow_context_matches (jw_context jw) ?c" "unsettled (jw_phase jw)"
      and t: "t = set_workflow ?w (jw\<lparr> jw_phase := Committed (AdmittedAlready ref) \<rparr>)
        (add_command (cx_command_id ?c) (lookup_new ?c)
          (stored_terminal KindApproveJoin ?d (PhaseCommitted (AdmittedAlready ref))) b)" for ref jw t
    unfolding t
    by (rule outcome_step, rule book_step.settle) (use that in \<open>simp_all add: receipt_ok stored_terminal_def
        workflow_context_matches_def\<close>)
  have 3: "outcome (book_step u h) b (receipt_for t (cx_command_id ?c), t)"
    if "fresh b (cx_command_id ?c) (lookup_new ?c)" "fmlookup (mb_workflows b) ?w = Some jw"
      "workflow_context_matches (jw_context jw) ?c" "jw_phase jw = PendingApproval"
      and t: "t = set_workflow ?w (jw\<lparr> jw_phase := PendingCommit (cx_command_id ?c) ?c (ac_authorization_digest command) \<rparr>)
        (add_command (cx_command_id ?c) (lookup_new ?c) (stored_workflow KindApproveJoin ?d ?w) b)" for jw t
    unfolding t assms
    by (rule outcome_step, rule book_step.approve) (simp_all add: that receipt_ok stored_workflow_def)
  note steps = 1 [OF _ _ refl] 2 [OF _ _ _ _ _ refl] 3 [OF _ _ _ _ refl]
  note steps = steps [unfolded set_add, unfolded add_command_def]
  show ?thesis
    unfolding book_approve_join_def Let_def
    by (auto intro!: outcome_try outcome_same steps split: option.split CandidateMembership.split WorkflowPhase.split
        simp: existing_None result_simps unsettled_def)
qed

text \<open>The results of the sequencer, and local rejections, on a book whose workflow commands are not terminal.\<close>

definition shaped :: "MembershipCommandBook \<Rightarrow> bool" where
  "shaped b = (\<forall>i c w. fmlookup (mb_commands b) i = Some c \<and> sc_workflow_id c = Some w \<longrightarrow> sc_terminal_phase c = None)"

lemma resolve_active_step:
  assumes "resolve_active rc i c a s d res = Inr q" "p = (if rc then Reconciling i c a else PendingCommit i c a)"
  shows "phase_step i d s p q"
proof (cases res)
  case (ResolvedCommitted ref)
  then show ?thesis using assms
    by (auto simp: resolve_active_def validate_commit_reference_def intro: phase_step.commit split: if_splits)
next
  case (ResolvedRejected r)
  then show ?thesis using assms
    by (auto simp: resolve_active_def intro: phase_step.refuse)
next
  case ResolvedAbsent
  then show ?thesis using assms
    by (auto simp: resolve_active_def intro: phase_step.rearm split: if_splits)
next
  case ResolvedUnknown
  then show ?thesis using assms
    by (auto simp: resolve_active_def intro: phase_step.uncertain)
qed

lemma advance_outcome:
  assumes "shaped b" "fmlookup (mb_commands b) i = Some c" "sc_kind c = KindApproveJoin" "sc_workflow_id c = Some w"
    "fmlookup (mb_workflows b) w = Some jw"
    "phase_step i (sc_request_digest c) (cx_scope (jw_context jw)) (jw_phase jw) p"
    "t = b\<lparr> mb_workflows := fmupd w (jw\<lparr> jw_phase := p \<rparr>) (mb_workflows b) \<rparr>"
  shows "outcome (book_step u h) b (receipt_for t i, t)"
proof -
  have "is_ok (receipt_for t i)" using assms by (simp add: receipt_ok shaped_def)
  moreover have "book_step u h b t"
    using book_step.advance [OF assms(2-6)] by (simp add: assms(7) set_workflow_def)
  ultimately show ?thesis by (intro outcome_step)
qed

lemma observe_outcome:
  assumes "shaped b"
  shows "outcome (book_step u h) b (observe_sequencer_resolution i res b)"
proof -
  have adv: "outcome (book_step u h) b
      (receipt_for (b\<lparr> mb_workflows := fmupd w (jw\<lparr> jw_phase := p \<rparr>) (mb_workflows b) \<rparr>) i,
        b\<lparr> mb_workflows := fmupd w (jw\<lparr> jw_phase := p \<rparr>) (mb_workflows b) \<rparr>)"
    if "fmlookup (mb_commands b) i = Some c" "sc_kind c = KindApproveJoin" "sc_workflow_id c = Some w"
      "fmlookup (mb_workflows b) w = Some jw"
      "resolve_active rc i ax a (cx_scope (jw_context jw)) (sc_request_digest c) res = Inr p"
      "jw_phase jw = (if rc then Reconciling i ax a else PendingCommit i ax a)" for c w jw rc ax a p
    by (rule advance_outcome [OF assms that(1-4) _ refl], rule resolve_active_step [OF that(5,6)])
  show ?thesis
    unfolding observe_sequencer_resolution_def Let_def
    by (auto intro!: outcome_try outcome_same split: WorkflowPhase.split simp: result_simps;
        erule (4) adv; simp)
qed

lemma reject_outcome:
  assumes "shaped b"
  shows "outcome (book_step u h) b (reject_locally i r b)"
proof -
  have 1: "outcome (book_step u h) b (receipt_for t i, t)"
    if "fmlookup (mb_commands b) i = Some c" "sc_kind c = KindRequestJoin" "sc_workflow_id c = Some w"
      "fmlookup (mb_workflows b) w = Some jw" "jw_phase jw = PendingApproval"
      "t = b\<lparr> mb_workflows := fmdrop w (mb_workflows b),
        mb_commands := fmupd i (stored_terminal KindRequestJoin (sc_request_digest c) (PhaseRejected r)) (mb_commands b) \<rparr>" for c w jw t
    unfolding that(6) by (rule outcome_step, rule book_step.dismiss [OF that(1-5)]) (simp add: receipt_ok stored_terminal_def)
  have 2: "outcome (book_step u h) b (receipt_for t i, t)"
    if "fmlookup (mb_commands b) i = Some c" "sc_kind c = KindApproveJoin" "sc_workflow_id c = Some w"
      "fmlookup (mb_workflows b) w = Some jw" "jw_phase jw = PendingCommit i ax a"
      "t = b\<lparr> mb_workflows := fmupd w (jw\<lparr> jw_phase := Rejected r \<rparr>) (mb_workflows b) \<rparr>" for c w jw ax a t
    by (rule advance_outcome [OF assms that(1-4) _ that(6)], rule phase_step.refuse) (simp add: that(5))
  show ?thesis
    unfolding reject_locally_def Let_def
    by (auto intro!: outcome_try outcome_same intro: 1 2
        split: WorkflowPhase.split CommandKind.split simp: result_simps)
qed

lemma book_refines:
  assumes "uuid_printer u" "shaped b"
  shows "book_apply u h c b = (Inr x, t) \<Longrightarrow> t = b \<or> book_step u h b t"
    and "book_apply u h c b = (Inl e, t) \<Longrightarrow> t = b \<and> e \<noteq> Panic"
proof -
  have o: "outcome (book_step u h) b r \<Longrightarrow> r = (Inr x, t) \<Longrightarrow> t = b \<or> book_step u h b t"
    "outcome (book_step u h) b r \<Longrightarrow> r = (Inl e', t) \<Longrightarrow> t = b" for r e'
    by (auto simp: outcome_def)
  note outs = record_outcome [of _ u h b] approve_outcome [of _ u h b] observe_outcome [OF assms(2), of u h]
    reject_outcome [OF assms(2), of u h]
  show "book_apply u h c b = (Inr x, t) \<Longrightarrow> t = b \<or> book_step u h b t"
    by (cases c; simp only: book_apply.simps request_new_value [OF assms(1)] approve_new_value [OF assms(1)]
        try_in_simps failing_Ok; rule o(1) [rotated], assumption, rule outs; simp)
  show "book_apply u h c b = (Inl e, t) \<Longrightarrow> t = b \<and> e \<noteq> Panic"
    by (cases c; simp only: book_apply.simps request_new_value [OF assms(1)] approve_new_value [OF assms(1)]
        try_in_simps failing_Err; elim exE conjE; drule o(2) [rotated], rule outs; simp)
qed

end
