(* ===== verification/Membership_Invariant.thy ===== *)
theory Membership_Invariant
  imports Membership_Steps
begin

text \<open>
  The invariant of the command book and its preservation by the step relation: every command has one
  idempotency key, every workflow its request, every active phase its approval, and the digests are those
  of the stored contexts.
\<close>

section \<open>The graph of commands, keys and workflows\<close>

definition terminal_ok :: "CommandKind \<Rightarrow> MembershipCommandPhase \<Rightarrow> bool" where
  "terminal_ok k p =
     (case p of PhaseRejected _ \<Rightarrow> k = KindRequestJoin | PhaseCommitted (AdmittedAlready _) \<Rightarrow> True | _ \<Rightarrow> False)"

definition command_scope :: "MembershipCommandBook \<Rightarrow> StoredCommand \<Rightarrow> GroupScope option" where
  "command_scope b c =
     (case (sc_workflow_id c, sc_terminal_phase c) of
        (Some w, None) \<Rightarrow> map_option (\<lambda>jw. cx_scope (jw_context jw)) (fmlookup (mb_workflows b) w)
      | (None, Some (PhaseCommitted admission)) \<Rightarrow> Some (cr_scope (commit_reference admission))
      | _ \<Rightarrow> None)"

definition keys_ok :: "MembershipCommandBook \<Rightarrow> bool" where
  "keys_ok b =
     ((\<forall>l i. fmlookup (mb_idempotency b) l = Some i \<longrightarrow>
         (\<exists>c. fmlookup (mb_commands b) i = Some c \<and> (\<forall>s. command_scope b c = Some s \<longrightarrow> il_scope l = s)))
      \<and> (\<forall>l l' i. fmlookup (mb_idempotency b) l = Some i \<and> fmlookup (mb_idempotency b) l' = Some i \<longrightarrow> l = l')
      \<and> (\<forall>i c. fmlookup (mb_commands b) i = Some c \<longrightarrow> (\<exists>l. fmlookup (mb_idempotency b) l = Some i)))"

definition workflow_command_ok ::
  "(128 word \<Rightarrow> byte list) \<Rightarrow> (byte list \<Rightarrow> 256 word) \<Rightarrow> MembershipCommandId \<Rightarrow> StoredCommand \<Rightarrow> JoinWorkflow \<Rightarrow> bool" where
  "workflow_command_ok u h i c jw =
     (case sc_kind c of
        KindRequestJoin \<Rightarrow> sc_request_digest c = digest_of u h KindRequestJoin (jw_context jw) None
      | KindApproveJoin \<Rightarrow>
          (case active_approval (jw_phase jw) of
             Some (j, ax, a) \<Rightarrow> j = i \<and> workflow_context_matches (jw_context jw) ax
               \<and> sc_request_digest c = digest_of u h KindApproveJoin ax (Some a)
           | None \<Rightarrow> jw_phase jw \<noteq> PendingApproval))"

definition command_ok ::
  "(128 word \<Rightarrow> byte list) \<Rightarrow> (byte list \<Rightarrow> 256 word) \<Rightarrow> MembershipCommandBook \<Rightarrow> MembershipCommandId \<Rightarrow> StoredCommand \<Rightarrow> bool" where
  "command_ok u h b i c =
     (case (sc_workflow_id c, sc_terminal_phase c) of
        (Some w, None) \<Rightarrow> (\<exists>jw. fmlookup (mb_workflows b) w = Some jw \<and> workflow_command_ok u h i c jw)
      | (None, Some p) \<Rightarrow> terminal_ok (sc_kind c) p
      | _ \<Rightarrow> False)"

definition approves :: "MembershipCommandBook \<Rightarrow> MembershipCommandId \<Rightarrow> StoredCommand \<Rightarrow> JoinRequestId \<Rightarrow> bool" where
  "approves b i c w =
     (fmlookup (mb_commands b) i = Some c \<and> sc_kind c = KindApproveJoin \<and> sc_workflow_id c = Some w)"

definition one_approval :: "MembershipCommandBook \<Rightarrow> JoinRequestId \<Rightarrow> bool" where
  "one_approval b w = (\<forall>i c j d. approves b i c w \<and> approves b j d w \<longrightarrow> i = j)"

definition phase_ok ::
  "(128 word \<Rightarrow> byte list) \<Rightarrow> (byte list \<Rightarrow> 256 word) \<Rightarrow> MembershipCommandBook \<Rightarrow> JoinRequestId
    \<Rightarrow> MembershipCommandContext \<Rightarrow> WorkflowPhase \<Rightarrow> bool" where
  "phase_ok u h b w x p =
     (case p of
        PendingApproval \<Rightarrow> True
      | Committed (Applied ref) \<Rightarrow> cr_scope ref = cx_scope x \<and> one_approval b w
          \<and> (\<exists>c. approves b (cr_command_id ref) c w \<and> sc_request_digest c = cr_request_digest ref)
      | Committed (AdmittedAlready ref) \<Rightarrow> cr_scope ref = cx_scope x \<and> one_approval b w
          \<and> (\<exists>i c. fmlookup (mb_commands b) i = Some c \<and> sc_kind c = KindApproveJoin \<and> sc_workflow_id c = None
             \<and> sc_terminal_phase c = Some (PhaseCommitted (AdmittedAlready ref)))
      | Rejected _ \<Rightarrow> one_approval b w \<and> (\<exists>i c. approves b i c w)
      | PendingCommit i ax a \<Rightarrow> workflow_context_matches x ax
          \<and> (\<exists>c. approves b i c w \<and> sc_request_digest c = digest_of u h KindApproveJoin ax (Some a))
      | Reconciling i ax a \<Rightarrow> workflow_context_matches x ax
          \<and> (\<exists>c. approves b i c w \<and> sc_request_digest c = digest_of u h KindApproveJoin ax (Some a)))"

definition request_ok ::
  "(128 word \<Rightarrow> byte list) \<Rightarrow> (byte list \<Rightarrow> 256 word) \<Rightarrow> MembershipCommandBook \<Rightarrow> JoinRequestId
    \<Rightarrow> MembershipCommandContext \<Rightarrow> bool" where
  "request_ok u h b w x =
     (\<exists>i c. fmlookup (mb_commands b) i = Some c \<and> sc_kind c = KindRequestJoin \<and> sc_workflow_id c = Some w
        \<and> sc_request_digest c = digest_of u h KindRequestJoin x None
        \<and> fmlookup (mb_idempotency b) (lookup_new x) = Some i)"

definition workflow_ok ::
  "(128 word \<Rightarrow> byte list) \<Rightarrow> (byte list \<Rightarrow> 256 word) \<Rightarrow> MembershipCommandBook \<Rightarrow> JoinRequestId \<Rightarrow> JoinWorkflow \<Rightarrow> bool" where
  "workflow_ok u h b w jw =
     (cx_join_request_id (jw_context jw) = w
      \<and> cx_actor_identity_id (jw_context jw) = cx_candidate_identity_id (jw_context jw)
      \<and> request_ok u h b w (jw_context jw)
      \<and> phase_ok u h b w (jw_context jw) (jw_phase jw))"

definition book_ok ::
  "(128 word \<Rightarrow> byte list) \<Rightarrow> (byte list \<Rightarrow> 256 word) \<Rightarrow> MembershipCommandBook \<Rightarrow> bool" where
  "book_ok u h b =
     (keys_ok b
      \<and> (\<forall>i c. fmlookup (mb_commands b) i = Some c \<longrightarrow> command_ok u h b i c)
      \<and> (\<forall>w jw. fmlookup (mb_workflows b) w = Some jw \<longrightarrow> workflow_ok u h b w jw))"

text \<open>The command identity is the one of the context it was recorded with.\<close>

definition id_bound :: "MembershipCommandId \<Rightarrow> StoredCommand \<Rightarrow> JoinWorkflow \<Rightarrow> bool" where
  "id_bound i c jw =
     (case sc_kind c of
        KindRequestJoin \<Rightarrow> cx_command_id (jw_context jw) = i
      | KindApproveJoin \<Rightarrow> (case active_approval (jw_phase jw) of Some (_, ax, _) \<Rightarrow> cx_command_id ax = i | None \<Rightarrow> True))"

definition ids_bound :: "MembershipCommandBook \<Rightarrow> bool" where
  "ids_bound b = (\<forall>i c w jw. fmlookup (mb_commands b) i = Some c \<and> sc_workflow_id c = Some w
     \<and> fmlookup (mb_workflows b) w = Some jw \<longrightarrow> id_bound i c jw)"

lemma ids_boundD:
  "ids_bound b \<Longrightarrow> fmlookup (mb_commands b) i = Some c \<Longrightarrow> sc_workflow_id c = Some w
    \<Longrightarrow> fmlookup (mb_workflows b) w = Some jw \<Longrightarrow> id_bound i c jw"
  by (simp add: ids_bound_def)

definition book_inv ::
  "(128 word \<Rightarrow> byte list) \<Rightarrow> (byte list \<Rightarrow> 256 word) \<Rightarrow> MembershipCommandBook \<Rightarrow> bool" where
  "book_inv u h b = (book_ok u h b \<and> ids_bound b)"

lemma book_okD:
  assumes "book_ok u h b"
  shows "keys_ok b" "fmlookup (mb_commands b) i = Some c \<Longrightarrow> command_ok u h b i c"
    "fmlookup (mb_workflows b) w = Some jw \<Longrightarrow> workflow_ok u h b w jw"
  using assms by (simp_all add: book_ok_def)

lemma command_ok_workflow:
  "command_ok u h b i c \<Longrightarrow> sc_workflow_id c = Some w \<Longrightarrow>
    sc_terminal_phase c = None \<and> (\<exists>jw. fmlookup (mb_workflows b) w = Some jw \<and> workflow_command_ok u h i c jw)"
  by (auto simp: command_ok_def split: option.splits)

lemma book_ok_shaped: "book_ok u h b \<Longrightarrow> shaped b"
  unfolding shaped_def using book_okD(2) command_ok_workflow by blast

lemma book_new_inv: "book_inv u h book_new"
  by (simp add: book_inv_def book_ok_def keys_ok_def ids_bound_def book_new_def)

section \<open>Frames\<close>

definition same_for :: "JoinRequestId \<Rightarrow> MembershipCommandBook \<Rightarrow> MembershipCommandBook \<Rightarrow> bool" where
  "same_for w b t =
     ((\<forall>i c. sc_workflow_id c = Some w \<longrightarrow> (fmlookup (mb_commands t) i = Some c) = (fmlookup (mb_commands b) i = Some c))
      \<and> (\<forall>i c. sc_workflow_id c = None \<and> fmlookup (mb_commands b) i = Some c \<longrightarrow> fmlookup (mb_commands t) i = Some c)
      \<and> (\<forall>l i. fmlookup (mb_idempotency b) l = Some i \<longrightarrow> fmlookup (mb_idempotency t) l = Some i))"

lemma approves_frame: "same_for w b t \<Longrightarrow> approves t i c w = approves b i c w"
  by (auto simp: same_for_def approves_def)

lemma phase_ok_frame: "phase_ok u h b w x p \<Longrightarrow> same_for w b t \<Longrightarrow> phase_ok u h t w x p"
  by (auto simp: phase_ok_def approves_frame one_approval_def split: WorkflowPhase.splits MembershipAdmission.splits)
    (unfold same_for_def, blast)

lemma request_ok_frame: "request_ok u h b w x \<Longrightarrow> same_for w b t \<Longrightarrow> request_ok u h t w x"
  unfolding request_ok_def same_for_def by blast

lemma request_ok_add: "request_ok u h b w x \<Longrightarrow> fresh b i l \<Longrightarrow> request_ok u h (add_command i l c b) w x"
  unfolding request_ok_def fresh_def by fastforce

lemma request_ok_set [simp]: "request_ok u h (set_workflow v jw b) w x = request_ok u h b w x"
  by (simp add: request_ok_def)

lemma workflow_ok_frame:
  assumes "workflow_ok u h b w jw" "same_for w b t" "jw_context jw' = jw_context jw"
    "phase_ok u h t w (jw_context jw) (jw_phase jw')"
  shows "workflow_ok u h t w jw'"
  using assms request_ok_frame unfolding workflow_ok_def by metis

lemma workflow_ok_same: "workflow_ok u h b w jw \<Longrightarrow> same_for w b t \<Longrightarrow> workflow_ok u h t w jw"
  by (rule workflow_ok_frame) (auto simp: workflow_ok_def intro: phase_ok_frame)

section \<open>Preservation\<close>

lemma fresh_workflow:
  assumes "book_ok u h b" "fmlookup (mb_workflows b) w = None" "fmlookup (mb_commands b) i = Some c"
  shows "sc_workflow_id c \<noteq> Some w"
  using book_okD(2) [OF assms(1,3)] assms(2) command_ok_workflow [of u h b i c w] by auto

lemma same_for_add:
  "fresh b i l \<Longrightarrow> sc_workflow_id c \<noteq> Some w \<Longrightarrow> same_for w b (add_command i l c b)"
  "same_for w b t \<Longrightarrow> same_for w b (set_workflow v jw t)"
  by (auto simp: same_for_def fresh_def)

lemma phase_step_ok:
  assumes "phase_step i d s p q" "phase_ok u h b w x p" "cx_scope x = s" "approves b i c w" "sc_request_digest c = d"
    and "one_approval b w"
  shows "phase_ok u h b w x q"
  using assms by (cases rule: phase_step.cases) (auto simp: phase_ok_def active_approval_Some)

lemma one_approval_active:
  assumes "book_ok u h b" "fmlookup (mb_workflows b) w = Some jw" "active_approval (jw_phase jw) = Some (i, ax, a)"
  shows "one_approval b w"
proof -
  have "j = i" if "approves b j c w" for j c
    using that book_okD(2) [OF assms(1), of j c] assms(2,3) command_ok_workflow [of u h b j c w]
    by (auto simp: approves_def workflow_command_ok_def)
  then show ?thesis by (auto simp: one_approval_def)
qed

lemma one_approval_unsettled:
  assumes "book_ok u h b" "fmlookup (mb_workflows b) w = Some jw" "unsettled (jw_phase jw)"
  shows "one_approval b w"
proof (cases "jw_phase jw = PendingApproval")
  case True
  then have "\<not> approves b j c w" for j c
    using book_okD(2) [OF assms(1), of j c] assms(2) command_ok_workflow [of u h b j c w]
    by (auto simp: approves_def workflow_command_ok_def)
  then show ?thesis by (auto simp: one_approval_def)
next
  case False
  then show ?thesis using assms one_approval_active by (auto simp: unsettled_def)
qed

lemma workflows_step:
  assumes ok: "book_ok u h b" and "book_step u h b t" and jw': "fmlookup (mb_workflows t) v = Some jw'"
  shows "workflow_ok u h t v jw'"
proof -
  have keep: ?thesis if "same_for v b t" "fmlookup (mb_workflows b) v = Some jw'"
    by (rule workflow_ok_same [OF book_okD(3) [OF ok that(2)] that(1)])
  have change: ?thesis if "same_for v b t" "fmlookup (mb_workflows b) v = Some jw"
    "jw' = jw\<lparr> jw_phase := p \<rparr>" "phase_ok u h t v (jw_context jw) p" for jw p
    by (rule workflow_ok_frame [OF book_okD(3) [OF ok that(2)] that(1)]) (simp_all add: that(3,4))
  from assms(2) show ?thesis
  proof cases
    case (open_workflow c)
    show ?thesis
    proof (cases "v = cx_join_request_id c")
      case True
      then have "jw' = workflow_pending c" using jw' open_workflow(1) by simp
      moreover have "request_ok u h t v c" using True unfolding open_workflow(1)
        by (force simp: request_ok_def stored_workflow_def)
      ultimately show ?thesis using True open_workflow(3)
        by (simp add: workflow_ok_def workflow_pending_def phase_ok_def)
    next
      case False
      then show ?thesis using open_workflow jw' by (intro keep) (simp_all add: same_for_add stored_workflow_def)
    qed
  next
    case (already i l ref k d)
    then show ?thesis using jw' by (intro keep) (simp_all add: same_for_add stored_terminal_def)
  next
    case (settle i l ref w jw d)
    have same: "same_for v b t" using settle by (simp add: same_for_add stored_terminal_def)
    show ?thesis
    proof (cases "v = w")
      case True
      have "one_approval t w"
        using one_approval_unsettled [OF ok settle(4,5)] approves_frame [OF same] True by (simp add: one_approval_def)
      then have "phase_ok u h t w (jw_context jw) (Committed (AdmittedAlready ref))"
        using settle(1,3,6) by (force simp: phase_ok_def stored_terminal_def)
      then show ?thesis using True jw' settle by (intro change [OF same]) simp_all
    next
      case False
      then show ?thesis using settle(1) jw' by (intro keep [OF same]) simp
    qed
  next
    case (approve c w jw a)
    show ?thesis
    proof (cases "v = w")
      case True
      then have "jw' = jw\<lparr> jw_phase := PendingCommit (cx_command_id c) c a \<rparr>" using jw' approve(1) by simp
      then show ?thesis
        using True approve(5) book_okD(3) [OF ok approve(4)] request_ok_add [OF _ approve(2)] unfolding approve(1)
        by (simp add: workflow_ok_def phase_ok_def approves_def stored_workflow_def)
    next
      case False
      then show ?thesis using approve jw' by (intro keep) (simp_all add: same_for_add stored_workflow_def)
    qed
  next
    case (advance i c w jw p)
    have same: "same_for v b t" using advance(1) by (simp add: same_for_def)
    show ?thesis
    proof (cases "v = w")
      case True
      have "\<exists>ax a. active_approval (jw_phase jw) = Some (i, ax, a)" using advance(6) by cases auto
      then have "one_approval b w" using one_approval_active [OF ok advance(5)] by blast
      then have "phase_ok u h b w (jw_context jw) p"
        using phase_step_ok [OF advance(6)] book_okD(3) [OF ok advance(5)] advance(2-4)
        by (simp add: workflow_ok_def approves_def)
      then have "phase_ok u h t v (jw_context jw) p" using True phase_ok_frame [OF _ same] by simp
      then show ?thesis using True jw' advance(1,5) by (intro change [OF same]) simp_all
    next
      case False
      then show ?thesis using advance(1) jw' by (intro keep [OF same]) simp
    qed
  next
    case (dismiss i c w jw r)
    then show ?thesis
      using jw' by (intro keep) (auto simp: same_for_def stored_terminal_def split: if_splits)
  qed
qed

lemma workflow_command_phase:
  assumes "workflow_command_ok u h i c jw" "\<not> unsettled p \<or> (p \<noteq> PendingApproval \<and> active_approval p = active_approval (jw_phase jw))"
  shows "workflow_command_ok u h i c (jw\<lparr> jw_phase := p \<rparr>)"
  using assms unfolding workflow_command_ok_def unsettled_def by (auto split: CommandKind.splits option.splits)

lemma phase_step_active:
  "phase_step i d s p q \<Longrightarrow> \<not> unsettled q \<or> (q \<noteq> PendingApproval \<and> active_approval q = active_approval p)"
  by (cases rule: phase_step.cases) (auto simp: unsettled_def)

lemma commands_step:
  assumes "book_inv u h b" and "book_step u h b t" and c: "fmlookup (mb_commands t) j = Some c"
  shows "command_ok u h t j c"
proof -
  have ok: "book_ok u h b" and ids: "ids_bound b" using assms(1) by (simp_all add: book_inv_def)
  have keep: ?thesis if "fmlookup (mb_commands b) j = Some c"
    "\<And>w jw. sc_workflow_id c = Some w \<Longrightarrow> fmlookup (mb_workflows b) w = Some jw \<Longrightarrow> workflow_command_ok u h j c jw
       \<Longrightarrow> \<exists>jw'. fmlookup (mb_workflows t) w = Some jw' \<and> workflow_command_ok u h j c jw'"
    using book_okD(2) [OF ok that(1)] that(2) unfolding command_ok_def by (auto split: option.splits)
  have new: ?thesis if "sc_workflow_id c = None" "sc_terminal_phase c = Some p" "terminal_ok (sc_kind c) p" for p
    using that by (simp add: command_ok_def)
  from assms(2) show ?thesis
  proof cases
    case (open_workflow x)
    show ?thesis
    proof (cases "j = cx_command_id x")
      case True
      then show ?thesis using c open_workflow(1)
        by (auto simp: command_ok_def stored_workflow_def workflow_command_ok_def workflow_pending_def)
    next
      case False
      then show ?thesis using c open_workflow(1) fresh_workflow [OF ok open_workflow(4)] by (intro keep) auto
    qed
  next
    case (already i l ref k d)
    show ?thesis
    proof (cases "j = i")
      case True
      then show ?thesis using c already(1) by (intro new) (auto simp: stored_terminal_def terminal_ok_def)
    next
      case False
      then show ?thesis using c already(1) by (intro keep) auto
    qed
  next
    case (settle i l ref w jw d)
    show ?thesis
    proof (cases "j = i")
      case True
      then show ?thesis using c settle(1) by (intro new) (auto simp: stored_terminal_def terminal_ok_def)
    next
      case False
      then show ?thesis using c settle(1,4)
        by (intro keep) (auto intro: workflow_command_phase simp: unsettled_def)
    qed
  next
    case (approve x w jw a)
    show ?thesis
    proof (cases "j = cx_command_id x")
      case True
      then show ?thesis using c approve
        by (auto simp: command_ok_def stored_workflow_def workflow_command_ok_def)
    next
      case False
      then show ?thesis using c approve(1,4,6)
        by (intro keep) (auto simp: workflow_command_ok_def split: CommandKind.splits)
    qed
  next
    case (advance i d w jw p)
    then show ?thesis using c phase_step_active [OF advance(6)]
      by (intro keep) (auto intro: workflow_command_phase)
  next
    case (dismiss i d w jw r)
    show ?thesis
    proof (cases "j = i")
      case True
      then show ?thesis using c dismiss(1) by (intro new) (auto simp: stored_terminal_def terminal_ok_def)
    next
      case False
      have "v \<noteq> w" if "sc_workflow_id c = Some v" "fmlookup (mb_workflows b) v = Some jv" "workflow_command_ok u h j c jv"
        "fmlookup (mb_commands b) j = Some c" for v jv
      proof
        assume "v = w"
        then have "sc_kind c = KindRequestJoin"
          using that(2,3) dismiss(5,6) by (auto simp: workflow_command_ok_def split: CommandKind.splits)
        then have "cx_command_id (jw_context jw) = j" "cx_command_id (jw_context jw) = i"
          using ids_boundD [OF ids that(4), of w jw] ids_boundD [OF ids dismiss(2,4,5)] that(1) dismiss(3,5) \<open>v = w\<close>
          by (simp_all add: id_bound_def)
        then show False using False by simp
      qed
      then show ?thesis using c dismiss(1) False by (intro keep) auto
    qed
  qed
qed

lemma id_bound_phase:
  assumes "id_bound i c jw" "active_approval p = None \<or> active_approval p = active_approval (jw_phase jw)"
  shows "id_bound i c (jw\<lparr> jw_phase := p \<rparr>)"
  using assms by (auto simp: id_bound_def split: CommandKind.splits option.splits)

lemma ids_step:
  assumes "book_inv u h b" and "book_step u h b t"
  shows "ids_bound t"
  unfolding ids_bound_def
proof (intro allI impI, elim conjE)
  fix j c v jv assume c: "fmlookup (mb_commands t) j = Some c" "sc_workflow_id c = Some v" "fmlookup (mb_workflows t) v = Some jv"
  have ok: "book_ok u h b" and ids: "ids_bound b" using assms(1) by (simp_all add: book_inv_def)
  have keep: "id_bound j c jv" if "fmlookup (mb_commands b) j = Some c" "fmlookup (mb_workflows b) v = Some jv"
    by (rule ids_boundD [OF ids that(1) c(2) that(2)])
  have change: "id_bound j c jv" if "fmlookup (mb_commands b) j = Some c" "fmlookup (mb_workflows b) v = Some jw"
    "jv = jw\<lparr> jw_phase := p \<rparr>" "active_approval p = None \<or> active_approval p = active_approval (jw_phase jw)" for jw p
    unfolding that(3) by (rule id_bound_phase [OF ids_boundD [OF ids that(1) c(2) that(2)] that(4)])
  from assms(2) show "id_bound j c jv"
  proof cases
    case (open_workflow x)
    show ?thesis
    proof (cases "j = cx_command_id x")
      case True
      then show ?thesis using c open_workflow(1) by (auto simp: stored_workflow_def workflow_pending_def id_bound_def)
    next
      case False
      then show ?thesis using c open_workflow(1) fresh_workflow [OF ok open_workflow(4), of j c]
        by (intro keep) (auto split: if_splits)
    qed
  next
    case (already i l ref k d)
    then show ?thesis using c by (intro keep) (auto simp: stored_terminal_def split: if_splits)
  next
    case (settle i l ref w jw d)
    then have "fmlookup (mb_commands b) j = Some c" using c by (auto simp: stored_terminal_def split: if_splits)
    then show ?thesis using c settle(1,4) keep change by (cases "v = w") auto
  next
    case (approve x w jw a)
    show ?thesis
    proof (cases "j = cx_command_id x")
      case True
      then show ?thesis using c approve(1) by (auto simp: stored_workflow_def id_bound_def)
    next
      case False
      then have b: "fmlookup (mb_commands b) j = Some c" using c approve(1) by simp
      show ?thesis
      proof (cases "v = w")
        case True
        then have "sc_kind c = KindRequestJoin"
          using command_ok_workflow [OF book_okD(2) [OF ok b] c(2)] approve(4,6)
          by (auto simp: workflow_command_ok_def split: CommandKind.splits)
        then show ?thesis using ids_boundD [OF ids b c(2)] c(3) approve(1,4) True by (auto simp: id_bound_def)
      next
        case False
        then show ?thesis using b c approve(1) by (intro keep) auto
      qed
    qed
  next
    case (advance i d w jw p)
    have "active_approval p = None \<or> active_approval p = active_approval (jw_phase jw)"
      using phase_step_active [OF advance(6)] unfolding unsettled_def by blast
    then show ?thesis using c advance(1,5) keep change by (cases "v = w") auto
  next
    case (dismiss i d w jw r)
    then show ?thesis using c by (intro keep) (auto simp: stored_terminal_def split: if_splits)
  qed
qed

lemma keys_okI:
  assumes "\<And>l i. fmlookup (mb_idempotency b) l = Some i \<Longrightarrow>
      \<exists>c. fmlookup (mb_commands b) i = Some c \<and> (\<forall>s. command_scope b c = Some s \<longrightarrow> il_scope l = s)"
    and "\<And>l l' i. fmlookup (mb_idempotency b) l = Some i \<Longrightarrow> fmlookup (mb_idempotency b) l' = Some i \<Longrightarrow> l = l'"
    and "\<And>i c. fmlookup (mb_commands b) i = Some c \<Longrightarrow> \<exists>l. fmlookup (mb_idempotency b) l = Some i"
  shows "keys_ok b"
  using assms unfolding keys_ok_def by blast

lemma keys_okD:
  assumes "keys_ok b"
  shows "fmlookup (mb_idempotency b) l = Some i \<Longrightarrow> fmlookup (mb_idempotency b) l' = Some i \<Longrightarrow> l = l'"
    and "fmlookup (mb_commands b) i = Some c \<Longrightarrow> \<exists>l. fmlookup (mb_idempotency b) l = Some i"
    and "fmlookup (mb_idempotency b) l = Some i \<Longrightarrow> \<exists>c. fmlookup (mb_commands b) i = Some c"
    and "fmlookup (mb_idempotency b) l = Some i \<Longrightarrow> fmlookup (mb_commands b) i = Some c
      \<Longrightarrow> command_scope b c = Some s \<Longrightarrow> il_scope l = s"
  using assms unfolding keys_ok_def by (blast, blast, blast, fastforce)

text \<open>Recording a fresh command under a fresh key, and changing workflows without changing their scopes.\<close>

lemma command_scope_add [simp]: "command_scope (add_command i l c b) d = command_scope b d"
  by (simp only: command_scope_def book_updates)

lemma command_scope_workflow:
  "command_scope b c = Some s \<Longrightarrow> sc_workflow_id c = Some w \<Longrightarrow>
    \<exists>jw. fmlookup (mb_workflows b) w = Some jw \<and> cx_scope (jw_context jw) = s"
  by (auto simp: command_scope_def split: option.splits)

lemma command_scope_set:
  "sc_workflow_id c \<noteq> Some w \<Longrightarrow> command_scope (set_workflow w jw b) c = command_scope b c"
  "fmlookup (mb_workflows b) w = Some jw' \<Longrightarrow> cx_scope (jw_context jw') = cx_scope (jw_context jw)
    \<Longrightarrow> command_scope (set_workflow w jw b) c = command_scope b c"
  by (auto simp: command_scope_def split: option.splits)

lemma keys_ok_add:
  assumes "keys_ok b" "fresh b i l" "\<And>s. command_scope b c = Some s \<Longrightarrow> il_scope l = s"
  shows "keys_ok (add_command i l c b)"
proof (rule keys_okI)
  fix k j assume "fmlookup (mb_idempotency (add_command i l c b)) k = Some j"
  then show "\<exists>d. fmlookup (mb_commands (add_command i l c b)) j = Some d
      \<and> (\<forall>s. command_scope (add_command i l c b) d = Some s \<longrightarrow> il_scope k = s)"
    using assms(2,3) keys_okD(3,4) [OF assms(1), of k j] unfolding fresh_def
    by (cases "j = i"; cases "k = l") auto
next
  fix k k' j assume "fmlookup (mb_idempotency (add_command i l c b)) k = Some j"
    "fmlookup (mb_idempotency (add_command i l c b)) k' = Some j"
  then show "k = k'"
    using assms(2) keys_okD(3) [OF assms(1), of _ i] keys_okD(1) [OF assms(1), of k j k']
    by (auto simp: fresh_def split: if_splits)
next
  fix j d assume "fmlookup (mb_commands (add_command i l c b)) j = Some d"
  then show "\<exists>k. fmlookup (mb_idempotency (add_command i l c b)) k = Some j"
    using assms(2) keys_okD(2) [OF assms(1), of j d] by (cases "j = i") (auto simp: fresh_def, metis option.distinct(1))
qed

lemma keys_ok_workflows:
  assumes "keys_ok b" "mb_commands t = mb_commands b" "mb_idempotency t = mb_idempotency b"
    and "\<And>i c s. fmlookup (mb_commands b) i = Some c \<Longrightarrow> command_scope t c = Some s \<Longrightarrow> command_scope b c = Some s"
  shows "keys_ok t"
proof (rule keys_okI)
  fix l i assume l: "fmlookup (mb_idempotency t) l = Some i"
  then obtain c where c: "fmlookup (mb_commands b) i = Some c" using keys_okD(3) [OF assms(1)] assms(3) by auto
  then show "\<exists>c. fmlookup (mb_commands t) i = Some c \<and> (\<forall>s. command_scope t c = Some s \<longrightarrow> il_scope l = s)"
    using assms(2,3) l assms(4) [OF c] keys_okD(4) [OF assms(1) _ c] by auto
qed (use assms(2,3) keys_okD(1,2) [OF assms(1)] in auto)

lemma keys_ok_set:
  assumes "keys_ok b" "\<And>i c. fmlookup (mb_commands b) i = Some c \<Longrightarrow> sc_workflow_id c \<noteq> Some w"
  shows "keys_ok (set_workflow w jw b)"
  by (rule keys_ok_workflows [OF assms(1)]) (use assms(2) in \<open>auto simp: command_scope_set(1)\<close>)

lemma keys_ok_phase:
  assumes "keys_ok b" "fmlookup (mb_workflows b) w = Some jw"
  shows "keys_ok (set_workflow w (jw\<lparr> jw_phase := p \<rparr>) b)"
  by (rule keys_ok_workflows [OF assms(1)]) (use assms(2) in \<open>auto simp: command_scope_set(2)\<close>)

lemma set_add_commute: "set_workflow w jw (add_command i l c b) = add_command i l c (set_workflow w jw b)"
  by (simp add: add_command_def set_workflow_def)

lemma fresh_set [simp]: "fresh (set_workflow w jw b) i l = fresh b i l"
  by (simp add: fresh_def)

lemma stored_scopes [simp]:
  "command_scope b (stored_terminal k d (PhaseCommitted a)) = Some (cr_scope (commit_reference a))"
  "command_scope b (stored_terminal k d (PhaseRejected r)) = None"
  "command_scope b (stored_workflow k d w) = map_option (\<lambda>jw. cx_scope (jw_context jw)) (fmlookup (mb_workflows b) w)"
  by (simp_all add: command_scope_def stored_terminal_def stored_workflow_def)

lemma keys_step:
  assumes ok: "book_ok u h b" and "book_step u h b t"
  shows "keys_ok t"
proof -
  note k = book_okD(1) [OF ok]
  from assms(2) show ?thesis
  proof cases
    case (open_workflow c)
    have "keys_ok (set_workflow (cx_join_request_id c) (workflow_pending c) b)"
      by (rule keys_ok_set [OF k]) (rule fresh_workflow [OF ok open_workflow(4)])
    then show ?thesis unfolding open_workflow(1) set_add_commute
      by (rule keys_ok_add) (use open_workflow(2) in \<open>auto simp: workflow_pending_def\<close>)
  next
    case (already i l ref k d)
    then show ?thesis unfolding already(1) by (intro keys_ok_add [OF book_okD(1) [OF ok]]) (auto simp: commit_reference_def)
  next
    case (settle i l ref w jw d)
    then show ?thesis unfolding settle(1) set_add_commute
      by (intro keys_ok_add [OF keys_ok_phase [OF k]]) (auto simp: commit_reference_def)
  next
    case (approve c w jw a)
    then show ?thesis unfolding approve(1) set_add_commute
      by (intro keys_ok_add [OF keys_ok_phase [OF k]]) (auto simp: workflow_context_matches_def)
  next
    case (advance i c w jw p)
    then show ?thesis unfolding advance(1) by (intro keys_ok_phase [OF k])
  next
    case (dismiss i c w jw r)
    have scope: "command_scope t d = Some s \<Longrightarrow> command_scope b d = Some s" for d s
      unfolding dismiss(1) by (auto simp: command_scope_def split: option.splits if_splits)
    show ?thesis
    proof (rule keys_okI)
      fix l j assume l: "fmlookup (mb_idempotency t) l = Some j"
      then obtain d where d: "fmlookup (mb_commands b) j = Some d" using keys_okD(3) [OF k] dismiss(1) by auto
      show "\<exists>c. fmlookup (mb_commands t) j = Some c \<and> (\<forall>s. command_scope t c = Some s \<longrightarrow> il_scope l = s)"
        using d l dismiss(1) scope keys_okD(4) [OF k _ d] by (cases "j = i") auto
    next
      fix l l' j assume "fmlookup (mb_idempotency t) l = Some j" "fmlookup (mb_idempotency t) l' = Some j"
      then show "l = l'" using keys_okD(1) [OF k] dismiss(1) by simp
    next
      fix j d assume "fmlookup (mb_commands t) j = Some d"
      then show "\<exists>l. fmlookup (mb_idempotency t) l = Some j"
        using keys_okD(2) [OF k] dismiss(1,2) by (auto split: if_splits)
    qed
  qed
qed

lemma book_step_inv:
  assumes inv: "book_inv u h b" and st: "book_step u h b t"
  shows "book_inv u h t"
proof -
  have ok: "book_ok u h b" using inv by (simp add: book_inv_def)
  have "book_ok u h t"
    unfolding book_ok_def using keys_step [OF ok st] commands_step [OF inv st] workflows_step [OF ok st] by simp
  then show ?thesis using ids_step [OF inv st] by (simp add: book_inv_def)
qed

end
