(* ===== verification/Membership_Calls.thy ===== *)
theory Membership_Calls
  imports Membership_Invariant
begin

text \<open>
  Sequences of calls on the command book: the methods meet the contract of \<open>Calls\<close>, and the facts
  that last - a recorded command, a settled phase, the approval of a workflow - are stable under steps.
\<close>

definition reachable_book ::
  "(128 word \<Rightarrow> byte list) \<Rightarrow> (byte list \<Rightarrow> 256 word) \<Rightarrow> book_call list \<Rightarrow> MembershipCommandBook" where
  "reachable_book u h calls = run (book_apply u h) calls book_new"

interpretation book_calls: stepping_calls "book_apply u h" "book_step u h" "\<lambda>b. uuid_printer u \<and> book_inv u h b" for u h
proof unfold_locales
  fix s c x t assume "uuid_printer u \<and> book_inv u h s" "book_apply u h c s = (Inr x, t)"
  then show "t = s \<or> book_step u h s t" using book_refines(1) [of u s h c x t] book_ok_shaped [of u h s] by (simp add: book_inv_def)
next
  fix s c e t assume "uuid_printer u \<and> book_inv u h s" "book_apply u h c s = (Inl e, t)"
  then show "t = s" using book_refines(2) [of u s h c e t] book_ok_shaped [of u h s] by (simp add: book_inv_def)
next
  fix s t assume "uuid_printer u \<and> book_inv u h s" "book_step u h s t"
  then show "uuid_printer u \<and> book_inv u h t" using book_step_inv by blast
qed

lemma reachable_inv: "uuid_printer u \<Longrightarrow> book_inv u h (reachable_book u h calls)"
  using book_calls.run_inv [of u h book_new calls] book_new_inv by (simp add: reachable_book_def)

section \<open>What lasts\<close>

definition recorded :: "MembershipCommandId \<Rightarrow> Sha256Digest \<Rightarrow> MembershipCommandBook \<Rightarrow> bool" where
  "recorded i d b = (\<exists>c. fmlookup (mb_commands b) i = Some c \<and> sc_request_digest c = d)"

lemma recorded_step: "book_step u h b t \<Longrightarrow> recorded i d b \<Longrightarrow> recorded i d t"
  by (cases rule: book_step.cases) (auto simp: recorded_def fresh_def stored_terminal_def)

lemma key_step: "book_step u h b t \<Longrightarrow> fmlookup (mb_idempotency b) l = Some i \<Longrightarrow> fmlookup (mb_idempotency t) l = Some i"
  by (cases rule: book_step.cases) (auto simp: fresh_def)

lemma command_kept:
  assumes "book_step u h b t" "fmlookup (mb_commands b) i = Some c"
  shows "fmlookup (mb_commands t) i = Some c
    \<or> (\<exists>w jw. sc_workflow_id c = Some w \<and> fmlookup (mb_workflows b) w = Some jw \<and> jw_phase jw = PendingApproval)"
  using assms by (cases rule: book_step.cases) (auto simp: fresh_def)

lemma phase_step_unsettled: "phase_step i d s p q \<Longrightarrow> unsettled p"
  by (cases rule: phase_step.cases) (auto simp: unsettled_def)

text \<open>A workflow past its approval is never dropped; its phase only moves along the approval it has.\<close>

lemma workflow_kept:
  assumes "book_step u h b t" "fmlookup (mb_workflows b) w = Some jw" "jw_phase jw \<noteq> PendingApproval"
  shows "\<exists>jw'. fmlookup (mb_workflows t) w = Some jw' \<and> jw_context jw' = jw_context jw \<and> jw_phase jw' \<noteq> PendingApproval
    \<and> (jw' = jw \<or> unsettled (jw_phase jw))
    \<and> (active_approval (jw_phase jw') = active_approval (jw_phase jw) \<or> \<not> unsettled (jw_phase jw'))"
  using assms(1)
proof cases
  case (settle i l ref v jv d)
  then show ?thesis using assms(2,3) by (cases "v = w") (auto simp: unsettled_def)
next
  case (approve c v jv a)
  then show ?thesis using assms(2,3) by (cases "v = w") auto
next
  case (advance i c v jv p)
  then show ?thesis
    using assms(2,3) phase_step_active [OF advance(6)] phase_step_unsettled [OF advance(6)]
    by (cases "v = w") (auto simp: unsettled_def)
qed (use assms(2,3) in auto)

definition settled_with :: "MembershipCommandId \<Rightarrow> MembershipReceipt \<Rightarrow> MembershipCommandBook \<Rightarrow> bool" where
  "settled_with i r b = (receipt b i = Inr r \<and> is_terminal (re_phase r))"

lemma receipt_Inr:
  "receipt_for b i = Inr r \<longleftrightarrow> (\<exists>c. fmlookup (mb_commands b) i = Some c \<and> re_command_id r = i
     \<and> re_request_digest r = sc_request_digest c
     \<and> ((\<exists>w jw. sc_workflow_id c = Some w \<and> sc_terminal_phase c = None \<and> fmlookup (mb_workflows b) w = Some jw
            \<and> re_phase r = as_public (jw_phase jw))
        \<or> (sc_workflow_id c = None \<and> sc_terminal_phase c = Some (re_phase r))))"
proof (cases "fmlookup (mb_commands b) i")
  case (Some c)
  then show ?thesis
    by (cases r; cases "sc_workflow_id c"; cases "sc_terminal_phase c"; cases "fmlookup (mb_workflows b) (the (sc_workflow_id c))")
      (auto simp: receipt_for_def)
qed (simp add: receipt_for_def)

lemma terminal_public: "is_terminal (as_public p) \<longleftrightarrow> \<not> unsettled p"
  by (cases p) (auto simp: is_terminal_def as_public_def unsettled_def)

lemma settled_step:
  assumes "book_step u h b t" "settled_with i r b"
  shows "settled_with i r t"
proof -
  obtain c where c: "fmlookup (mb_commands b) i = Some c" "re_command_id r = i" "re_request_digest r = sc_request_digest c"
    and p: "(\<exists>w jw. sc_workflow_id c = Some w \<and> sc_terminal_phase c = None \<and> fmlookup (mb_workflows b) w = Some jw
      \<and> re_phase r = as_public (jw_phase jw)) \<or> (sc_workflow_id c = None \<and> sc_terminal_phase c = Some (re_phase r))"
    and tm: "is_terminal (re_phase r)"
    using assms(2) unfolding settled_with_def receipt_def receipt_Inr by blast
  from p show ?thesis
  proof (elim disjE exE conjE)
    fix w jw assume w: "sc_workflow_id c = Some w" "sc_terminal_phase c = None" "fmlookup (mb_workflows b) w = Some jw"
      "re_phase r = as_public (jw_phase jw)"
    then have s: "\<not> unsettled (jw_phase jw)" using tm terminal_public by simp
    then have "fmlookup (mb_workflows t) w = Some jw"
      using workflow_kept [OF assms(1) w(3)] by (auto simp: unsettled_def)
    moreover have "fmlookup (mb_commands t) i = Some c"
      using command_kept [OF assms(1) c(1)] w(1,3) s by (auto simp: unsettled_def)
    ultimately show ?thesis using c w tm unfolding settled_with_def receipt_def receipt_Inr by blast
  next
    assume "sc_workflow_id c = None" "sc_terminal_phase c = Some (re_phase r)"
    then show ?thesis using command_kept [OF assms(1) c(1)] c tm unfolding settled_with_def receipt_def receipt_Inr by auto
  qed
qed

section \<open>Errors\<close>

lemma receipt_no_violation: "book_ok u h b \<Longrightarrow> receipt_for b i \<noteq> Inl InvariantViolation"
  using book_okD(2) [of u h b i] unfolding command_ok_def
  by (auto simp: receipt_for_def ok_or_def res_bind_def split: option.splits sum.splits)

lemma existing_no_violation:
  "book_ok u h b \<Longrightarrow> existing_or_conflict b i d l \<noteq> Inl InvariantViolation"
  using keys_okD(3) [OF book_okD(1), of u h b l] receipt_no_violation [of u h b]
  by (auto simp: existing_or_conflict_def res_bind_def map_ok_def split: option.splits sum.splits)

text \<open>\<open>sane r\<close>: an invariant violation can only come from the receipt of the state that is returned.\<close>

definition sane :: "(MembershipCommandError + MembershipReceipt) \<times> MembershipCommandBook \<Rightarrow> bool" where
  "sane r = (fst r = Inl InvariantViolation \<longrightarrow> (\<exists>i. receipt_for (snd r) i = Inl InvariantViolation))"

lemma sane_values: "sane (Inr x, t)" "e \<noteq> InvariantViolation \<Longrightarrow> sane (Inl e, t)" "sane (receipt_for t i, t)"
  by (auto simp: sane_def)

lemma sane_try: "r \<noteq> Inl InvariantViolation \<Longrightarrow> (\<And>x. r = Inr x \<Longrightarrow> sane (k x)) \<Longrightarrow> sane (try_in s r k)"
  by (cases r) (auto simp: sane_def)

lemma resolve_no_violation: "resolve_active rc i c a s d res \<noteq> Inl InvariantViolation"
  by (cases res) (auto simp: resolve_active_def validate_commit_reference_def)

lemma ops_sane:
  assumes ok: "book_ok u h b"
  shows "sane (record_join_request rq m b)" "sane (book_approve_join ap m b)"
    "sane (observe_sequencer_resolution i res b)" "sane (reject_locally i r b)"
proof -
  note ex = existing_no_violation [OF ok]
  have wf: "fmlookup (mb_workflows b) w \<noteq> None"
    if "fmlookup (mb_commands b) i = Some c" "sc_workflow_id c = Some w" for i c w
    using command_ok_workflow [OF book_okD(2) [OF ok that(1)] that(2)] by auto
  show "sane (record_join_request rq m b)"
    unfolding record_join_request_def Let_def
    by (auto intro!: sane_try sane_values ex split: option.split CandidateMembership.split)
  show "sane (book_approve_join ap m b)"
    unfolding book_approve_join_def Let_def
    by (auto intro!: sane_try sane_values ex split: option.split CandidateMembership.split WorkflowPhase.split
        simp: result_simps)
  show "sane (observe_sequencer_resolution i res b)"
    unfolding observe_sequencer_resolution_def Let_def
    by (auto intro!: sane_try sane_values resolve_no_violation split: WorkflowPhase.split simp: result_simps)
      (simp add: wf)
  show "sane (reject_locally i r b)"
    unfolding reject_locally_def Let_def
    by (auto intro!: sane_try sane_values split: WorkflowPhase.split CommandKind.split simp: result_simps dest: wf)
qed

lemma call_errors:
  assumes "uuid_printer u" "book_inv u h b" "book_apply u h c b = (Inl e, t)"
  shows "t = b \<and> e \<noteq> Panic \<and> e \<noteq> Fail InvariantViolation"
proof -
  have ok: "book_ok u h b" using assms(2) by (simp add: book_inv_def)
  have t: "t = b" "e \<noteq> Panic" using book_refines(2) [OF assms(1) book_ok_shaped [OF ok] assms(3)] by auto
  have sane: "\<exists>i. receipt_for t i = Inl InvariantViolation" if "sane r" "r = (Inl InvariantViolation, t)" for r
    using that by (simp add: sane_def)
  have "\<exists>i. receipt_for t i = Inl InvariantViolation" if "e = Fail InvariantViolation"
    using assms(3) unfolding that
    by (cases c) (auto simp: request_new_value approve_new_value assms(1) failing_Err
        intro: sane [OF ops_sane(1) [OF ok]] sane [OF ops_sane(2) [OF ok]] sane [OF ops_sane(3) [OF ok]]
          sane [OF ops_sane(4) [OF ok]])
  then show ?thesis using t receipt_no_violation [OF ok] by auto
qed

end
