(* ===== verification/Membership_Safety.thy ===== *)
theory Membership_Safety
  imports Membership_Calls
begin

text \<open>
  Properties of the command book under arbitrary sequences of calls: exact replay, conflicts, permanence
  of results, at most one submit per join request, reconciliation by query only, and the binding of
  commit references.
\<close>

section \<open>Replay\<close>

fun call_command :: "book_call \<Rightarrow> (CommandKind \<times> MembershipCommandContext \<times> Sha256Digest option) option" where
  "call_command (CallRequest x m) = Some (KindRequestJoin, x, None)"
| "call_command (CallApprove x a m) = Some (KindApproveJoin, x, Some a)"
| "call_command _ = None"

lemma existing_Some:
  "existing_or_conflict b i d l = Inr (Some r) \<longleftrightarrow>
     (recorded i d b \<and> receipt_for b i = Inr r)
     \<or> (fmlookup (mb_commands b) i = None
        \<and> (\<exists>j. fmlookup (mb_idempotency b) l = Some j \<and> recorded j d b \<and> receipt_for b j = Inr r))"
proof (cases "fmlookup (mb_commands b) i")
  case None
  then show ?thesis
    by (auto simp: existing_or_conflict_def recorded_def result_simps split: option.splits if_splits)
next
  case (Some c)
  then show ?thesis by (auto simp: existing_or_conflict_def recorded_def result_simps)
qed

lemma existing_conflicts:
  "recorded i d b \<Longrightarrow> d' \<noteq> d \<Longrightarrow> existing_or_conflict b i d' l = Inl CommandIdConflict"
  "fmlookup (mb_commands b) j = None \<Longrightarrow> fmlookup (mb_idempotency b) l = Some i \<Longrightarrow> recorded i d b \<Longrightarrow> d' \<noteq> d
    \<Longrightarrow> existing_or_conflict b j d' l = Inl IdempotencyConflict"
  by (auto simp: existing_or_conflict_def recorded_def)

text \<open>Both recording methods begin with the replay check, so its outcome decides them.\<close>

lemma recording_result:
  assumes "uuid_printer u" "call_command c = Some (k, x, a)"
  shows "existing_or_conflict b (cx_command_id x) (digest_of u h k x a) (lookup_new x) = Inr (Some r)
      \<Longrightarrow> book_apply u h c b = (Inr r, b)"
    and "existing_or_conflict b (cx_command_id x) (digest_of u h k x a) (lookup_new x) = Inl e
      \<Longrightarrow> book_apply u h c b = (Inl (Fail e), b)"
  using assms by (cases c; auto simp: request_new_value approve_new_value record_join_request_def book_approve_join_def)+

definition writes ::
  "MembershipCommandId \<Rightarrow> Sha256Digest \<Rightarrow> IdempotencyLookup
    \<Rightarrow> (MembershipCommandError + MembershipReceipt) \<times> MembershipCommandBook \<Rightarrow> bool" where
  "writes i d l r = (\<forall>x t. r = (Inr x, t) \<longrightarrow>
     recorded i d t \<and> fmlookup (mb_idempotency t) l = Some i \<and> receipt_for t i = Inr x)"

lemma writes_rules:
  "writes i d l (Inl e, t)" "(\<And>x. r = Inr x \<Longrightarrow> writes i d l (k x)) \<Longrightarrow> writes i d l (try_in s r k)"
  "recorded i d t \<Longrightarrow> fmlookup (mb_idempotency t) l = Some i \<Longrightarrow> writes i d l (receipt_for t i, t)"
  by (cases r; auto simp: writes_def)+

lemma recording_fresh:
  assumes "uuid_printer u" "call_command c = Some (k, x, a)" "fresh b (cx_command_id x) (lookup_new x)"
    and "book_apply u h c b = (Inr r, t)"
  shows "recorded (cx_command_id x) (digest_of u h k x a) t \<and> fmlookup (mb_idempotency t) (lookup_new x) = Some (cx_command_id x)
    \<and> receipt_for t (cx_command_id x) = Inr r"
proof -
  have f: "existing_or_conflict b (cx_command_id x) d (lookup_new x) = Inr None" for d
    using assms(3) by (simp add: existing_None)
  have 1: "writes (cx_command_id x) (jr_request_digest rq) (lookup_new x) (record_join_request rq m b)"
    if "jr_context rq = x" for rq m
    unfolding record_join_request_def Let_def that f try_in_simps option.case
    by (auto intro!: writes_rules split: CandidateMembership.split simp: recorded_def stored_terminal_def stored_workflow_def)
  have 2: "writes (cx_command_id x) (ac_request_digest ap) (lookup_new x) (book_approve_join ap m b)"
    if "ac_context ap = x" for ap m
    unfolding book_approve_join_def Let_def that f try_in_simps option.case
    by (auto intro!: writes_rules split: CandidateMembership.split WorkflowPhase.split
        simp: recorded_def stored_terminal_def stored_workflow_def)
  show ?thesis
  proof (cases c)
    case (CallRequest y m)
    then show ?thesis using assms 1 [of "\<lparr> jr_context = x, jr_request_digest = digest_of u h KindRequestJoin x None \<rparr>" m]
      by (auto simp: request_new_value failing_Ok writes_def)
  next
    case (CallApprove y e m)
    then show ?thesis using assms 2 [of "\<lparr> ac_context = x, ac_authorization_digest = e,
        ac_request_digest = digest_of u h KindApproveJoin x (Some e) \<rparr>" m]
      by (auto simp: approve_new_value failing_Ok writes_def)
  qed (use assms(2) in simp_all)
qed

lemma recording_recorded:
  assumes "uuid_printer u" "call_command c = Some (k, x, a)" "book_apply u h c b = (Inr r, t)"
    and "re_command_id r = cx_command_id x"
  shows "recorded (cx_command_id x) (digest_of u h k x a) t \<and> re_request_digest r = digest_of u h k x a"
proof -
  let ?e = "existing_or_conflict b (cx_command_id x) (digest_of u h k x a) (lookup_new x)"
  consider e where "?e = Inl e" | r' where "?e = Inr (Some r')" | "?e = Inr None"
    by (cases ?e; cases "projr ?e") auto
  then show ?thesis
  proof cases
    case 1
    then show ?thesis using recording_result(2) [OF assms(1,2)] assms(3) by simp
  next
    case 2
    then have "r' = r" "t = b" using recording_result(1) [OF assms(1,2) 2] assms(3) by simp_all
    with 2 show ?thesis using assms(4) by (auto simp: existing_Some receipt_Inr recorded_def)
  next
    case 3
    then show ?thesis using recording_fresh [OF assms(1,2) _ assms(3)]
      by (auto simp: existing_None receipt_Inr recorded_def)
  qed
qed

lemma recorded_receipt:
  assumes "book_ok u h b" "recorded i d b"
  shows "\<exists>r. receipt_for b i = Inr r \<and> re_command_id r = i \<and> re_request_digest r = d"
proof -
  obtain c where c: "fmlookup (mb_commands b) i = Some c" "sc_request_digest c = d"
    using assms(2) by (auto simp: recorded_def)
  have "receipt_for b i \<noteq> Inl e" for e
    using book_okD(2) [OF assms(1) c(1)] c(1) by (auto simp: receipt_for_def command_ok_def split: option.splits)
  then obtain r where "receipt_for b i = Inr r" by (cases "receipt_for b i") auto
  then show ?thesis using c by (auto simp: receipt_Inr)
qed

section \<open>The sequencer\<close>

definition submit_of :: "MembershipCommandId \<Rightarrow> Sha256Digest \<Rightarrow> MembershipCommandContext \<Rightarrow> Sha256Digest \<Rightarrow> SequencerSubmit" where
  "submit_of i d x a = \<lparr> ss_scope = cx_scope x, ss_command_id = i, ss_request_digest = d,
     ss_join_request_id = cx_join_request_id x, ss_actor_identity_id = cx_actor_identity_id x,
     ss_actor_device_id = cx_actor_device_id x, ss_candidate_identity_id = cx_candidate_identity_id x,
     ss_candidate_device_id = cx_candidate_device_id x, ss_invite_id = cx_invite_id x, ss_fence = cx_fence x,
     ss_authorization_digest = a \<rparr>"

lemma next_action:
  "next_sequencer_action b i = Inr (Some (Submit q)) \<longleftrightarrow>
     (\<exists>c w jw x a. approves b i c w \<and> fmlookup (mb_workflows b) w = Some jw \<and> jw_phase jw = PendingCommit i x a
        \<and> q = submit_of i (sc_request_digest c) x a)"
  "next_sequencer_action b i = Inr (Some (Query r)) \<longleftrightarrow>
     (\<exists>c w jw x a. approves b i c w \<and> fmlookup (mb_workflows b) w = Some jw \<and> jw_phase jw = Reconciling i x a
        \<and> r = \<lparr> sq_scope = cx_scope (jw_context jw), sq_command_id = i, sq_request_digest = sc_request_digest c \<rparr>)"
  by (cases "fmlookup (mb_commands b) i"; cases "sc_workflow_id (the (fmlookup (mb_commands b) i))";
      cases "fmlookup (mb_workflows b) (the (sc_workflow_id (the (fmlookup (mb_commands b) i))))";
      cases "jw_phase (the (fmlookup (mb_workflows b) (the (sc_workflow_id (the (fmlookup (mb_commands b) i))))))";
      auto simp: next_sequencer_action_def approves_def submit_of_def)+

lemma submit_inv:
  assumes "book_ok u h b" "next_sequencer_action b i = Inr (Some (Submit q))"
  shows "\<exists>jw x a. fmlookup (mb_workflows b) (ss_join_request_id q) = Some jw \<and> jw_phase jw = PendingCommit i x a
    \<and> q = submit_of i (digest_of u h KindApproveJoin x (Some a)) x a"
proof -
  obtain c w jw x a where c: "approves b i c w" "fmlookup (mb_workflows b) w = Some jw" "jw_phase jw = PendingCommit i x a"
    "q = submit_of i (sc_request_digest c) x a"
    using assms(2) unfolding next_action by blast
  have w: "workflow_ok u h b w jw" by (rule book_okD(3) [OF assms(1) c(2)])
  then have "cx_join_request_id x = w" "sc_request_digest c = digest_of u h KindApproveJoin x (Some a)"
    using c(1,3) by (auto simp: workflow_ok_def phase_ok_def approves_def workflow_context_matches_def)
  then show ?thesis using c by (auto simp: submit_of_def)
qed

definition driven :: "JoinRequestId \<Rightarrow> MembershipCommandId \<times> MembershipCommandContext \<times> Sha256Digest \<Rightarrow> MembershipCommandBook \<Rightarrow> bool" where
  "driven w p b = (\<exists>jw. fmlookup (mb_workflows b) w = Some jw \<and> jw_phase jw \<noteq> PendingApproval
     \<and> (active_approval (jw_phase jw) = Some p \<or> \<not> unsettled (jw_phase jw)))"

lemma driven_step: "book_step u h b t \<Longrightarrow> driven w p b \<Longrightarrow> driven w p t"
  unfolding driven_def using workflow_kept [of u h b t w] by metis

text \<open>Only an observed absence takes a workflow from reconciliation back to a submit.\<close>

record submitted =
  sb_command :: MembershipCommandId
  sb_workflow :: JoinRequestId
  sb_context :: MembershipCommandContext
  sb_authorization :: Sha256Digest
  sb_digest :: Sha256Digest
  sb_scope :: GroupScope

definition reconciling :: "submitted \<Rightarrow> MembershipCommandBook \<Rightarrow> bool" where
  "reconciling q b = (\<exists>jw c. fmlookup (mb_workflows b) (sb_workflow q) = Some jw \<and> cx_scope (jw_context jw) = sb_scope q
     \<and> approves b (sb_command q) c (sb_workflow q) \<and> sc_request_digest c = sb_digest q
     \<and> (jw_phase jw = Reconciling (sb_command q) (sb_context q) (sb_authorization q) \<or> \<not> unsettled (jw_phase jw)))"

lemma reconciling_action:
  assumes "reconciling q b"
  shows "next_sequencer_action b (sb_command q) \<in> {Inr None, Inr (Some (Query \<lparr> sq_scope = sb_scope q,
    sq_command_id = sb_command q, sq_request_digest = sb_digest q \<rparr>))}"
  using assms unfolding reconciling_def approves_def next_sequencer_action_def
  by (auto simp: unsettled_def split: WorkflowPhase.split)

definition rearmed :: "JoinRequestId \<Rightarrow> MembershipCommandId \<Rightarrow> MembershipCommandBook \<Rightarrow> MembershipCommandBook \<Rightarrow> bool" where
  "rearmed w i b t = (\<exists>jw jw' x a. fmlookup (mb_workflows b) w = Some jw \<and> jw_phase jw = Reconciling i x a
     \<and> fmlookup (mb_workflows t) w = Some jw' \<and> jw_phase jw' = PendingCommit i x a)"

lemma reconciling_step:
  assumes "book_step u h b t" "reconciling q b" "\<not> rearmed (sb_workflow q) (sb_command q) b t"
  shows "reconciling q t"
proof -
  let ?w = "sb_workflow q" and ?p = "Reconciling (sb_command q) (sb_context q) (sb_authorization q)"
  obtain jw c where jw: "fmlookup (mb_workflows b) ?w = Some jw" "cx_scope (jw_context jw) = sb_scope q"
    "approves b (sb_command q) c ?w" "sc_request_digest c = sb_digest q" "jw_phase jw = ?p \<or> \<not> unsettled (jw_phase jw)"
    using assms(2) unfolding reconciling_def by blast
  then have n: "jw_phase jw \<noteq> PendingApproval" by (auto simp: unsettled_def)
  from workflow_kept [OF assms(1) jw(1) n] obtain jw' where jw': "fmlookup (mb_workflows t) ?w = Some jw'"
    "jw_context jw' = jw_context jw" "jw' = jw \<or> unsettled (jw_phase jw)"
    "active_approval (jw_phase jw') = active_approval (jw_phase jw) \<or> \<not> unsettled (jw_phase jw')" by blast
  have "jw_phase jw' = ?p \<or> \<not> unsettled (jw_phase jw')"
    using jw jw' assms(3) unfolding rearmed_def by (auto simp: active_approval_Some)
  moreover have "approves t (sb_command q) c ?w"
    using command_kept [OF assms(1), of "sb_command q" c] jw(1,3) n by (auto simp: approves_def)
  ultimately show ?thesis using jw(2,4) jw'(1,2) unfolding reconciling_def by auto
qed

definition quiet :: "JoinRequestId \<Rightarrow> MembershipCommandId \<Rightarrow> MembershipCommandBook \<Rightarrow> 'r \<times> MembershipCommandBook \<Rightarrow> bool" where
  "quiet w i b r = (\<not> rearmed w i b (snd r))"

lemma quiet_pair: "quiet w i b (r, t) = (\<not> rearmed w i b t)"
  by (simp add: quiet_def)

lemma quiet_same: "quiet w i b (r, b)"
  by (auto simp: quiet_def rearmed_def)

lemma quiet_try: "(\<And>x. q = Inr x \<Longrightarrow> quiet w i b (k x)) \<Longrightarrow> quiet w i b (try_in b q k)"
  using quiet_same by (cases q) auto

lemma resolve_not_pending: "resolve_active rc i x a s d res = Inr (PendingCommit j y e) \<Longrightarrow> res = ResolvedAbsent"
  by (cases res) (auto simp: resolve_active_def result_simps)

lemma calls_quiet:
  "quiet w i b (record_join_request rq m b)" "quiet w i b (book_approve_join ap m b)"
  "res \<noteq> ResolvedAbsent \<or> j \<noteq> i \<Longrightarrow> quiet w i b (observe_sequencer_resolution j res b)" "quiet w i b (reject_locally j r b)"
proof -
  show "quiet w i b (record_join_request rq m b)"
    unfolding record_join_request_def Let_def
    by (auto intro!: quiet_same quiet_try simp: quiet_pair rearmed_def workflow_pending_def
        split: option.split CandidateMembership.split if_splits)
  show "quiet w i b (book_approve_join ap m b)"
    unfolding book_approve_join_def Let_def
    by (auto intro!: quiet_same quiet_try simp: quiet_pair rearmed_def result_simps
        split: option.split CandidateMembership.split WorkflowPhase.split if_splits)
  show "res \<noteq> ResolvedAbsent \<or> j \<noteq> i \<Longrightarrow> quiet w i b (observe_sequencer_resolution j res b)"
    unfolding observe_sequencer_resolution_def Let_def
    by (auto intro!: quiet_same quiet_try dest!: resolve_not_pending simp: quiet_pair rearmed_def result_simps
        split: WorkflowPhase.split if_splits)
  show "quiet w i b (reject_locally j r b)"
    unfolding reject_locally_def Let_def
    by (auto intro!: quiet_same quiet_try simp: quiet_pair rearmed_def result_simps
        split: CommandKind.split WorkflowPhase.split if_splits)
qed

lemma apply_quiet:
  assumes "uuid_printer u" "c \<noteq> CallObserve i ResolvedAbsent"
  shows "\<not> rearmed w i b (snd (book_apply u h c b))"
proof -
  have f: "snd (failing r) = snd r" for r :: "(MembershipCommandError + MembershipReceipt) \<times> MembershipCommandBook"
    by (simp add: failing_def)
  show ?thesis using calls_quiet [where w = w and i = i and b = b, unfolded quiet_def] assms
    by (cases c) (auto simp: request_new_value approve_new_value f)
qed

lemma reconciling_run:
  assumes "uuid_printer u" "book_inv u h b" "reconciling q b" "CallObserve (sb_command q) ResolvedAbsent \<notin> set cs"
  shows "reconciling q (run (book_apply u h) cs b)"
  using assms(2-)
proof (induction cs arbitrary: b)
  case (Cons c cs)
  let ?t = "snd (book_apply u h c b)"
  have "?t = b \<or> book_step u h b ?t" using book_calls.call_step Cons.prems(1) assms(1) by blast
  moreover have "\<not> rearmed (sb_workflow q) (sb_command q) b ?t" using Cons.prems(3) by (intro apply_quiet [OF assms(1)]) auto
  ultimately have "book_inv u h ?t" "reconciling q ?t"
    using Cons.prems(1,2) reconciling_step book_step_inv by metis+
  then show ?case using Cons.IH Cons.prems(3) by simp
qed simp

section \<open>Properties\<close>

text \<open>C18. Every book the methods can produce is well formed: each command has exactly one idempotency key, in
  its own scope; a command is either attached to a workflow or terminal in a shape of its kind; every workflow
  has the request that opened it; every active phase has its one approval; and the digests are those of the
  stored contexts.\<close>
theorem book_well_formed:
  assumes "uuid_printer u"
  shows "book_inv u h (reachable_book u h calls)"
  by (rule reachable_inv [OF assms])

text \<open>C19. A call that returns an error leaves the book as it was, and the error is neither a panic nor the
  internal invariant violation.\<close>
theorem book_errors_clean:
  assumes "uuid_printer u" "book_apply u h c (reachable_book u h calls) = (Inl e, t)"
  shows "t = reachable_book u h calls \<and> e \<noteq> Panic \<and> e \<noteq> Fail InvariantViolation"
  by (rule call_errors [OF assms(1) reachable_inv [OF assms(1)] assms(2)])

text \<open>C20. Exact replay: once a request or approval has been answered with a receipt of its own identity, the
  same command, whatever is then said about the candidate's membership, is answered after any further calls
  with a receipt of the same identity and digest, and changes nothing.\<close>
theorem book_replay:
  assumes "uuid_printer u" "call_command c = Some (k, x, a)" "call_command c' = Some (k, x, a)"
    and "book_apply u h c (reachable_book u h calls) = (Inr r, t)" "re_command_id r = cx_command_id x"
  shows "\<exists>r'. book_apply u h c' (run (book_apply u h) later t) = (Inr r', run (book_apply u h) later t)
    \<and> re_command_id r' = re_command_id r \<and> re_request_digest r' = re_request_digest r"
proof -
  let ?d = "digest_of u h k x a" and ?b = "run (book_apply u h) later t"
  have rec: "recorded (cx_command_id x) ?d t" "re_request_digest r = ?d"
    using recording_recorded [OF assms(1,2,4,5)] by auto
  have inv: "book_inv u h t"
    using book_calls.run_inv [of u h "reachable_book u h calls" "[c]"] reachable_inv [OF assms(1)] assms(1,4) by simp
  then have "book_inv u h ?b" "recorded (cx_command_id x) ?d ?b"
    using book_calls.run_stable [of u h t "recorded (cx_command_id x) ?d" later] rec(1) recorded_step assms(1) by blast+
  then obtain r' where r': "receipt_for ?b (cx_command_id x) = Inr r'" "re_command_id r' = cx_command_id x"
    "re_request_digest r' = ?d" using recorded_receipt unfolding book_inv_def by blast
  then have "book_apply u h c' ?b = (Inr r', ?b)"
    using \<open>recorded (cx_command_id x) ?d ?b\<close> by (intro recording_result(1) [OF assms(1,3)]) (auto simp: existing_Some)
  then show ?thesis using r' rec(2) assms(5) by auto
qed

text \<open>C21. Conflicting reuse: after a new command was recorded, a command of another digest under the same
  identity is refused with \<open>CommandIdConflict\<close>, one with an unknown identity under the same idempotency key with
  \<open>IdempotencyConflict\<close>, for ever and without effect.\<close>
theorem book_conflict:
  assumes "uuid_printer u" "call_command c = Some (k, x, a)" "call_command c' = Some (k', x', a')"
    and "book_apply u h c (reachable_book u h calls) = (Inr r, t)"
    and "receipt (reachable_book u h calls) (cx_command_id x) = Inl CommandNotFound" "re_command_id r = cx_command_id x"
    and "digest_of u h k' x' a' \<noteq> digest_of u h k x a"
    and "b = run (book_apply u h) later t"
  shows "(cx_command_id x' = cx_command_id x \<longrightarrow> book_apply u h c' b = (Inl (Fail CommandIdConflict), b))
    \<and> (receipt b (cx_command_id x') = Inl CommandNotFound \<and> lookup_new x' = lookup_new x \<longrightarrow>
      book_apply u h c' b = (Inl (Fail IdempotencyConflict), b))"
proof -
  let ?s = "reachable_book u h calls" and ?d = "digest_of u h k x a" and ?l = "lookup_new x"
  have nf: "receipt b i = Inl CommandNotFound \<longleftrightarrow> fmlookup (mb_commands b) i = None" for b i
    by (auto simp: receipt_def receipt_for_def ok_or_def res_bind_def split: option.splits sum.splits)
  have "fresh ?s (cx_command_id x) ?l"
  proof (rule ccontr)
    assume "\<not> fresh ?s (cx_command_id x) ?l"
    then obtain y where y: "existing_or_conflict ?s (cx_command_id x) ?d ?l = y" "y \<noteq> Inr None" by (simp add: existing_None)
    then have "y = Inr (Some r)" using recording_result [OF assms(1,2)] assms(4)
      by (cases y; cases "projr y") auto
    then show False using y assms(5,6) by (auto simp: existing_Some nf receipt_Inr recorded_def)
  qed
  then have rec: "recorded (cx_command_id x) ?d t" "fmlookup (mb_idempotency t) ?l = Some (cx_command_id x)"
    using recording_fresh [OF assms(1,2) _ assms(4)] by auto
  have inv: "book_inv u h t"
    using book_calls.run_inv [of u h ?s "[c]"] reachable_inv [OF assms(1)] assms(1,4) by simp
  have b: "recorded (cx_command_id x) ?d b" "fmlookup (mb_idempotency b) ?l = Some (cx_command_id x)"
    using book_calls.run_stable [of u h t "recorded (cx_command_id x) ?d" later] rec recorded_step
      book_calls.run_stable [of u h t "\<lambda>b. fmlookup (mb_idempotency b) ?l = Some (cx_command_id x)" later] key_step inv assms(1,8)
    by blast+
  then show ?thesis
    using assms(7) by (auto simp: nf intro!: recording_result(2) [OF assms(1,3)] intro: existing_conflicts)
qed

text \<open>C22. Results are permanent: a receipt with a committed or rejected phase stays the receipt of its command
  under all further calls.\<close>
theorem book_results_permanent:
  assumes "uuid_printer u" "receipt (reachable_book u h calls) i = Inr r" "is_terminal (re_phase r)"
  shows "receipt (run (book_apply u h) later (reachable_book u h calls)) i = Inr r"
  using book_calls.run_stable [of u h "reachable_book u h calls" "settled_with i r" later] settled_step assms reachable_inv
  unfolding settled_with_def by blast

text \<open>C23. At most one submit per join request: if the book ever asks to submit an approval for a join request,
  every later submit for that join request is by the same command and equal in every field.\<close>
theorem book_one_submit:
  assumes "uuid_printer u" "b = reachable_book u h calls" "t = run (book_apply u h) later b"
    and "next_sequencer_action b i = Inr (Some (Submit q))" "next_sequencer_action t j = Inr (Some (Submit q'))"
    and "ss_join_request_id q' = ss_join_request_id q"
  shows "j = i \<and> q' = q"
proof -
  have inv: "uuid_printer u \<and> book_inv u h b" using reachable_inv assms(1,2) by blast
  obtain jw x a where jw: "fmlookup (mb_workflows b) (ss_join_request_id q) = Some jw" "jw_phase jw = PendingCommit i x a"
    "q = submit_of i (digest_of u h KindApproveJoin x (Some a)) x a"
    using submit_inv [of u h b i q] inv assms(4) unfolding book_inv_def by blast
  have "driven (ss_join_request_id q) (i, x, a) b" using jw by (auto simp: driven_def)
  then have t: "book_inv u h t" "driven (ss_join_request_id q) (i, x, a) t"
    using book_calls.run_stable [of u h b "driven (ss_join_request_id q) (i, x, a)" later] inv driven_step assms(3) by blast+
  obtain jw' y e where jw': "fmlookup (mb_workflows t) (ss_join_request_id q') = Some jw'" "jw_phase jw' = PendingCommit j y e"
    "q' = submit_of j (digest_of u h KindApproveJoin y (Some e)) y e"
    using submit_inv [of u h t j q'] t(1) assms(5) unfolding book_inv_def by blast
  then have "(j, y, e) = (i, x, a)" using t(2) assms(6) by (auto simp: driven_def unsettled_def)
  then show ?thesis using jw(3) jw'(3) by simp
qed

text \<open>C24. A lost response is reconciled by query: once an unknown result has been recorded for a submit, the book
  asks for nothing but a query with the same identity and digest, under all further calls, until the absence of
  the command is observed.\<close>
theorem book_query_only:
  assumes "uuid_printer u" "b = reachable_book u h calls" "next_sequencer_action b i = Inr (Some (Submit q))"
    and "CallObserve i ResolvedAbsent \<notin> set later"
  shows "next_sequencer_action (run (book_apply u h) (CallObserve i ResolvedUnknown # later) b) i
    \<in> {Inr None, Inr (Some (Query \<lparr> sq_scope = ss_scope q, sq_command_id = i, sq_request_digest = ss_request_digest q \<rparr>))}"
proof -
  have ok: "book_ok u h b" and inv: "book_inv u h b" using reachable_inv assms(1,2) by (auto simp: book_inv_def)
  obtain c w jw x a where c: "approves b i c w" "fmlookup (mb_workflows b) w = Some jw" "jw_phase jw = PendingCommit i x a"
    "q = submit_of i (sc_request_digest c) x a" using assms(3) unfolding next_action by blast
  have scope: "cx_scope (jw_context jw) = cx_scope x"
    using book_okD(3) [OF ok c(2)] c(3) by (auto simp: workflow_ok_def phase_ok_def workflow_context_matches_def)
  let ?t = "snd (book_apply u h (CallObserve i ResolvedUnknown) b)"
  let ?q = "\<lparr> sb_command = i, sb_workflow = w, sb_context = x, sb_authorization = a,
    sb_digest = sc_request_digest c, sb_scope = cx_scope x \<rparr>"
  have "?t = set_workflow w (jw\<lparr> jw_phase := Reconciling i x a \<rparr>) b"
    using c(1-3) by (simp add: approves_def observe_sequencer_resolution_def resolve_active_def set_workflow_def failing_def Let_def)
  then have "reconciling ?q ?t" using c(1) scope by (simp add: reconciling_def approves_def)
  moreover have "book_inv u h ?t"
    using book_calls.run_inv [of u h b "[CallObserve i ResolvedUnknown]"] inv assms(1) by simp
  ultimately have "reconciling ?q (run (book_apply u h) later ?t)" using reconciling_run assms(1,4) by simp
  from reconciling_action [OF this] show ?thesis using c(4) by (simp add: submit_of_def)
qed

text \<open>C25. A commit is bound to its command: whenever some receipt reports an applied commit, the command the
  commit reference names is recorded with the digest the reference carries, reports the same commit, and is the
  reported command itself if that was an approval.\<close>
theorem book_commit_bound:
  assumes "uuid_printer u" "b = reachable_book u h calls" "receipt b i = Inr r" "re_phase r = PhaseCommitted (Applied ref)"
  shows "receipt b (cr_command_id ref) = Inr \<lparr> re_command_id = cr_command_id ref,
    re_request_digest = cr_request_digest ref, re_phase = PhaseCommitted (Applied ref) \<rparr>
    \<and> (\<forall>c. fmlookup (mb_commands b) i = Some c \<longrightarrow> sc_kind c = KindApproveJoin \<longrightarrow> i = cr_command_id ref)"
proof -
  have ok: "book_ok u h b" using reachable_inv assms(1,2) by (auto simp: book_inv_def)
  obtain c where c: "fmlookup (mb_commands b) i = Some c"
    and ph: "(\<exists>w jw. sc_workflow_id c = Some w \<and> sc_terminal_phase c = None \<and> fmlookup (mb_workflows b) w = Some jw
      \<and> re_phase r = as_public (jw_phase jw)) \<or> (sc_workflow_id c = None \<and> sc_terminal_phase c = Some (re_phase r))"
    using assms(3) unfolding receipt_def receipt_Inr by blast
  have "\<not> (sc_workflow_id c = None \<and> sc_terminal_phase c = Some (re_phase r))"
    using book_okD(2) [OF ok c] assms(4) by (auto simp: command_ok_def terminal_ok_def)
  with ph obtain w jw where w: "sc_workflow_id c = Some w" "fmlookup (mb_workflows b) w = Some jw"
    "as_public (jw_phase jw) = PhaseCommitted (Applied ref)" using assms(4) by auto
  then have p: "jw_phase jw = Committed (Applied ref)" by (cases "jw_phase jw") (simp_all add: as_public_def)
  then obtain d where d: "approves b (cr_command_id ref) d w" "sc_request_digest d = cr_request_digest ref" "one_approval b w"
    using book_okD(3) [OF ok w(2)] by (auto simp: workflow_ok_def phase_ok_def)
  then have "sc_terminal_phase d = None"
    using command_ok_workflow book_okD(2) [OF ok] unfolding approves_def by blast
  then have "receipt b (cr_command_id ref) = Inr \<lparr> re_command_id = cr_command_id ref,
    re_request_digest = cr_request_digest ref, re_phase = PhaseCommitted (Applied ref) \<rparr>"
    using d w(2,3) unfolding receipt_def by (subst receipt_workflow) (auto simp: approves_def)
  moreover have "i = cr_command_id ref" if "sc_kind c = KindApproveJoin"
    using d(1,3) c w(1) that unfolding one_approval_def approves_def by blast
  ultimately show ?thesis using c by auto
qed

section \<open>Witnesses\<close>

text \<open>A join request by identity 11, its approval by identity 3, and the sequencer's answers.\<close>

definition request_ctx :: MembershipCommandContext where "request_ctx = sample_context 1 2 11"
definition approval_ctx :: MembershipCommandContext where "approval_ctx = sample_context 21 22 3"
definition approval_id :: MembershipCommandId where "approval_id = MembershipCommandId (UuidId 21)"
definition request_call :: book_call where "request_call = CallRequest request_ctx NotMember"
definition approval_call :: book_call where "approval_call = CallApprove approval_ctx (Sha256Digest 6) NotMember"

definition request_hash :: Sha256Digest where
  "request_hash = digest_of sample_uuid_text sample_sha256 KindRequestJoin request_ctx None"

definition approval_hash :: Sha256Digest where
  "approval_hash = digest_of sample_uuid_text sample_sha256 KindApproveJoin approval_ctx (Some (Sha256Digest 6))"

abbreviation sample_apply :: "book_call \<Rightarrow> MembershipCommandBook \<Rightarrow> (MembershipCommandError fault + MembershipReceipt) \<times> MembershipCommandBook" where
  "sample_apply \<equiv> book_apply sample_uuid_text sample_sha256"

definition requested_book :: MembershipCommandBook where
  "requested_book = set_workflow (UuidId 9) (workflow_pending request_ctx)
     (add_command (MembershipCommandId (UuidId 1)) (lookup_new request_ctx)
       (stored_workflow KindRequestJoin request_hash (UuidId 9)) book_new)"

definition approved_book :: "WorkflowPhase \<Rightarrow> MembershipCommandBook" where
  "approved_book p = set_workflow (UuidId 9) \<lparr> jw_context = request_ctx, jw_phase = p \<rparr>
     (add_command approval_id (lookup_new approval_ctx) (stored_workflow KindApproveJoin approval_hash (UuidId 9))
       requested_book)"

lemma ctx_fields [simp]:
  "cx_command_id request_ctx = MembershipCommandId (UuidId 1)" "cx_command_id approval_ctx = approval_id"
  "cx_join_request_id request_ctx = UuidId 9" "cx_join_request_id approval_ctx = UuidId 9"
  "cx_actor_identity_id request_ctx = PublicId 11" "cx_candidate_identity_id request_ctx = PublicId 11"
  "workflow_context_matches request_ctx approval_ctx" "approval_id \<noteq> MembershipCommandId (UuidId 1)" "MembershipCommandId (UuidId 1) \<noteq> approval_id"
  "lookup_new request_ctx \<noteq> lookup_new approval_ctx"
  by (simp_all add: request_ctx_def approval_ctx_def approval_id_def sample_context_def context_new_v2_def
      workflow_context_matches_def lookup_new_def)

lemmas sample_eval = request_new_value [OF sample_uuid_printer] approve_new_value [OF sample_uuid_printer]
  existing_or_conflict_def receipt_for_def Let_def stored_workflow_def stored_terminal_def workflow_pending_def
  request_hash_def [symmetric] approval_hash_def [symmetric]

lemma sample_request: "sample_apply request_call book_new =
    (Inr \<lparr> re_command_id = MembershipCommandId (UuidId 1), re_request_digest = request_hash, re_phase = PhasePendingApproval \<rparr>,
     requested_book)"
  by (simp add: request_call_def record_join_request_def sample_eval book_new_def requested_book_def contains_key_def
      set_add as_public_def)

lemma sample_approval: "sample_apply approval_call requested_book =
    (Inr \<lparr> re_command_id = approval_id, re_request_digest = approval_hash, re_phase = PhasePendingCommit \<rparr>,
     approved_book (PendingCommit approval_id approval_ctx (Sha256Digest 6)))"
  by (simp add: approval_call_def book_approve_join_def sample_eval book_new_def requested_book_def approved_book_def
      set_add as_public_def fmupd_twice)

definition pending_phase :: WorkflowPhase where
  "pending_phase = PendingCommit approval_id approval_ctx (Sha256Digest 6)"

definition unknown_phase :: WorkflowPhase where
  "unknown_phase = Reconciling approval_id approval_ctx (Sha256Digest 6)"

definition sample_reference :: MembershipCommitReference where
  "sample_reference = \<lparr> cr_scope = cx_scope request_ctx, cr_command_id = approval_id, cr_request_digest = approval_hash,
     cr_committed_digest = Sha256Digest 77 \<rparr>"

lemma sample_books:
  "reachable_book sample_uuid_text sample_sha256 [request_call] = requested_book"
  "reachable_book sample_uuid_text sample_sha256 [request_call, approval_call] = approved_book pending_phase"
  by (simp_all add: reachable_book_def sample_request sample_approval pending_phase_def)

text \<open>The approval's own calls on the approved book: the phase after each answer of the sequencer.\<close>

lemma approved_book_parts [simp]:
  "fmlookup (mb_commands (approved_book p)) approval_id = Some (stored_workflow KindApproveJoin approval_hash (UuidId 9))"
  "fmlookup (mb_workflows (approved_book p)) (UuidId 9) = Some \<lparr> jw_context = request_ctx, jw_phase = p \<rparr>"
  "fmlookup (mb_commands (approved_book p)) (MembershipCommandId (UuidId 5)) = None"
  "set_workflow (UuidId 9) \<lparr> jw_context = request_ctx, jw_phase = q \<rparr> (approved_book p) = approved_book q"
  by (simp_all add: approved_book_def requested_book_def book_new_def approval_id_def set_workflow_def fmupd_twice)

lemma sample_observe:
  "snd (sample_apply (CallObserve approval_id ResolvedUnknown) (approved_book pending_phase)) = approved_book unknown_phase"
  "snd (sample_apply (CallObserve approval_id ResolvedAbsent) (approved_book unknown_phase)) = approved_book pending_phase"
  "snd (sample_apply (CallObserve approval_id (ResolvedCommitted sample_reference)) (approved_book pending_phase)) =
     approved_book (Committed (Applied sample_reference))"
  by (simp_all add: observe_sequencer_resolution_def resolve_active_def failing_def Let_def stored_workflow_def
      pending_phase_def unknown_phase_def validate_commit_reference_def sample_reference_def
      set_workflow_def [symmetric])

lemma sample_receipt:
  "receipt (approved_book p) approval_id = Inr \<lparr> re_command_id = approval_id, re_request_digest = approval_hash,
     re_phase = as_public p \<rparr>"
  by (simp add: receipt_def receipt_for_def stored_workflow_def)

lemma sample_action:
  "next_sequencer_action (approved_book pending_phase) approval_id =
     Inr (Some (Submit (submit_of approval_id approval_hash approval_ctx (Sha256Digest 6))))"
  by (simp add: next_sequencer_action_def stored_workflow_def pending_phase_def submit_of_def)

lemma book_well_formed_witness:
  "uuid_printer sample_uuid_text \<and> book_inv sample_uuid_text sample_sha256 (approved_book pending_phase)"
  using book_well_formed [OF sample_uuid_printer, of sample_sha256 "[request_call, approval_call]"] sample_uuid_printer
  by (simp add: sample_books)

lemma book_errors_clean_witness:
  "\<exists>e t. sample_apply (CallRejectLocally approval_id PolicyDenied) requested_book = (Inl e, t) \<and> t = requested_book
    \<and> e = Fail CommandNotFound"
proof -
  have "sample_apply (CallRejectLocally approval_id PolicyDenied) requested_book = (Inl (Fail CommandNotFound), requested_book)"
    by (simp add: reject_locally_def requested_book_def book_new_def)
  then show ?thesis
    using book_errors_clean [OF sample_uuid_printer, of sample_sha256 "CallRejectLocally approval_id PolicyDenied" "[request_call]"]
    by (simp add: sample_books)
qed

lemma sample_first:
  "call_command request_call = Some (KindRequestJoin, request_ctx, None)"
  "sample_apply request_call (reachable_book sample_uuid_text sample_sha256 []) =
    (Inr \<lparr> re_command_id = MembershipCommandId (UuidId 1), re_request_digest = request_hash, re_phase = PhasePendingApproval \<rparr>,
     requested_book)"
  "receipt (reachable_book sample_uuid_text sample_sha256 []) (cx_command_id request_ctx) = Inl CommandNotFound"
  by (simp add: request_call_def, simp add: reachable_book_def sample_request,
      simp add: reachable_book_def receipt_def receipt_for_def book_new_def)

lemma book_replay_witness:
  "\<exists>r'. sample_apply (CallRequest request_ctx (MemberAlready sample_reference)) (approved_book pending_phase) =
      (Inr r', approved_book pending_phase) \<and> re_command_id r' = MembershipCommandId (UuidId 1) \<and> re_request_digest r' = request_hash"
  using book_replay [OF sample_uuid_printer sample_first(1) _ sample_first(2),
      of "CallRequest request_ctx (MemberAlready sample_reference)" "[approval_call]"]
  by (simp add: sample_approval pending_phase_def del: book_apply.simps)

lemma book_conflict_witness:
  "sample_apply (CallRequest (sample_context 1 2 3) NotMember) (approved_book pending_phase) =
     (Inl (Fail CommandIdConflict), approved_book pending_phase)
   \<and> sample_apply (CallRequest (sample_context 5 2 11) NotMember) (approved_book pending_phase) =
     (Inl (Fail IdempotencyConflict), approved_book pending_phase)"
proof -
  have d: "digest_of sample_uuid_text sample_sha256 KindRequestJoin x None \<noteq>
      digest_of sample_uuid_text sample_sha256 KindRequestJoin request_ctx None"
    if "x = sample_context 1 2 3 \<or> x = sample_context 5 2 11" for x
    unfolding request_ctx_def using that
    by (intro sample_digest_other) (auto simp: same_command_def sample_context_def context_new_v2_def)
  have b: "approved_book pending_phase = run (book_apply sample_uuid_text sample_sha256) [approval_call] requested_book"
    by (simp add: sample_approval pending_phase_def)
  note conflict = book_conflict [OF sample_uuid_printer sample_first(1) _ sample_first(2,3) _ d b]
  show ?thesis
    using conflict [of "CallRequest (sample_context 1 2 3) NotMember" "sample_context 1 2 3"]
      conflict [of "CallRequest (sample_context 5 2 11) NotMember" "sample_context 5 2 11"]
    by (simp add: sample_context_def context_new_v2_def request_ctx_def lookup_new_def receipt_def receipt_for_def)
qed

lemma book_results_permanent_witness:
  "receipt (run sample_apply [approval_call, CallObserve approval_id ResolvedUnknown]
      (approved_book (Committed (Applied sample_reference)))) approval_id =
    Inr \<lparr> re_command_id = approval_id, re_request_digest = approval_hash, re_phase = PhaseCommitted (Applied sample_reference) \<rparr>"
proof -
  let ?calls = "[request_call, approval_call, CallObserve approval_id (ResolvedCommitted sample_reference)]"
  have b: "reachable_book sample_uuid_text sample_sha256 ?calls = approved_book (Committed (Applied sample_reference))"
    by (simp add: reachable_book_def sample_request sample_approval sample_observe pending_phase_def [symmetric] del: book_apply.simps)
  show ?thesis
    using book_results_permanent [OF sample_uuid_printer, of sample_sha256 ?calls approval_id] unfolding b
    by (simp add: sample_receipt as_public_def is_terminal_def del: run.simps)
qed

lemma book_one_submit_witness:
  "\<exists>q. next_sequencer_action (run sample_apply [CallObserve approval_id ResolvedUnknown, CallObserve approval_id ResolvedAbsent]
      (approved_book pending_phase)) approval_id = Inr (Some (Submit q))
    \<and> next_sequencer_action (approved_book pending_phase) approval_id = Inr (Some (Submit q))"
proof -
  let ?later = "[CallObserve approval_id ResolvedUnknown, CallObserve approval_id ResolvedAbsent]"
  have t: "run sample_apply ?later (approved_book pending_phase) = approved_book pending_phase"
    by (simp add: sample_observe del: book_apply.simps)
  have "approved_book pending_phase = reachable_book sample_uuid_text sample_sha256 [request_call, approval_call]"
    by (simp add: sample_books)
  from book_one_submit [OF sample_uuid_printer this refl sample_action _ refl, of ?later approval_id]
  show ?thesis unfolding t using sample_action by blast
qed

lemma book_query_only_witness:
  "next_sequencer_action (run sample_apply [CallObserve approval_id ResolvedUnknown, approval_call] (approved_book pending_phase)) approval_id
    \<in> {Inr None, Inr (Some (Query \<lparr> sq_scope = cx_scope approval_ctx, sq_command_id = approval_id, sq_request_digest = approval_hash \<rparr>))}"
  using book_query_only [OF sample_uuid_printer sample_books(2) [symmetric] sample_action, of "[approval_call]"]
  by (simp add: approval_call_def submit_of_def del: run.simps)

lemma book_commit_bound_witness:
  "receipt (approved_book (Committed (Applied sample_reference))) approval_id = Inr \<lparr> re_command_id = approval_id,
    re_request_digest = approval_hash, re_phase = PhaseCommitted (Applied sample_reference) \<rparr>"
proof -
  let ?calls = "[request_call, approval_call, CallObserve approval_id (ResolvedCommitted sample_reference)]"
  have b: "approved_book (Committed (Applied sample_reference)) = reachable_book sample_uuid_text sample_sha256 ?calls"
    by (simp add: reachable_book_def sample_request sample_approval sample_observe pending_phase_def [symmetric] del: book_apply.simps)
  show ?thesis
    using book_commit_bound [OF sample_uuid_printer b sample_receipt, of sample_reference]
    by (simp add: as_public_def sample_reference_def)
qed

end
