(* ===== verification/Membership_Snapshot.thy ===== *)
theory Membership_Snapshot
  imports Membership_Book
begin

text \<open>
  Persistence of the membership command book: the stored rows, the snapshot that produces them
  and the validator that rebuilds a book from them. The validator checks the stored graph row by row;
  it does not confine the books it accepts to those the reducer produces.
\<close>

section \<open>Stored rows\<close>

datatype MembershipCommandKind = StoredRequestJoin | StoredApproveJoin

definition persistence_kind :: "CommandKind \<Rightarrow> MembershipCommandKind" where
  "persistence_kind self = (case self of KindRequestJoin \<Rightarrow> StoredRequestJoin | KindApproveJoin \<Rightarrow> StoredApproveJoin)"

definition kind_from_persistence :: "MembershipCommandKind \<Rightarrow> CommandKind" where
  "kind_from_persistence kind = (case kind of StoredRequestJoin \<Rightarrow> KindRequestJoin | StoredApproveJoin \<Rightarrow> KindApproveJoin)"

record MembershipIdempotencyPersistence =
  mip_scope :: GroupScope
  mip_actor_identity_id :: IdentityId
  mip_idempotency_key_hash :: Sha256Digest

definition lookup_persistence :: "IdempotencyLookup \<Rightarrow> MembershipIdempotencyPersistence" where
  "lookup_persistence self =
     \<lparr> mip_scope = il_scope self, mip_actor_identity_id = il_actor_identity_id self,
       mip_idempotency_key_hash = il_idempotency_key_hash self \<rparr>"

definition lookup_from_persistence :: "MembershipIdempotencyPersistence \<Rightarrow> IdempotencyLookup" where
  "lookup_from_persistence v =
     IdempotencyLookup (mip_scope v) (mip_actor_identity_id v) (mip_idempotency_key_hash v)"

record MembershipCommandPersistence =
  mcp_command_id :: MembershipCommandId
  mcp_kind :: MembershipCommandKind
  mcp_request_digest :: Sha256Digest
  mcp_workflow_id :: "JoinRequestId option"
  mcp_terminal_phase :: "MembershipCommandPhase option"
  mcp_idempotency :: MembershipIdempotencyPersistence

datatype MembershipWorkflowPersistencePhase =
    StoredPendingApproval
  | StoredPendingCommit MembershipCommandId MembershipCommandContext Sha256Digest
  | StoredReconciling MembershipCommandId MembershipCommandContext Sha256Digest
  | StoredCommitted MembershipAdmission
  | StoredRejected MembershipRejection

definition persistence_phase :: "WorkflowPhase \<Rightarrow> MembershipWorkflowPersistencePhase" where
  "persistence_phase self =
     (case self of
        PendingApproval \<Rightarrow> StoredPendingApproval
      | PendingCommit i c a \<Rightarrow> StoredPendingCommit i c a
      | Reconciling i c a \<Rightarrow> StoredReconciling i c a
      | Committed admission \<Rightarrow> StoredCommitted admission
      | Rejected rejection \<Rightarrow> StoredRejected rejection)"

definition phase_from_persistence :: "MembershipWorkflowPersistencePhase \<Rightarrow> WorkflowPhase" where
  "phase_from_persistence phase =
     (case phase of
        StoredPendingApproval \<Rightarrow> PendingApproval
      | StoredPendingCommit i c a \<Rightarrow> PendingCommit i c a
      | StoredReconciling i c a \<Rightarrow> Reconciling i c a
      | StoredCommitted admission \<Rightarrow> Committed admission
      | StoredRejected rejection \<Rightarrow> Rejected rejection)"

record MembershipWorkflowPersistence =
  mwp_join_request_id :: JoinRequestId
  mwp_context :: MembershipCommandContext
  mwp_phase :: MembershipWorkflowPersistencePhase

record MembershipCommandBookSnapshot =
  mbs_commands :: "MembershipCommandPersistence list"
  mbs_workflows :: "MembershipWorkflowPersistence list"

section \<open>Taking a snapshot\<close>

definition invert_idempotency ::
  "IdempotencyLookup \<times> MembershipCommandId \<Rightarrow> (MembershipCommandId, IdempotencyLookup) fmap
    \<Rightarrow> MembershipCommandError + (MembershipCommandId, IdempotencyLookup) fmap" where
  "invert_idempotency entry idempotency_by_command =
     (case entry of (lookup, command_id) \<Rightarrow>
        if contains_key idempotency_by_command command_id then Inl InvariantViolation
        else Inr (fmupd command_id lookup idempotency_by_command))"

definition push_command ::
  "MembershipCommandId \<times> StoredCommand
    \<Rightarrow> (MembershipCommandId, IdempotencyLookup) fmap \<times> MembershipCommandPersistence list
    \<Rightarrow> MembershipCommandError + (MembershipCommandId, IdempotencyLookup) fmap \<times> MembershipCommandPersistence list" where
  "push_command entry vars =
     (case entry of (command_id, command) \<Rightarrow> case vars of (idempotency_by_command, commands) \<Rightarrow>
        res_bind (ok_or InvariantViolation (fmlookup idempotency_by_command command_id)) (\<lambda>lookup.
        Inr (fmdrop command_id idempotency_by_command,
          commands @ [\<lparr> mcp_command_id = command_id, mcp_kind = persistence_kind (sc_kind command),
            mcp_request_digest = sc_request_digest command, mcp_workflow_id = sc_workflow_id command,
            mcp_terminal_phase = sc_terminal_phase command, mcp_idempotency = lookup_persistence lookup \<rparr>])))"

definition book_snapshot :: "MembershipCommandBook \<Rightarrow> MembershipCommandError + MembershipCommandBookSnapshot" where
  "book_snapshot self =
     res_bind (for_each invert_idempotency (sorted_list_of_fmap (mb_idempotency self)) fmempty)
       (\<lambda>idempotency_by_command.
     res_bind (for_each push_command (sorted_list_of_fmap (mb_commands self)) (idempotency_by_command, []))
       (\<lambda>(idempotency_by_command, commands).
     if idempotency_by_command \<noteq> fmempty then Inl InvariantViolation
     else Inr \<lparr> mbs_commands = commands,
            mbs_workflows = map (\<lambda>(join_request_id, workflow).
              \<lparr> mwp_join_request_id = join_request_id, mwp_context = jw_context workflow,
                mwp_phase = persistence_phase (jw_phase workflow) \<rparr>)
              (sorted_list_of_fmap (mb_workflows self)) \<rparr>))"

section \<open>Rebuilding a book\<close>

definition scope_for_command ::
  "MembershipCommandPersistence \<Rightarrow> (JoinRequestId, JoinWorkflow) fmap \<Rightarrow> MembershipCommandError + GroupScope" where
  "scope_for_command command workflows =
     (case mcp_workflow_id command of
        None \<Rightarrow> Inr (mip_scope (mcp_idempotency command))
      | Some workflow_id \<Rightarrow>
          ok_or InvariantViolation (map_option (\<lambda>workflow. cx_scope (jw_context workflow))
            (fmlookup workflows workflow_id)))"

definition load_workflow ::
  "MembershipWorkflowPersistence \<Rightarrow> (JoinRequestId, JoinWorkflow) fmap
    \<Rightarrow> MembershipCommandError + (JoinRequestId, JoinWorkflow) fmap" where
  "load_workflow persisted workflows =
     (if mwp_join_request_id persisted \<noteq> cx_join_request_id (mwp_context persisted)
         \<or> cx_actor_identity_id (mwp_context persisted) \<noteq> cx_candidate_identity_id (mwp_context persisted)
         \<or> contains_key workflows (mwp_join_request_id persisted)
      then Inl InvariantViolation
      else Inr (fmupd (mwp_join_request_id persisted)
        \<lparr> jw_context = mwp_context persisted, jw_phase = phase_from_persistence (mwp_phase persisted) \<rparr> workflows))"

definition load_command ::
  "(JoinRequestId, JoinWorkflow) fmap \<Rightarrow> MembershipCommandPersistence
    \<Rightarrow> (IdempotencyLookup, MembershipCommandId) fmap \<times> (MembershipCommandId, StoredCommand) fmap
    \<Rightarrow> MembershipCommandError
       + (IdempotencyLookup, MembershipCommandId) fmap \<times> (MembershipCommandId, StoredCommand) fmap" where
  "load_command workflows persisted vars =
     (case vars of (idempotency, commands) \<Rightarrow>
        res_bind (scope_for_command persisted workflows) (\<lambda>scope.
        if mip_scope (mcp_idempotency persisted) \<noteq> scope then Inl InvariantViolation
        else
          let lookup = lookup_from_persistence (mcp_idempotency persisted)
          in if contains_key idempotency lookup \<or> contains_key commands (mcp_command_id persisted)
             then Inl InvariantViolation
             else Inr (fmupd lookup (mcp_command_id persisted) idempotency,
               fmupd (mcp_command_id persisted)
                 \<lparr> sc_kind = kind_from_persistence (mcp_kind persisted),
                   sc_request_digest = mcp_request_digest persisted,
                   sc_workflow_id = mcp_workflow_id persisted,
                   sc_terminal_phase = mcp_terminal_phase persisted \<rparr> commands)))"

definition scope_for_stored_command ::
  "StoredCommand \<Rightarrow> (JoinRequestId, JoinWorkflow) fmap \<Rightarrow> MembershipCommandError + GroupScope option" where
  "scope_for_stored_command command workflows =
     (case (sc_workflow_id command, sc_terminal_phase command) of
        (Some workflow_id, None) \<Rightarrow>
          ok_or InvariantViolation (map_option (\<lambda>workflow. Some (cx_scope (jw_context workflow)))
            (fmlookup workflows workflow_id))
      | (None, Some (PhaseCommitted admission)) \<Rightarrow> Inr (Some (cr_scope (commit_reference admission)))
      | (None, Some (PhaseRejected _)) \<Rightarrow> Inr None
      | (None, None) \<Rightarrow> Inr None
      | _ \<Rightarrow> Inl InvariantViolation)"

definition validate_terminal_command ::
  "StoredCommand \<Rightarrow> MembershipCommandPhase \<Rightarrow> MembershipCommandError + unit" where
  "validate_terminal_command command phase =
     (case (sc_kind command, phase) of
        (KindRequestJoin, PhaseRejected _) \<Rightarrow> Inr ()
      | (KindRequestJoin, PhaseCommitted (AdmittedAlready _)) \<Rightarrow> Inr ()
      | (KindApproveJoin, PhaseCommitted (AdmittedAlready _)) \<Rightarrow> Inr ()
      | _ \<Rightarrow> Inl InvariantViolation)"

text \<open>The digests are recomputed during validation, so the rest of the validator carries the panic.\<close>

type_synonym 'a book_result = "MembershipCommandError fault + 'a"

abbreviation invariant_violation :: "'a book_result" where
  "invariant_violation \<equiv> Inl (Fail InvariantViolation)"

definition validate_workflow_command ::
  "(128 word \<Rightarrow> byte list) \<Rightarrow> (byte list \<Rightarrow> 256 word) \<Rightarrow> MembershipCommandId \<Rightarrow> StoredCommand \<Rightarrow> JoinWorkflow
    \<Rightarrow> unit book_result" where
  "validate_workflow_command uuid_text sha256 command_id command workflow =
     (case sc_kind command of
        KindRequestJoin \<Rightarrow>
          res_bind (join_request_digest uuid_text sha256 (jw_context workflow)) (\<lambda>digest.
          if sc_request_digest command = digest then Inr () else invariant_violation)
      | KindApproveJoin \<Rightarrow>
          let check = (\<lambda>approval_command_id approval_context authorization_digest.
                if approval_command_id = command_id
                   \<and> workflow_context_matches (jw_context workflow) approval_context
                then res_bind (ApproveJoinCommand_new uuid_text sha256 approval_context authorization_digest)
                  (\<lambda>approval. if sc_request_digest command = ac_request_digest approval then Inr ()
                     else invariant_violation)
                else invariant_violation)
          in case jw_phase workflow of
               PendingCommit i c a \<Rightarrow> check i c a
             | Reconciling i c a \<Rightarrow> check i c a
             | Committed _ \<Rightarrow> Inr ()
             | Rejected _ \<Rightarrow> Inr ()
             | PendingApproval \<Rightarrow> invariant_violation)"

definition single_workflow_approval ::
  "MembershipCommandBook \<Rightarrow> JoinRequestId
    \<Rightarrow> MembershipCommandError + (MembershipCommandId \<times> StoredCommand) option" where
  "single_workflow_approval book workflow_id =
     (case filter (\<lambda>(command_id, command). sc_kind command = KindApproveJoin
               \<and> sc_workflow_id command = Some workflow_id) (sorted_list_of_fmap (mb_commands book)) of
        [] \<Rightarrow> Inr None
      | [approval] \<Rightarrow> Inr (Some approval)
      | _ \<Rightarrow> Inl InvariantViolation)"

definition phase_validate ::
  "(128 word \<Rightarrow> byte list) \<Rightarrow> (byte list \<Rightarrow> 256 word) \<Rightarrow> WorkflowPhase \<Rightarrow> JoinRequestId
    \<Rightarrow> MembershipCommandContext \<Rightarrow> MembershipCommandBook \<Rightarrow> unit book_result" where
  "phase_validate uuid_text sha256 self workflow_id context book =
     (let active = (\<lambda>approval_command_id approval_context authorization_digest.
        if \<not> workflow_context_matches context approval_context then invariant_violation
        else res_bind (ok_or (Fail InvariantViolation) (fmlookup (mb_commands book) approval_command_id)) (\<lambda>command.
          if sc_kind command \<noteq> KindApproveJoin \<or> sc_workflow_id command \<noteq> Some workflow_id
          then invariant_violation
          else res_bind (ApproveJoinCommand_new uuid_text sha256 approval_context authorization_digest) (\<lambda>approval.
            if sc_request_digest command \<noteq> ac_request_digest approval then invariant_violation else Inr ())))
      in case self of
        PendingApproval \<Rightarrow> Inr ()
      | PendingCommit i c a \<Rightarrow> active i c a
      | Reconciling i c a \<Rightarrow> active i c a
      | Committed (Applied reference) \<Rightarrow>
          res_bind (map_err Fail (single_workflow_approval book workflow_id)) (\<lambda>found.
          case found of None \<Rightarrow> invariant_violation
          | Some (approval_command_id, approval) \<Rightarrow>
              if cr_scope reference \<noteq> cx_scope context \<or> approval_command_id \<noteq> cr_command_id reference
                 \<or> sc_request_digest approval \<noteq> cr_request_digest reference
              then invariant_violation else Inr ())
      | Committed (AdmittedAlready reference) \<Rightarrow>
          if cr_scope reference \<noteq> cx_scope context then invariant_violation
          else res_bind (map_err Fail (single_workflow_approval book workflow_id)) (\<lambda>_.
            if list_ex (\<lambda>command. sc_kind command = KindApproveJoin \<and> sc_workflow_id command = None
                 \<and> sc_terminal_phase command = Some (PhaseCommitted (AdmittedAlready reference)))
                 (fm_values (mb_commands book))
            then Inr () else invariant_violation)
      | Rejected _ \<Rightarrow>
          res_bind (map_err Fail (single_workflow_approval book workflow_id)) (\<lambda>found.
          if found \<noteq> None then Inr () else invariant_violation))"

definition check_mapping ::
  "MembershipCommandBook \<Rightarrow> IdempotencyLookup \<times> MembershipCommandId \<Rightarrow> MembershipCommandId fset
    \<Rightarrow> MembershipCommandId fset book_result" where
  "check_mapping self entry mapped_commands =
     (case entry of (lookup, command_id) \<Rightarrow>
        res_bind (ok_or (Fail InvariantViolation) (fmlookup (mb_commands self) command_id)) (\<lambda>command.
        if command_id |\<in>| mapped_commands then invariant_violation
        else res_bind (map_err Fail (scope_for_stored_command command (mb_workflows self))) (\<lambda>found.
          case found of
            Some scope \<Rightarrow> if il_scope lookup \<noteq> scope then invariant_violation
              else Inr (finsert command_id mapped_commands)
          | None \<Rightarrow> Inr (finsert command_id mapped_commands))))"

definition check_command ::
  "(128 word \<Rightarrow> byte list) \<Rightarrow> (byte list \<Rightarrow> 256 word) \<Rightarrow> MembershipCommandBook
    \<Rightarrow> MembershipCommandId \<times> StoredCommand \<Rightarrow> unit \<Rightarrow> unit book_result" where
  "check_command uuid_text sha256 self entry u =
     (case entry of (command_id, command) \<Rightarrow>
        case (sc_workflow_id command, sc_terminal_phase command) of
          (Some workflow_id, None) \<Rightarrow>
            res_bind (ok_or (Fail InvariantViolation) (fmlookup (mb_workflows self) workflow_id)) (\<lambda>workflow.
            validate_workflow_command uuid_text sha256 command_id command workflow)
        | (None, Some phase) \<Rightarrow>
            if is_terminal phase then map_err Fail (validate_terminal_command command phase)
            else invariant_violation
        | _ \<Rightarrow> invariant_violation)"

text \<open>The request of a workflow: the search through the commands, recomputing the digest for each.\<close>

fun has_request ::
  "(128 word \<Rightarrow> byte list) \<Rightarrow> (byte list \<Rightarrow> 256 word) \<Rightarrow> MembershipCommandBook \<Rightarrow> JoinRequestId \<Rightarrow> JoinWorkflow
    \<Rightarrow> (MembershipCommandId \<times> StoredCommand) list \<Rightarrow> bool book_result" where
  "has_request uuid_text sha256 self workflow_id workflow [] = Inr False"
| "has_request uuid_text sha256 self workflow_id workflow ((command_id, command) # rest) =
     (if sc_kind command = KindRequestJoin \<and> sc_workflow_id command = Some workflow_id
      then res_bind (join_request_digest uuid_text sha256 (jw_context workflow)) (\<lambda>digest.
        if sc_request_digest command = digest
           \<and> fm_any (\<lambda>lookup mapped. mapped = command_id \<and> lookup = lookup_new (jw_context workflow))
               (mb_idempotency self)
        then Inr True
        else has_request uuid_text sha256 self workflow_id workflow rest)
      else has_request uuid_text sha256 self workflow_id workflow rest)"

definition check_workflow ::
  "(128 word \<Rightarrow> byte list) \<Rightarrow> (byte list \<Rightarrow> 256 word) \<Rightarrow> MembershipCommandBook
    \<Rightarrow> JoinRequestId \<times> JoinWorkflow \<Rightarrow> unit \<Rightarrow> unit book_result" where
  "check_workflow uuid_text sha256 self entry u =
     (case entry of (workflow_id, workflow) \<Rightarrow>
        if cx_join_request_id (jw_context workflow) \<noteq> workflow_id
           \<or> cx_actor_identity_id (jw_context workflow) \<noteq> cx_candidate_identity_id (jw_context workflow)
        then invariant_violation
        else res_bind (has_request uuid_text sha256 self workflow_id workflow
            (sorted_list_of_fmap (mb_commands self))) (\<lambda>found.
          if \<not> found then invariant_violation
          else phase_validate uuid_text sha256 (jw_phase workflow) workflow_id (jw_context workflow) self))"

definition validate_snapshot_graph ::
  "(128 word \<Rightarrow> byte list) \<Rightarrow> (byte list \<Rightarrow> 256 word) \<Rightarrow> MembershipCommandBook \<Rightarrow> unit book_result" where
  "validate_snapshot_graph uuid_text sha256 self =
     res_bind (for_each (check_mapping self) (sorted_list_of_fmap (mb_idempotency self)) {||}) (\<lambda>mapped_commands.
     if fcard mapped_commands \<noteq> fcard (fmdom (mb_commands self)) then invariant_violation
     else res_bind (for_each (check_command uuid_text sha256 self) (sorted_list_of_fmap (mb_commands self)) ()) (\<lambda>_.
       for_each (check_workflow uuid_text sha256 self) (sorted_list_of_fmap (mb_workflows self)) ()))"

definition book_try_from_snapshot ::
  "(128 word \<Rightarrow> byte list) \<Rightarrow> (byte list \<Rightarrow> 256 word) \<Rightarrow> MembershipCommandBookSnapshot
    \<Rightarrow> MembershipCommandBook book_result" where
  "book_try_from_snapshot uuid_text sha256 snap =
     res_bind (map_err Fail (for_each load_workflow (mbs_workflows snap) fmempty)) (\<lambda>workflows.
     res_bind (map_err Fail (for_each (load_command workflows) (mbs_commands snap) (fmempty, fmempty)))
       (\<lambda>(idempotency, commands).
     let book = \<lparr> mb_commands = commands, mb_idempotency = idempotency, mb_workflows = workflows \<rparr>
     in res_bind (validate_snapshot_graph uuid_text sha256 book) (\<lambda>_. Inr book)))"

end
