(* ===== verification/Membership_Validator.thy ===== *)
theory Membership_Validator
  imports Membership_Invariant Membership_Snapshot
begin

text \<open>
  What the validator of stored books accepts: one equivalence per loop of \<open>validate_snapshot_graph\<close>, composed
  into the statement that it accepts exactly the books whose graph is well formed.
\<close>

section \<open>Commands\<close>

lemma validate_terminal_Ok:
  "is_terminal p \<and> validate_terminal_command c p = Inr () \<longleftrightarrow> terminal_ok (sc_kind c) p"
  by (auto simp: validate_terminal_command_def terminal_ok_def is_terminal_def
      split: CommandKind.splits MembershipCommandPhase.splits MembershipAdmission.splits)

lemma validate_workflow_Ok:
  assumes "uuid_printer u"
  shows "validate_workflow_command u h i c jw = Inr () \<longleftrightarrow> workflow_command_ok u h i c jw"
  by (cases "sc_kind c"; cases "jw_phase jw")
    (auto simp: validate_workflow_command_def workflow_command_ok_def join_request_digest_value [OF assms]
      approve_new_value [OF assms])

lemma check_command_Ok:
  assumes "uuid_printer u"
  shows "check_command u h b (i, c) x = Inr y \<longleftrightarrow> command_ok u h b i c"
proof (cases "sc_workflow_id c"; cases "sc_terminal_phase c")
  fix p assume "sc_workflow_id c = None" "sc_terminal_phase c = Some p"
  then show ?thesis using validate_terminal_Ok [of p c]
    by (auto simp: check_command_def command_ok_def map_err_Ok_iff)
next
  fix w assume "sc_workflow_id c = Some w" "sc_terminal_phase c = None"
  then show ?thesis using validate_workflow_Ok [OF assms, of h i c]
    by (auto simp: check_command_def command_ok_def result_simps)
qed (auto simp: check_command_def command_ok_def)

lemma for_each_unit:
  "for_each f xs () = Inr y \<longleftrightarrow> (\<forall>x\<in>set xs. f x () = Inr ())"
  by (induction xs) (auto simp: res_bind_Ok_iff)

lemma command_loop:
  assumes "uuid_printer u"
  shows "for_each (check_command u h b) (sorted_list_of_fmap (mb_commands b)) () = Inr y
    \<longleftrightarrow> (\<forall>i c. fmlookup (mb_commands b) i = Some c \<longrightarrow> command_ok u h b i c)"
  by (auto simp: for_each_unit check_command_Ok [OF assms])

section \<open>Keys\<close>

definition mapping_ok :: "MembershipCommandBook \<Rightarrow> IdempotencyLookup \<times> MembershipCommandId \<Rightarrow> bool" where
  "mapping_ok b e = (\<exists>c s. fmlookup (mb_commands b) (snd e) = Some c
     \<and> scope_for_stored_command c (mb_workflows b) = Inr s \<and> (\<forall>x. s = Some x \<longrightarrow> il_scope (fst e) = x))"

lemma check_mapping_Ok:
  "check_mapping b e m = Inr t \<longleftrightarrow> mapping_ok b e \<and> snd e |\<notin>| m \<and> t = finsert (snd e) m"
proof (cases e)
  case (Pair l i)
  show ?thesis
    by (cases "fmlookup (mb_commands b) i"; cases "scope_for_stored_command (the (fmlookup (mb_commands b) i)) (mb_workflows b)";
        cases "projr (scope_for_stored_command (the (fmlookup (mb_commands b) i)) (mb_workflows b))")
      (auto simp: Pair check_mapping_def mapping_ok_def)
qed

lemma mapping_loop:
  "for_each (check_mapping b) es m = Inr t \<longleftrightarrow>
     (\<forall>e\<in>set es. mapping_ok b e \<and> snd e |\<notin>| m) \<and> distinct (map snd es) \<and> t = fset_of_list (map snd es) |\<union>| m"
  by (induction es arbitrary: m) (auto simp: res_bind_Ok_iff check_mapping_Ok image_iff)

lemma scope_stored:
  "command_ok u h b i c \<Longrightarrow> scope_for_stored_command c (mb_workflows b) = Inr (command_scope b c)"
  by (auto simp: command_ok_def scope_for_stored_command_def command_scope_def terminal_ok_def
      split: option.splits MembershipCommandPhase.splits)

lemma distinct_sorted_values:
  "distinct (map snd (sorted_list_of_fmap m)) \<longleftrightarrow> (\<forall>k l v. fmlookup m k = Some v \<longrightarrow> fmlookup m l = Some v \<longrightarrow> k = l)"
proof -
  have "distinct (sorted_list_of_fmap m)" using distinct_sorted_list_of_fmap [of m] unfolding distinct_map by blast
  then show ?thesis by (auto simp: distinct_map inj_on_def)
qed

lemma fcard_subset_eq:
  assumes "a |\<subseteq>| b"
  shows "fcard a = fcard b \<longleftrightarrow> a = b"
  using assms by (metis fcard_mono fcard_seteq order_refl)

lemma mapping_phase:
  assumes "\<forall>i c. fmlookup (mb_commands b) i = Some c \<longrightarrow> command_ok u h b i c"
  shows "(\<exists>m. for_each (check_mapping b) (sorted_list_of_fmap (mb_idempotency b)) {||} = Inr m
      \<and> fcard m = fcard (fmdom (mb_commands b))) \<longleftrightarrow> keys_ok b"
proof -
  let ?es = "sorted_list_of_fmap (mb_idempotency b)"
  let ?m = "fset_of_list (map snd ?es)"
  have entry: "mapping_ok b (l, i) \<longleftrightarrow> (\<exists>c. fmlookup (mb_commands b) i = Some c
      \<and> (\<forall>s. command_scope b c = Some s \<longrightarrow> il_scope l = s))" for l i
    using assms scope_stored by (force simp: mapping_ok_def)
  have mem: "i |\<in>| ?m \<longleftrightarrow> (\<exists>l. fmlookup (mb_idempotency b) l = Some i)" for i
    unfolding fset_of_list_elem set_map set_sorted_list_of_fmap by force
  have "fcard ?m = fcard (fmdom (mb_commands b)) \<longleftrightarrow>
      (\<forall>i c. fmlookup (mb_commands b) i = Some c \<longrightarrow> (\<exists>l. fmlookup (mb_idempotency b) l = Some i))"
    if "\<forall>e\<in>set ?es. mapping_ok b e"
  proof -
    have "?m |\<subseteq>| fmdom (mb_commands b)"
    proof
      fix i assume "i |\<in>| ?m"
      then obtain l where "(l, i) \<in> set ?es" unfolding mem by auto
      then show "i |\<in>| fmdom (mb_commands b)" using that entry by (fastforce simp: fmlookup_dom_iff)
    qed
    then have "fcard ?m = fcard (fmdom (mb_commands b)) \<longleftrightarrow> (\<forall>i. i |\<in>| fmdom (mb_commands b) \<longrightarrow> i |\<in>| ?m)"
      using fcard_subset_eq by blast
    then show ?thesis unfolding mem fmlookup_dom_iff by blast
  qed
  then show ?thesis
    unfolding mapping_loop keys_ok_def distinct_sorted_values
    by (auto simp: entry)
qed

section \<open>Workflows\<close>

lemma has_request_value:
  assumes "uuid_printer u"
  shows "has_request u h b w jw es = Inr (list_ex (\<lambda>(i, c). sc_kind c = KindRequestJoin \<and> sc_workflow_id c = Some w
     \<and> sc_request_digest c = digest_of u h KindRequestJoin (jw_context jw) None
     \<and> fmlookup (mb_idempotency b) (lookup_new (jw_context jw)) = Some i) es)"
proof (induction es)
  case (Cons e es)
  have "fm_any (\<lambda>l j. j = i \<and> l = k) (mb_idempotency b) \<longleftrightarrow> fmlookup (mb_idempotency b) k = Some i" for k i
    by (auto simp: fm_any_iff)
  then show ?case by (cases e) (auto simp: Cons join_request_digest_value [OF assms])
qed simp

lemma has_request_Ok:
  "uuid_printer u \<Longrightarrow> has_request u h b w jw (sorted_list_of_fmap (mb_commands b)) = Inr (request_ok u h b w (jw_context jw))"
  by (auto simp: has_request_value list_ex_iff request_ok_def)

lemma single_approval:
  "single_workflow_approval b w = Inr None \<longleftrightarrow> (\<forall>i c. \<not> approves b i c w)"
  "single_workflow_approval b w = Inr (Some (i, c)) \<longleftrightarrow> one_approval b w \<and> approves b i c w"
  "is_ok (single_workflow_approval b w) \<longleftrightarrow> one_approval b w"
proof -
  define xs where "xs = filter (\<lambda>(i, c). sc_kind c = KindApproveJoin \<and> sc_workflow_id c = Some w) (sorted_list_of_fmap (mb_commands b))"
  have mem: "(i, c) \<in> set xs \<longleftrightarrow> approves b i c w" for i c by (auto simp: xs_def approves_def)
  have dist: "distinct (map fst xs)" unfolding xs_def by (rule distinct_map_filter) simp
  have s: "single_workflow_approval b w = (case xs of [] \<Rightarrow> Inr None | [e] \<Rightarrow> Inr (Some e) | _ \<Rightarrow> Inl InvariantViolation)"
    by (simp add: single_workflow_approval_def xs_def)
  have fn: "approves b i c w \<Longrightarrow> approves b i d w \<Longrightarrow> c = d" for i c d by (simp add: approves_def)
  consider "xs = []" | j d where "xs = [(j, d)]" | j d k e ys where "xs = (j, d) # (k, e) # ys" "j \<noteq> k"
    using dist by (cases xs; cases "tl xs") auto
  then have all: "(single_workflow_approval b w = Inr None \<longleftrightarrow> (\<forall>i c. \<not> approves b i c w))
    \<and> (single_workflow_approval b w = Inr (Some (i, c)) \<longleftrightarrow> one_approval b w \<and> approves b i c w)
    \<and> (is_ok (single_workflow_approval b w) \<longleftrightarrow> one_approval b w)"
  proof cases
    case 1
    then show ?thesis using mem by (simp add: s one_approval_def)
  next
    case 2
    then have "approves b k e w \<longleftrightarrow> k = j \<and> e = d" for k e using mem [of k e] by auto
    then show ?thesis using 2 by (auto simp: s one_approval_def)
  next
    case 3
    then have "approves b j d w" "approves b k e w" using mem by auto
    then have "\<not> one_approval b w" "\<not> (\<forall>i c. \<not> approves b i c w)" using 3(2) by (auto simp: one_approval_def)
    then show ?thesis using 3(1) by (simp add: s)
  qed
  then show "single_workflow_approval b w = Inr None \<longleftrightarrow> (\<forall>i c. \<not> approves b i c w)"
    "single_workflow_approval b w = Inr (Some (i, c)) \<longleftrightarrow> one_approval b w \<and> approves b i c w"
    "is_ok (single_workflow_approval b w) \<longleftrightarrow> one_approval b w" by blast+
qed

lemma phase_validate_Ok:
  assumes "uuid_printer u"
  shows "phase_validate u h p w x b = Inr () \<longleftrightarrow> phase_ok u h b w x p"
proof -
  have bind: "res_bind (map_err Fail (single_workflow_approval b w)) f = Inr () \<longleftrightarrow>
      (\<exists>y. single_workflow_approval b w = Inr y \<and> f y = Inr ())" for f :: "_ \<Rightarrow> unit book_result"
    by (auto simp: result_simps)
  have ex: "(\<exists>y. single_workflow_approval b w = Inr y \<and> P y) \<longleftrightarrow>
      ((\<forall>i c. \<not> approves b i c w) \<and> P None) \<or> (\<exists>i c. one_approval b w \<and> approves b i c w \<and> P (Some (i, c)))" for P
    by (metis single_approval(1,2) option.exhaust surj_pair)
  show ?thesis
  proof (cases p)
    case (Committed a)
    then show ?thesis
    proof (cases a)
      case (Applied ref)
      then show ?thesis using Committed by (auto simp: phase_validate_def phase_ok_def bind ex split: if_splits)
    next
      case (AdmittedAlready ref)
      then show ?thesis using Committed single_approval(3) [of b w, unfolded is_ok_iff]
        by (auto simp: phase_validate_def phase_ok_def bind list_ex_iff set_fm_values split: if_splits)
    qed
  qed (auto simp: phase_validate_def phase_ok_def bind ex result_simps approve_new_value [OF assms] approves_def
      split: if_splits)
qed

lemma check_workflow_Ok:
  assumes "uuid_printer u"
  shows "check_workflow u h b (w, jw) x = Inr y \<longleftrightarrow> workflow_ok u h b w jw"
  using phase_validate_Ok [OF assms] has_request_Ok [OF assms, of h b w jw]
  by (auto simp: check_workflow_def workflow_ok_def)

lemma validator_exact:
  assumes "uuid_printer u"
  shows "validate_snapshot_graph u h b = Inr () \<longleftrightarrow> book_ok u h b"
proof -
  have guard: "(if g then invariant_violation else k) = Inr y \<longleftrightarrow> \<not> g \<and> k = Inr y" for g k and y :: unit by simp
  have "validate_snapshot_graph u h b = Inr () \<longleftrightarrow>
      (\<exists>m. for_each (check_mapping b) (sorted_list_of_fmap (mb_idempotency b)) {||} = Inr m
        \<and> fcard m = fcard (fmdom (mb_commands b)))
      \<and> (\<forall>i c. fmlookup (mb_commands b) i = Some c \<longrightarrow> command_ok u h b i c)
      \<and> (\<forall>w jw. fmlookup (mb_workflows b) w = Some jw \<longrightarrow> workflow_ok u h b w jw)"
    unfolding validate_snapshot_graph_def res_bind_Ok_iff guard command_loop [OF assms]
    by (auto simp: for_each_unit check_workflow_Ok [OF assms])
  then show ?thesis using mapping_phase [of b u h] unfolding book_ok_def by blast
qed

end
