(* ===== verification/Membership_Rehydrate.thy ===== *)
theory Membership_Rehydrate
  imports Membership_Safety Membership_Validator
begin

text \<open>
  Storing and loading the command book: the snapshot of a well-formed book loads back as that book, a loaded
  book is well formed, and what a stored book must satisfy beyond the validator to be safe.
\<close>

section \<open>Building maps row by row\<close>

lemma fmlookup_fold_upd:
  "distinct (map k xs) \<Longrightarrow> fmlookup (fold (\<lambda>x. fmupd (k x) (v x)) xs m) y =
     (case map_of (map (\<lambda>x. (k x, v x)) xs) y of None \<Rightarrow> fmlookup m y | Some z \<Rightarrow> Some z)"
proof (induction xs arbitrary: m)
  case (Cons x xs)
  have "map_of (map (\<lambda>x. (k x, v x)) xs) (k x) = None"
    using Cons.prems by (auto simp: map_of_eq_None_iff image_iff)
  then show ?case using Cons by (auto split: option.splits)
qed simp

lemma fold_upd_entries:
  assumes "distinct (map k xs)" "\<And>y z. fmlookup m y = Some z \<longleftrightarrow> (\<exists>x\<in>set xs. k x = y \<and> v x = z)"
  shows "fold (\<lambda>x. fmupd (k x) (v x)) xs fmempty = m"
proof (rule fmap_ext)
  fix y
  let ?es = "map (\<lambda>x. (k x, v x)) xs"
  have d: "distinct (map fst ?es)" using assms(1) by (simp add: o_def)
  have "map_of ?es y = Some z \<longleftrightarrow> fmlookup m y = Some z" for z
    unfolding map_of_eq_Some_iff [OF d] assms(2) by (auto simp: image_iff)
  then have "map_of ?es y = fmlookup m y" by (metis option.exhaust)
  then show "fmlookup (fold (\<lambda>x. fmupd (k x) (v x)) xs fmempty) y = fmlookup m y"
    unfolding fmlookup_fold_upd [OF assms(1)] by (simp split: option.split)
qed

section \<open>Taking a snapshot\<close>

definition inverse_of :: "('k, 'v) fmap \<Rightarrow> ('v, 'k) fmap \<Rightarrow> bool" where
  "inverse_of m n = (\<forall>k v. fmlookup n v = Some k \<longleftrightarrow> fmlookup m k = Some v)"

lemma invert_loop:
  "distinct (map snd es) \<Longrightarrow> (\<forall>e\<in>set es. fmlookup m (snd e) = None) \<Longrightarrow>
    for_each invert_idempotency es m = Inr (fold (\<lambda>e. fmupd (snd e) (fst e)) es m)"
  by (induction es arbitrary: m) (auto simp: invert_idempotency_def contains_key_def image_iff)

lemma invert_Ok:
  assumes "keys_ok b"
  shows "\<exists>n. for_each invert_idempotency (sorted_list_of_fmap (mb_idempotency b)) fmempty = Inr n
    \<and> inverse_of (mb_idempotency b) n"
proof -
  let ?es = "sorted_list_of_fmap (mb_idempotency b)" and ?n = "\<lambda>es. fold (\<lambda>e. fmupd (snd e) (fst e)) es fmempty"
  have d: "distinct (map snd ?es)" using keys_okD(1) [OF assms] by (auto simp: distinct_sorted_values)
  have "map_of (map (\<lambda>e. (snd e, fst e)) ?es) v = Some k \<longleftrightarrow> fmlookup (mb_idempotency b) k = Some v" for k v
    using d by (subst map_of_eq_Some_iff) (auto simp: o_def image_iff)
  moreover have "fmlookup (?n ?es) v = map_of (map (\<lambda>e. (snd e, fst e)) ?es) v" for v
    unfolding fmlookup_fold_upd [OF d] by (simp split: option.split)
  ultimately have "inverse_of (mb_idempotency b) (?n ?es)" unfolding inverse_of_def by presburger
  then show ?thesis using invert_loop [OF d, of fmempty] by auto
qed

definition command_row ::
  "(MembershipCommandId, IdempotencyLookup) fmap \<Rightarrow> MembershipCommandId \<times> StoredCommand \<Rightarrow> MembershipCommandPersistence" where
  "command_row n e = \<lparr> mcp_command_id = fst e, mcp_kind = persistence_kind (sc_kind (snd e)),
     mcp_request_digest = sc_request_digest (snd e), mcp_workflow_id = sc_workflow_id (snd e),
     mcp_terminal_phase = sc_terminal_phase (snd e), mcp_idempotency = lookup_persistence (the (fmlookup n (fst e))) \<rparr>"

definition workflow_row :: "JoinRequestId \<times> JoinWorkflow \<Rightarrow> MembershipWorkflowPersistence" where
  "workflow_row e = \<lparr> mwp_join_request_id = fst e, mwp_context = jw_context (snd e),
     mwp_phase = persistence_phase (jw_phase (snd e)) \<rparr>"

lemma push_loop:
  "distinct (map fst es) \<Longrightarrow> (\<forall>e\<in>set es. fmlookup n (fst e) \<noteq> None) \<Longrightarrow>
    for_each push_command es (n, rows) = Inr (fold (\<lambda>e. fmdrop (fst e)) es n, rows @ map (command_row n) es)"
proof (induction es arbitrary: n rows)
  case (Cons e es)
  have "map (command_row (fmdrop (fst e) n)) es = map (command_row n) es"
    using Cons.prems(1) by (auto simp: command_row_def image_iff)
  moreover have "\<forall>x\<in>set es. fmlookup (fmdrop (fst e) n) (fst x) \<noteq> None"
    using Cons.prems by (auto simp: image_iff)
  moreover obtain l where "fmlookup n (fst e) = Some l" using Cons.prems(2) by auto
  then have "push_command e (n, rows) = Inr (fmdrop (fst e) n, rows @ [command_row n e])"
    by (simp add: push_command_def command_row_def case_prod_unfold)
  ultimately show ?case using Cons.IH [of "fmdrop (fst e) n" "rows @ [command_row n e]"] Cons.prems(1) by simp
qed simp

lemma fold_drop: "fmlookup (fold (\<lambda>e. fmdrop (fst e)) es n) k = (if k \<in> fst ` set es then None else fmlookup n k)"
  by (induction es arbitrary: n) auto

lemma snapshot_Ok:
  assumes "keys_ok b"
  shows "\<exists>n. inverse_of (mb_idempotency b) n \<and> book_snapshot b = Inr \<lparr>
    mbs_commands = map (command_row n) (sorted_list_of_fmap (mb_commands b)),
    mbs_workflows = map workflow_row (sorted_list_of_fmap (mb_workflows b)) \<rparr>"
proof -
  let ?es = "sorted_list_of_fmap (mb_commands b)"
  obtain n where n: "for_each invert_idempotency (sorted_list_of_fmap (mb_idempotency b)) fmempty = Inr n"
    "inverse_of (mb_idempotency b) n" using invert_Ok [OF assms] by blast
  have "fmlookup n i \<noteq> None \<longleftrightarrow> (\<exists>l. fmlookup (mb_idempotency b) l = Some i)" for i
    using n(2) unfolding inverse_of_def by (metis not_None_eq)
  then have k: "fmlookup n i \<noteq> None \<longleftrightarrow> (\<exists>c. fmlookup (mb_commands b) i = Some c)" for i
    using keys_okD(2,3) [OF assms] by metis
  have f: "i \<in> fst ` set ?es \<longleftrightarrow> (\<exists>c. fmlookup (mb_commands b) i = Some c)" for i
    by (force simp: image_iff)
  have "fold (\<lambda>e. fmdrop (fst e)) ?es n = fmempty"
  proof (rule fmap_ext)
    fix i show "fmlookup (fold (\<lambda>e. fmdrop (fst e)) ?es n) i = fmlookup fmempty i"
      unfolding fold_drop f using k [of i] by auto
  qed
  moreover have "\<forall>e\<in>set ?es. fmlookup n (fst e) \<noteq> None" using k by auto
  ultimately have "for_each push_command ?es (n, []) = Inr (fmempty, map (command_row n) ?es)"
    using push_loop [of ?es n "[]"] by simp
  then show ?thesis
    using n by (intro exI [of _ n]) (simp add: book_snapshot_def workflow_row_def case_prod_unfold)
qed

section \<open>Loading\<close>

lemma row_inverses [simp]:
  "lookup_from_persistence (lookup_persistence l) = l" "kind_from_persistence (persistence_kind k) = k"
  "phase_from_persistence (persistence_phase p) = p" "mip_scope (lookup_persistence l) = il_scope l"
  by (cases l; cases k; cases p; simp add: lookup_from_persistence_def lookup_persistence_def kind_from_persistence_def
      persistence_kind_def phase_from_persistence_def persistence_phase_def)+

lemma row_parts [simp]:
  "mcp_command_id (command_row n e) = fst e" "mcp_kind (command_row n e) = persistence_kind (sc_kind (snd e))"
  "mcp_request_digest (command_row n e) = sc_request_digest (snd e)" "mcp_workflow_id (command_row n e) = sc_workflow_id (snd e)"
  "mcp_terminal_phase (command_row n e) = sc_terminal_phase (snd e)"
  "mcp_idempotency (command_row n e) = lookup_persistence (the (fmlookup n (fst e)))"
  "mwp_join_request_id (workflow_row w) = fst w" "mwp_context (workflow_row w) = jw_context (snd w)"
  "mwp_phase (workflow_row w) = persistence_phase (jw_phase (snd w))"
  by (simp_all add: command_row_def workflow_row_def)

lemma record_eta:
  "\<lparr> jw_context = jw_context jw, jw_phase = jw_phase jw \<rparr> = jw"
  "\<lparr> sc_kind = sc_kind c, sc_request_digest = sc_request_digest c, sc_workflow_id = sc_workflow_id c,
     sc_terminal_phase = sc_terminal_phase c \<rparr> = c"
  "\<lparr> mb_commands = mb_commands b, mb_idempotency = mb_idempotency b, mb_workflows = mb_workflows b \<rparr> = b"
  by simp_all

lemma load_workflow_loop:
  assumes "\<And>e. e \<in> set es \<Longrightarrow> cx_join_request_id (jw_context (snd e)) = fst e
      \<and> cx_actor_identity_id (jw_context (snd e)) = cx_candidate_identity_id (jw_context (snd e))"
    and "distinct (map fst es)" "\<And>e. e \<in> set es \<Longrightarrow> fmlookup m (fst e) = None"
  shows "for_each load_workflow (map workflow_row es) m = Inr (fold (\<lambda>e. fmupd (fst e) (snd e)) es m)"
  using assms
proof (induction es arbitrary: m)
  case (Cons e es)
  from Cons.prems have "load_workflow (workflow_row e) m = Inr (fmupd (fst e) (snd e) m)"
    by (simp add: load_workflow_def contains_key_def record_eta)
  moreover have "\<And>x. x \<in> set es \<Longrightarrow> fmlookup (fmupd (fst e) (snd e) m) (fst x) = None"
    using Cons.prems(2,3) by (force simp: image_iff)
  ultimately show ?case using Cons by simp
qed simp

lemma load_command_loop:
  assumes "\<And>e. e \<in> set es \<Longrightarrow> fmlookup n (fst e) = Some (key (fst e))
      \<and> scope_for_command (command_row n e) ws = Inr (il_scope (key (fst e)))"
    and "distinct (map fst es)" "distinct (map (key \<circ> fst) es)"
    and "\<And>e. e \<in> set es \<Longrightarrow> fmlookup d (key (fst e)) = None \<and> fmlookup m (fst e) = None"
  shows "for_each (load_command ws) (map (command_row n) es) (d, m) =
    Inr (fold (\<lambda>e. fmupd (key (fst e)) (fst e)) es d, fold (\<lambda>e. fmupd (fst e) (snd e)) es m)"
  using assms
proof (induction es arbitrary: d m)
  case (Cons e es)
  have "load_command ws (command_row n e) (d, m) = Inr (fmupd (key (fst e)) (fst e) d, fmupd (fst e) (snd e) m)"
    using Cons.prems(1,4) [of e] by (simp add: load_command_def contains_key_def Let_def record_eta)
  moreover have "\<And>x. x \<in> set es \<Longrightarrow> fmlookup (fmupd (key (fst e)) (fst e) d) (key (fst x)) = None
      \<and> fmlookup (fmupd (fst e) (snd e) m) (fst x) = None"
    using Cons.prems(2-4) by (force simp: image_iff)
  ultimately show ?case using Cons by simp
qed simp

lemma fold_sorted: "fold (\<lambda>e. fmupd (fst e) (snd e)) (sorted_list_of_fmap m) fmempty = m"
  by (rule fold_upd_entries) auto

lemma command_row_scope:
  assumes "book_ok u h b" "fmlookup (mb_commands b) i = Some c" "fmlookup n i = Some l" "fmlookup (mb_idempotency b) l = Some i"
  shows "scope_for_command (command_row n (i, c)) (mb_workflows b) = Inr (il_scope l)"
proof (cases "sc_workflow_id c")
  case (Some w)
  obtain jw where jw: "sc_terminal_phase c = None" "fmlookup (mb_workflows b) w = Some jw"
    using command_ok_workflow [OF book_okD(2) [OF assms(1,2)] Some] by blast
  then have "command_scope b c = Some (cx_scope (jw_context jw))" using Some by (simp add: command_scope_def)
  then have "il_scope l = cx_scope (jw_context jw)" using keys_okD(4) [OF book_okD(1) [OF assms(1)] assms(4,2)] by blast
  then show ?thesis using Some jw by (simp add: scope_for_command_def command_row_def)
qed (simp add: scope_for_command_def command_row_def assms(3))

lemma snapshot_loads:
  assumes "uuid_printer u" "book_ok u h b"
  shows "\<exists>s. book_snapshot b = Inr s \<and> book_try_from_snapshot u h s = Inr b"
proof -
  let ?cs = "sorted_list_of_fmap (mb_commands b)" and ?ws = "sorted_list_of_fmap (mb_workflows b)"
  note keys = book_okD(1) [OF assms(2)]
  obtain n where n: "inverse_of (mb_idempotency b) n" and s: "book_snapshot b = Inr \<lparr>
    mbs_commands = map (command_row n) ?cs, mbs_workflows = map workflow_row ?ws \<rparr>"
    using snapshot_Ok [OF keys] by blast
  define key where "key i = the (fmlookup n i)" for i
  have nk: "fmlookup n i = Some (key i)" "fmlookup (mb_idempotency b) (key i) = Some i"
    if c: "fmlookup (mb_commands b) i = Some c" for i c
  proof -
    obtain l where l: "fmlookup (mb_idempotency b) l = Some i" using keys_okD(2) [OF keys c] by blast
    then have "fmlookup n i = Some l" using n by (simp add: inverse_of_def)
    then show "fmlookup n i = Some (key i)" "fmlookup (mb_idempotency b) (key i) = Some i"
      using l by (simp_all add: key_def)
  qed
  have ws: "for_each load_workflow (map workflow_row ?ws) fmempty = Inr (mb_workflows b)"
    using book_okD(3) [OF assms(2)] by (subst load_workflow_loop) (auto simp: workflow_ok_def fold_sorted)
  have inj: "distinct (map (key \<circ> fst) ?cs)"
  proof -
    have "inj_on key (fst ` set ?cs)"
    proof (rule inj_onI)
      fix x y assume "x \<in> fst ` set ?cs" "y \<in> fst ` set ?cs" and k: "key x = key y"
      then obtain c d where "fmlookup (mb_commands b) x = Some c" "fmlookup (mb_commands b) y = Some d" by auto
      then have "fmlookup (mb_idempotency b) (key x) = Some x" "fmlookup (mb_idempotency b) (key y) = Some y"
        using nk(2) by blast+
      then show "x = y" unfolding k by (metis option.inject)
    qed
    then show ?thesis by (subst map_map [symmetric], subst distinct_map) simp
  qed
  have "fold (\<lambda>e. fmupd (key (fst e)) (fst e)) ?cs fmempty = mb_idempotency b"
  proof (rule fold_upd_entries)
    show "distinct (map (\<lambda>e. key (fst e)) ?cs)" using inj by (simp add: o_def)
    show "fmlookup (mb_idempotency b) y = Some z \<longleftrightarrow> (\<exists>x\<in>set ?cs. key (fst x) = y \<and> fst x = z)" for y z
      using nk(2) keys_okD(1,3) [OF keys] by fastforce
  qed
  moreover have "for_each (load_command (mb_workflows b)) (map (command_row n) ?cs) (fmempty, fmempty) =
      Inr (fold (\<lambda>e. fmupd (key (fst e)) (fst e)) ?cs fmempty, fold (\<lambda>e. fmupd (fst e) (snd e)) ?cs fmempty)"
    using nk inj command_row_scope [OF assms(2)] by (intro load_command_loop) auto
  ultimately have "book_try_from_snapshot u h \<lparr> mbs_commands = map (command_row n) ?cs, mbs_workflows = map workflow_row ?ws \<rparr> = Inr b"
    using ws validator_exact [OF assms(1), of h b] assms(2) by (simp add: book_try_from_snapshot_def fold_sorted Let_def record_eta)
  then show ?thesis using s by blast
qed

lemma loaded_ok:
  "uuid_printer u \<Longrightarrow> book_try_from_snapshot u h s = Inr b \<Longrightarrow> book_ok u h b"
  by (auto simp: book_try_from_snapshot_def result_simps validator_exact Let_def)

section \<open>Properties\<close>

text \<open>C26. Storing and loading is the identity on every book the methods can produce: the snapshot succeeds, and
  rebuilding from it, digests recomputed, gives the same book.\<close>
theorem book_snapshot_roundtrip:
  assumes "uuid_printer u"
  shows "\<exists>s. book_snapshot (reachable_book u h calls) = Inr s
    \<and> book_try_from_snapshot u h s = Inr (reachable_book u h calls)"
  using snapshot_loads [OF assms] reachable_inv [OF assms] unfolding book_inv_def by blast

text \<open>C27. A loaded book whose stored command identities are those of their contexts is as safe as a fresh one: it
  is well formed and stays so under all further calls, and it can always be stored and loaded again.\<close>
theorem book_loaded_safe:
  assumes "uuid_printer u" "book_try_from_snapshot u h s = Inr b" "ids_bound b"
  shows "book_inv u h (run (book_apply u h) calls b)
    \<and> (\<exists>s'. book_snapshot (run (book_apply u h) calls b) = Inr s'
        \<and> book_try_from_snapshot u h s' = Inr (run (book_apply u h) calls b))"
proof -
  have "book_inv u h b" using loaded_ok assms by (simp add: book_inv_def)
  then have "book_inv u h (run (book_apply u h) calls b)" using book_calls.run_inv assms(1) by blast
  then show ?thesis using snapshot_loads [OF assms(1)] unfolding book_inv_def by blast
qed

section \<open>A stored book no sequence of calls produces\<close>

text \<open>Two request commands, under two keys of the same actor, both attached to the one pending workflow.\<close>

definition twin_id :: MembershipCommandId where "twin_id = MembershipCommandId (UuidId 2)"

definition twin_key :: IdempotencyLookup where
  "twin_key = IdempotencyLookup (cx_scope request_ctx) (PublicId 11) (Sha256Digest 3)"

definition twin_row :: "Sha256Digest \<Rightarrow> MembershipCommandId \<Rightarrow> IdempotencyLookup \<Rightarrow> MembershipCommandPersistence" where
  "twin_row d i l = \<lparr> mcp_command_id = i, mcp_kind = StoredRequestJoin, mcp_request_digest = d,
     mcp_workflow_id = Some (UuidId 9), mcp_terminal_phase = None, mcp_idempotency = lookup_persistence l \<rparr>"

definition twin_snapshot :: "Sha256Digest \<Rightarrow> MembershipCommandBookSnapshot" where
  "twin_snapshot d = \<lparr> mbs_commands = [twin_row d (MembershipCommandId (UuidId 1)) (lookup_new request_ctx),
       twin_row d twin_id twin_key],
     mbs_workflows = [\<lparr> mwp_join_request_id = UuidId 9, mwp_context = request_ctx, mwp_phase = StoredPendingApproval \<rparr>] \<rparr>"

definition twin_book :: "Sha256Digest \<Rightarrow> MembershipCommandBook" where
  "twin_book d = set_workflow (UuidId 9) (workflow_pending request_ctx)
     (add_command twin_id twin_key (stored_workflow KindRequestJoin d (UuidId 9))
       (add_command (MembershipCommandId (UuidId 1)) (lookup_new request_ctx)
         (stored_workflow KindRequestJoin d (UuidId 9)) book_new))"

lemma twin_distinct [simp]:
  "twin_id \<noteq> MembershipCommandId (UuidId 1)" "twin_key \<noteq> lookup_new request_ctx"
  "MembershipCommandId (UuidId 1) \<noteq> twin_id" "lookup_new request_ctx \<noteq> twin_key" "il_scope twin_key = cx_scope request_ctx"
  by (simp_all add: twin_id_def twin_key_def lookup_new_def request_ctx_def sample_context_def context_new_v2_def)

lemma for_each_fails:
  assumes "x \<in> set xs" "\<And>s. f x s = Inl e" "\<And>y s e'. f y s = Inl e' \<Longrightarrow> e' = e"
  shows "for_each f xs s = Inl e"
  using assms(1)
proof (induction xs arbitrary: s)
  case (Cons y ys)
  show ?case
  proof (cases "f y s")
    case (Inl e')
    then show ?thesis using assms(3) by simp
  next
    case (Inr t)
    then show ?thesis using Cons assms(2) by (cases "y = x") auto
  qed
qed simp

lemma load_command_error: "load_command ws row vars = Inl e \<Longrightarrow> e = InvariantViolation"
  by (cases vars; cases "scope_for_command row ws")
    (auto simp: load_command_def Let_def scope_for_command_def result_simps split: option.splits if_splits)

text \<open>A command attached to a workflow that is gone makes every load fail.\<close>

lemma dangling_refused:
  assumes "keys_ok t" "fmlookup (mb_commands t) i = Some c" "sc_workflow_id c = Some w" "mb_workflows t = fmempty"
  shows "\<exists>s'. book_snapshot t = Inr s' \<and> book_try_from_snapshot u h s' = Inl (Fail InvariantViolation)"
proof -
  obtain n where s: "book_snapshot t = Inr \<lparr> mbs_commands = map (command_row n) (sorted_list_of_fmap (mb_commands t)),
      mbs_workflows = [] \<rparr>"
    using snapshot_Ok [OF assms(1)] assms(4) by auto
  have "for_each (load_command fmempty) (map (command_row n) (sorted_list_of_fmap (mb_commands t))) (fmempty, fmempty) =
      Inl InvariantViolation"
  proof (rule for_each_fails)
    show "command_row n (i, c) \<in> set (map (command_row n) (sorted_list_of_fmap (mb_commands t)))" using assms(2) by auto
    show "load_command fmempty (command_row n (i, c)) vars = Inl InvariantViolation" for vars
      using assms(3) by (cases vars) (simp add: load_command_def scope_for_command_def)
  qed (rule load_command_error)
  then show ?thesis using s by (simp add: book_try_from_snapshot_def)
qed

lemma twin_loads:
  assumes "uuid_printer u" "d = digest_of u h KindRequestJoin request_ctx None"
  shows "book_try_from_snapshot u h (twin_snapshot d) = Inr (twin_book d)" and "book_ok u h (twin_book d)"
proof -
  let ?b = "twin_book d" and ?c = "stored_workflow KindRequestJoin d (UuidId 9)"
  have cs: "fmlookup (mb_commands ?b) i = Some c \<longleftrightarrow> (i = MembershipCommandId (UuidId 1) \<or> i = twin_id) \<and> c = ?c" for i c
    by (auto simp: twin_book_def book_new_def)
  have ws: "fmlookup (mb_workflows ?b) w = Some jw \<longleftrightarrow> w = UuidId 9 \<and> jw = workflow_pending request_ctx" for w jw
    by (auto simp: twin_book_def book_new_def)
  have "keys_ok (set_workflow (UuidId 9) (workflow_pending request_ctx) book_new)"
    by (simp add: keys_ok_def book_new_def)
  then have "keys_ok ?b"
    unfolding twin_book_def set_add_commute
    by (intro keys_ok_add) (auto simp: fresh_def book_new_def workflow_pending_def)
  moreover have "command_ok u h ?b i ?c" for i
    using assms(2) ws by (simp add: command_ok_def stored_workflow_def workflow_command_ok_def workflow_pending_def)
  moreover have "fmlookup (mb_idempotency ?b) (lookup_new request_ctx) = Some (MembershipCommandId (UuidId 1))"
    by (simp add: twin_book_def)
  then have "workflow_ok u h ?b (UuidId 9) (workflow_pending request_ctx)"
    using assms(2) cs by (auto simp: workflow_ok_def request_ok_def phase_ok_def workflow_pending_def stored_workflow_def)
  ultimately show ok: "book_ok u h ?b" using cs ws by (simp add: book_ok_def)
  have v: "validate_snapshot_graph u h ?b = Inr ()" using validator_exact [OF assms(1)] ok by blast
  have "twin_book d = \<lparr> mb_commands = fmupd twin_id (stored_workflow KindRequestJoin d (UuidId 9))
        (fmupd (MembershipCommandId (UuidId 1)) (stored_workflow KindRequestJoin d (UuidId 9)) fmempty),
      mb_idempotency = fmupd twin_key twin_id (fmupd (lookup_new request_ctx) (MembershipCommandId (UuidId 1)) fmempty),
      mb_workflows = fmupd (UuidId 9) (workflow_pending request_ctx) fmempty \<rparr>"
    by (simp add: twin_book_def set_workflow_def add_command_def book_new_def)
  then show "book_try_from_snapshot u h (twin_snapshot d) = Inr ?b" using v
    by (simp add: book_try_from_snapshot_def twin_snapshot_def load_workflow_def load_command_def twin_row_def
        scope_for_command_def contains_key_def phase_from_persistence_def workflow_pending_def stored_workflow_def
        kind_from_persistence_def Let_def)
qed

lemma twin_unreachable: "uuid_printer u \<Longrightarrow> reachable_book u h calls \<noteq> twin_book d"
proof
  assume u: "uuid_printer u" and t: "reachable_book u h calls = twin_book d"
  have "ids_bound (twin_book d)" using reachable_inv [OF u, of h calls] by (simp add: t book_inv_def)
  then have "id_bound twin_id (stored_workflow KindRequestJoin d (UuidId 9)) (workflow_pending request_ctx)"
    by (rule ids_boundD [of _ _ _ "UuidId 9"]) (simp_all add: twin_book_def stored_workflow_def)
  then show False by (simp add: id_bound_def stored_workflow_def workflow_pending_def)
qed

text \<open>C28. The validator accepts a stored book the methods cannot produce: two request commands for one pending
  workflow. Rejecting one of them succeeds and leaves the other without its workflow: asking for its receipt
  ends in the internal invariant violation, and the book so stored is refused on the next load.\<close>
theorem book_accepts_unreachable:
  assumes "uuid_printer u"
  shows "\<exists>s b t r s'. book_try_from_snapshot u h s = Inr b \<and> (\<forall>calls. reachable_book u h calls \<noteq> b)
    \<and> reject_locally (MembershipCommandId (UuidId 1)) PolicyDenied b = (Inr r, t)
    \<and> receipt t twin_id = Inl InvariantViolation
    \<and> book_snapshot t = Inr s' \<and> book_try_from_snapshot u h s' = Inl (Fail InvariantViolation)"
proof -
  let ?d = "digest_of u h KindRequestJoin request_ctx None"
  let ?b = "twin_book ?d" and ?c = "stored_workflow KindRequestJoin ?d (UuidId 9)"
  let ?t = "?b\<lparr> mb_workflows := fmdrop (UuidId 9) (mb_workflows ?b), mb_commands :=
    fmupd (MembershipCommandId (UuidId 1)) (stored_terminal KindRequestJoin ?d (PhaseRejected PolicyDenied)) (mb_commands ?b) \<rparr>"
  note ok = twin_loads(2) [OF assms refl]
  have parts: "fmlookup (mb_commands ?b) (MembershipCommandId (UuidId 1)) = Some ?c" "fmlookup (mb_commands ?b) twin_id = Some ?c"
    "fmlookup (mb_workflows ?b) (UuidId 9) = Some (workflow_pending request_ctx)" by (simp_all add: twin_book_def)
  have none: "mb_workflows ?t = fmempty"
    by (rule fmap_ext) (simp add: twin_book_def book_new_def)
  have "book_step u h ?b ?t"
    using book_step.dismiss [OF parts(1) _ _ parts(3), where r = PolicyDenied]
    by (simp add: stored_workflow_def workflow_pending_def)
  then have "keys_ok ?t" by (rule keys_step [OF ok])
  then obtain s' where s': "book_snapshot ?t = Inr s'" "book_try_from_snapshot u h s' = Inl (Fail InvariantViolation)"
    using dangling_refused [of ?t twin_id ?c "UuidId 9" u h] parts(2) none by (auto simp: stored_workflow_def)
  have r: "reject_locally (MembershipCommandId (UuidId 1)) PolicyDenied ?b = (receipt_for ?t (MembershipCommandId (UuidId 1)), ?t)"
    using parts by (simp add: reject_locally_def Let_def stored_workflow_def workflow_pending_def)
  have "is_ok (receipt_for ?t (MembershipCommandId (UuidId 1)))"
    by (simp add: receipt_ok stored_terminal_def)
  then obtain x where x: "receipt_for ?t (MembershipCommandId (UuidId 1)) = Inr x" by (auto simp: is_ok_iff)
  have "receipt ?t twin_id = Inl InvariantViolation"
    using parts(2) none by (simp add: receipt_def receipt_for_def stored_workflow_def)
  then show ?thesis
    using twin_loads(1) [OF assms refl] twin_unreachable [OF assms] r x s' by metis
qed

lemma book_accepts_unreachable_witness:
  "\<exists>s b. book_try_from_snapshot sample_uuid_text sample_sha256 s = Inr b
    \<and> (\<forall>calls. reachable_book sample_uuid_text sample_sha256 calls \<noteq> b)"
  using book_accepts_unreachable [OF sample_uuid_printer, of sample_sha256] by blast

lemma book_snapshot_roundtrip_witness:
  "\<exists>s. book_snapshot (approved_book pending_phase) = Inr s
    \<and> book_try_from_snapshot sample_uuid_text sample_sha256 s = Inr (approved_book pending_phase)"
  using book_snapshot_roundtrip [OF sample_uuid_printer, of sample_sha256 "[request_call, approval_call]"]
  by (simp add: sample_books)


lemma book_loaded_safe_witness:
  "\<exists>s. book_try_from_snapshot sample_uuid_text sample_sha256 s = Inr requested_book
    \<and> book_inv sample_uuid_text sample_sha256 (run sample_apply [approval_call] requested_book)"
proof -
  have inv: "book_inv sample_uuid_text sample_sha256 requested_book"
    using reachable_inv [OF sample_uuid_printer, of sample_sha256 "[request_call]"] by (simp add: sample_books)
  then obtain s where "book_try_from_snapshot sample_uuid_text sample_sha256 s = Inr requested_book" "ids_bound requested_book"
    using snapshot_loads [OF sample_uuid_printer] unfolding book_inv_def by blast
  then show ?thesis using book_loaded_safe [OF sample_uuid_printer, of sample_sha256 s requested_book "[approval_call]"] by blast
qed

end
