(* ===== verification/Instants.thy ===== *)
theory Instants
  imports Domain_Ids
begin

text \<open>
  Server time in milliseconds. An \<open>i64\<close> instant is an integer; the checked operations of the
  source are written out with the range of the type, and \<open>is_i64\<close> is that range.
\<close>

definition is_i64 :: "int \<Rightarrow> bool" where
  "is_i64 t = (- (2 ^ 63) \<le> t \<and> t < 2 ^ 63)"

definition checked_add_i64 :: "int \<Rightarrow> int \<Rightarrow> int option" where
  "checked_add_i64 a b = (if is_i64 (a + b) then Some (a + b) else None)"

definition checked_sub_i64 :: "int \<Rightarrow> int \<Rightarrow> int option" where
  "checked_sub_i64 a b = (if is_i64 (a - b) then Some (a - b) else None)"

lemma checked_add_i64_Some [result_simps]:
  "checked_add_i64 a b = Some c \<longleftrightarrow> c = a + b \<and> is_i64 (a + b)"
  by (auto simp: checked_add_i64_def)

lemma checked_sub_i64_Some [result_simps]:
  "checked_sub_i64 a b = Some c \<longleftrightarrow> c = a - b \<and> is_i64 (a - b)"
  by (auto simp: checked_sub_i64_def)

text \<open>\<open>Option::is_none_or\<close> and \<open>Option::is_some_and\<close>.\<close>

definition is_none_or :: "'a option \<Rightarrow> ('a \<Rightarrow> bool) \<Rightarrow> bool" where
  "is_none_or v P = (case v of None \<Rightarrow> True | Some x \<Rightarrow> P x)"

definition is_some_and :: "'a option \<Rightarrow> ('a \<Rightarrow> bool) \<Rightarrow> bool" where
  "is_some_and v P = (case v of None \<Rightarrow> False | Some x \<Rightarrow> P x)"

lemma is_none_or_simps [simp]: "is_none_or None P" "is_none_or (Some x) P \<longleftrightarrow> P x"
  by (simp_all add: is_none_or_def)

lemma is_some_and_simps [simp]: "\<not> is_some_and None P" "is_some_and (Some x) P \<longleftrightarrow> P x"
  by (simp_all add: is_some_and_def)

lemma is_none_or_iff: "is_none_or v P \<longleftrightarrow> (\<forall>x. v = Some x \<longrightarrow> P x)"
  by (cases v) auto

lemma is_some_and_iff: "is_some_and v P \<longleftrightarrow> (\<exists>x. v = Some x \<and> P x)"
  by (cases v) auto

section \<open>Facts the aggregates share\<close>

lemma next_not_initial: "valid_revision r \<Longrightarrow> checked_next r = Inr n \<Longrightarrow> n \<noteq> Revision_INITIAL"
  using checked_next_succ(1) [of r n] by (auto simp: valid_revision_def Revision_INITIAL_def word_gt_0_no unat_eq_zero)

lemma next_revision_facts:
  assumes "valid_revision r" "checked_next r = Inr n"
  shows "valid_revision n" "n \<noteq> Revision_INITIAL" "r < n"
  using assms checked_next_succ next_not_initial by blast+

lemma map_inverse: "(\<And>x. f (g x) = x) \<Longrightarrow> map_option f (map_option g v) = v"
  by (cases v) simp_all

lemma revision_initial_iff: "rev_get r = rev_get Revision_INITIAL \<longleftrightarrow> r = Revision_INITIAL"
  by (cases r) (simp add: Revision_INITIAL_def)

section \<open>Identifiers of the agent control plane\<close>

datatype tenant_kind = TenantKind
datatype host_kind = HostKind
datatype host_credential_kind = HostCredentialKind
datatype installation_kind = InstallationKind
datatype agent_device_kind = AgentDeviceKind
datatype connector_kind = ConnectorKind
datatype boot_kind = BootKind
datatype lease_kind = LeaseKind
datatype binding_kind = BindingKind
datatype event_kind = EventKind
datatype run_kind = RunKind
datatype run_offer_kind = RunOfferKind
datatype run_lease_kind = RunLeaseKind
datatype grant_kind = GrantKind
datatype cloud_connection_kind = CloudConnectionKind

type_synonym TenantId = "tenant_kind uuid_id"
type_synonym HostId = "host_kind uuid_id"
type_synonym HostCredentialId = "host_credential_kind uuid_id"
type_synonym InstallationId = "installation_kind uuid_id"
type_synonym AgentDeviceId = "agent_device_kind uuid_id"
type_synonym ConnectorId = "connector_kind uuid_id"
type_synonym BootId = "boot_kind uuid_id"
type_synonym LeaseId = "lease_kind uuid_id"
type_synonym BindingId = "binding_kind uuid_id"
type_synonym EventId = "event_kind uuid_id"
type_synonym RunId = "run_kind uuid_id"
type_synonym RunOfferId = "run_offer_kind uuid_id"
type_synonym RunLeaseId = "run_lease_kind uuid_id"
type_synonym GrantId = "grant_kind uuid_id"
type_synonym CloudConnectionId = "cloud_connection_kind uuid_id"

end
