(* ===== verification/Agent_Registry.thy ===== *)
theory Agent_Registry
  imports Instants Revisioned Calls
begin

text \<open>
  The crate \<open>dtx-agent-registry\<close>, files \<open>installation.rs\<close> and \<open>device.rs\<close>: the installation of an
  Agent for an owner and the devices that represent it, two revisioned aggregates driven by
  commands.
\<close>

section \<open>Installations\<close>

type_synonym DescriptorDigest = "256 word"

datatype ExecutionMode = ConnectorManaged | ServerManaged

datatype InstallationDesiredState = InstallationEnabled | InstallationDisabled | InstallationRevoked

datatype InstallationObservedState = Installing | InstallationReady | InstallationDegraded | UpgradeRequired

datatype InstallationCommand =
  BindAgentIdentity IdentityId
| ConfirmAgentIdentity IdentityId
| MarkReady | MarkDegraded | RequireUpgrade | DisableInstallation | EnableInstallation
| UpgradeDescriptor Revision DescriptorDigest
| AdvancePolicy Revision
| RevokeInstallation

record AgentInstallation =
  ai_tenant_id :: TenantId
  ai_installation_id :: InstallationId
  ai_agent_id :: AgentId
  ai_owner_id :: IdentityId
  ai_agent_identity_id :: "IdentityId option"
  ai_execution_mode :: ExecutionMode
  ai_descriptor_version :: Revision
  ai_descriptor_hash :: DescriptorDigest
  ai_policy_revision :: Revision
  ai_desired_state :: InstallationDesiredState
  ai_observed_state :: InstallationObservedState
  ai_revision :: Revision

record AgentInstallationSnapshot =
  ais_tenant_id :: TenantId
  ais_installation_id :: InstallationId
  ais_agent_id :: AgentId
  ais_owner_id :: IdentityId
  ais_agent_identity_id :: "IdentityId option"
  ais_execution_mode :: ExecutionMode
  ais_descriptor_version :: Revision
  ais_descriptor_hash :: DescriptorDigest
  ais_policy_revision :: Revision
  ais_desired_state :: InstallationDesiredState
  ais_observed_state :: InstallationObservedState
  ais_revision :: Revision

datatype InstallationError =
  AgentIdentityRequired | AgentIdentityAlreadyBound
| InstallationRevisionConflict Revision Revision
| InstallationInvalidTransition | InstallationIsRevoked
| DescriptorVersionRegressed | DescriptorVersionConflict | PolicyRevisionRegressed
| NoChange | InstallationRevisionExhausted

datatype AgentInstallationSnapshotError = InstallationUnreachableInitialState

definition installation_new ::
  "TenantId \<Rightarrow> InstallationId \<Rightarrow> AgentId \<Rightarrow> IdentityId \<Rightarrow> ExecutionMode \<Rightarrow> Revision \<Rightarrow> DescriptorDigest
    \<Rightarrow> AgentInstallation" where
  "installation_new tenant_id installation_id agent_id owner_id execution_mode version hash =
     \<lparr> ai_tenant_id = tenant_id, ai_installation_id = installation_id, ai_agent_id = agent_id,
       ai_owner_id = owner_id, ai_agent_identity_id = None, ai_execution_mode = execution_mode,
       ai_descriptor_version = version, ai_descriptor_hash = hash,
       ai_policy_revision = Revision_INITIAL, ai_desired_state = InstallationEnabled,
       ai_observed_state = Installing, ai_revision = Revision_INITIAL \<rparr>"

text \<open>
  The \<open>match\<close> of \<open>apply\<close> computes the six local variables of the method; they are the fields of
  the updated record here, and the revision is written only after the counter has been checked.
\<close>

definition installation_transition :: "InstallationCommand \<Rightarrow> AgentInstallation \<Rightarrow> InstallationError + AgentInstallation" where
  "installation_transition command self =
     (case command of
        BindAgentIdentity identity_id \<Rightarrow>
          (if ai_agent_identity_id self = None then Inr (self\<lparr> ai_agent_identity_id := Some identity_id \<rparr>)
           else Inl AgentIdentityAlreadyBound)
      | ConfirmAgentIdentity identity_id \<Rightarrow>
          (if ai_agent_identity_id self = Some identity_id then Inr self
           else Inl AgentIdentityAlreadyBound)
      | MarkReady \<Rightarrow>
          (if ai_desired_state self = InstallationEnabled \<and> ai_agent_identity_id self \<noteq> None
              \<and> (ai_observed_state self = Installing \<or> ai_observed_state self = InstallationDegraded)
           then Inr (self\<lparr> ai_observed_state := InstallationReady \<rparr>)
           else if ai_agent_identity_id self = None then Inl AgentIdentityRequired
           else Inl InstallationInvalidTransition)
      | MarkDegraded \<Rightarrow>
          (if ai_desired_state self = InstallationEnabled
              \<and> (ai_observed_state self = Installing \<or> ai_observed_state self = InstallationReady)
           then Inr (self\<lparr> ai_observed_state := InstallationDegraded \<rparr>)
           else Inl InstallationInvalidTransition)
      | RequireUpgrade \<Rightarrow>
          (if ai_observed_state self \<noteq> UpgradeRequired
           then Inr (self\<lparr> ai_observed_state := UpgradeRequired \<rparr>)
           else Inl InstallationInvalidTransition)
      | DisableInstallation \<Rightarrow>
          (if ai_desired_state self = InstallationEnabled
           then Inr (self\<lparr> ai_desired_state := InstallationDisabled \<rparr>)
           else Inl InstallationInvalidTransition)
      | EnableInstallation \<Rightarrow>
          (if ai_desired_state self = InstallationDisabled
           then Inr (self\<lparr> ai_desired_state := InstallationEnabled, ai_observed_state := Installing \<rparr>)
           else Inl InstallationInvalidTransition)
      | UpgradeDescriptor version hash \<Rightarrow>
          (if version < ai_descriptor_version self then Inl DescriptorVersionRegressed
           else if version = ai_descriptor_version self then
             (if hash = ai_descriptor_hash self then Inl NoChange else Inl DescriptorVersionConflict)
           else Inr (self\<lparr> ai_descriptor_version := version, ai_descriptor_hash := hash,
                  ai_observed_state := Installing \<rparr>))
      | AdvancePolicy revision \<Rightarrow>
          (if revision < ai_policy_revision self then Inl PolicyRevisionRegressed
           else if revision = ai_policy_revision self then Inl NoChange
           else Inr (self\<lparr> ai_policy_revision := revision \<rparr>))
      | RevokeInstallation \<Rightarrow> Inr (self\<lparr> ai_desired_state := InstallationRevoked \<rparr>))"

definition installation_apply ::
  "InstallationCommand \<Rightarrow> Revision \<Rightarrow> AgentInstallation \<Rightarrow> (InstallationError + Revision) \<times> AgentInstallation" where
  "installation_apply command expected_revision self =
     (if ai_revision self \<noteq> expected_revision then
        (Inl (InstallationRevisionConflict (ai_revision self) expected_revision), self)
      else if ai_desired_state self = InstallationRevoked then (Inl InstallationIsRevoked, self)
      else try_in self (installation_transition command self) (\<lambda>changed.
        try_in self (map_err (\<lambda>_. InstallationRevisionExhausted) (checked_next (ai_revision self)))
          (\<lambda>next_revision. (Inr next_revision, changed\<lparr> ai_revision := next_revision \<rparr>))))"

definition installation_snapshot :: "AgentInstallation \<Rightarrow> AgentInstallationSnapshot" where
  "installation_snapshot self =
     \<lparr> ais_tenant_id = ai_tenant_id self, ais_installation_id = ai_installation_id self,
       ais_agent_id = ai_agent_id self, ais_owner_id = ai_owner_id self,
       ais_agent_identity_id = ai_agent_identity_id self, ais_execution_mode = ai_execution_mode self,
       ais_descriptor_version = ai_descriptor_version self, ais_descriptor_hash = ai_descriptor_hash self,
       ais_policy_revision = ai_policy_revision self, ais_desired_state = ai_desired_state self,
       ais_observed_state = ai_observed_state self, ais_revision = ai_revision self \<rparr>"

definition installation_of_image :: "AgentInstallationSnapshot \<Rightarrow> AgentInstallation" where
  "installation_of_image s =
     \<lparr> ai_tenant_id = ais_tenant_id s, ai_installation_id = ais_installation_id s,
       ai_agent_id = ais_agent_id s, ai_owner_id = ais_owner_id s,
       ai_agent_identity_id = ais_agent_identity_id s, ai_execution_mode = ais_execution_mode s,
       ai_descriptor_version = ais_descriptor_version s, ai_descriptor_hash = ais_descriptor_hash s,
       ai_policy_revision = ais_policy_revision s, ai_desired_state = ais_desired_state s,
       ai_observed_state = ais_observed_state s, ai_revision = ais_revision s \<rparr>"

definition installation_from_snapshot ::
  "AgentInstallationSnapshot \<Rightarrow> AgentInstallationSnapshotError + AgentInstallation" where
  "installation_from_snapshot s =
     (if rev_get (ais_revision s) = rev_get Revision_INITIAL
         \<and> (ais_agent_identity_id s \<noteq> None \<or> rev_get (ais_policy_revision s) \<noteq> rev_get Revision_INITIAL
            \<or> ais_desired_state s \<noteq> InstallationEnabled \<or> ais_observed_state s \<noteq> Installing)
      then Inl InstallationUnreachableInitialState
      else Inr (installation_of_image s))"

section \<open>Agent devices\<close>

type_synonym DeviceCredentialFingerprint = "256 word"

datatype AgentDeviceState = DeviceProvisioning | DeviceActive | DeviceRevoked

datatype AgentDeviceCommand = ActivateDevice | RevokeDevice

record AgentDevice =
  ad_tenant_id :: TenantId
  ad_installation_id :: InstallationId
  ad_device_id :: AgentDeviceId
  ad_identity_device_id :: DeviceId
  ad_credential_fingerprint :: DeviceCredentialFingerprint
  ad_state :: AgentDeviceState
  ad_revision :: Revision

record AgentDeviceSnapshot =
  ads_tenant_id :: TenantId
  ads_installation_id :: InstallationId
  ads_agent_device_id :: AgentDeviceId
  ads_identity_device_id :: DeviceId
  ads_credential_fingerprint :: DeviceCredentialFingerprint
  ads_state :: AgentDeviceState
  ads_revision :: Revision

datatype AgentDeviceError =
  ScopeMismatch | DeviceRevisionConflict Revision Revision | InstallationNotUsable
| DeviceInvalidTransition | DeviceIsRevoked | DeviceRevisionExhausted

datatype AgentDeviceSnapshotError = DeviceUnreachableInitialState

definition device_enroll ::
  "AgentInstallation \<Rightarrow> AgentDeviceId \<Rightarrow> DeviceId \<Rightarrow> DeviceCredentialFingerprint
    \<Rightarrow> AgentDeviceError + AgentDevice" where
  "device_enroll installation agent_device_id identity_device_id fingerprint =
     (if ai_desired_state installation \<noteq> InstallationEnabled then Inl InstallationNotUsable
      else Inr \<lparr> ad_tenant_id = ai_tenant_id installation,
        ad_installation_id = ai_installation_id installation, ad_device_id = agent_device_id,
        ad_identity_device_id = identity_device_id, ad_credential_fingerprint = fingerprint,
        ad_state = DeviceProvisioning, ad_revision = Revision_INITIAL \<rparr>)"

definition credential_matches :: "AgentDevice \<Rightarrow> DeviceCredentialFingerprint \<Rightarrow> bool" where
  "credential_matches self candidate = (ad_credential_fingerprint self = candidate)"

definition device_next_state ::
  "AgentInstallation \<Rightarrow> AgentDeviceCommand \<Rightarrow> AgentDevice \<Rightarrow> AgentDeviceError + AgentDeviceState" where
  "device_next_state installation command self =
     (case command of
        ActivateDevice \<Rightarrow>
          (if ad_state self = DeviceProvisioning \<and> ai_desired_state installation = InstallationEnabled
           then Inr DeviceActive
           else if ai_desired_state installation \<noteq> InstallationEnabled then Inl InstallationNotUsable
           else Inl DeviceInvalidTransition)
      | RevokeDevice \<Rightarrow> Inr DeviceRevoked)"

definition device_apply ::
  "AgentInstallation \<Rightarrow> AgentDeviceCommand \<Rightarrow> Revision \<Rightarrow> AgentDevice
    \<Rightarrow> (AgentDeviceError + Revision) \<times> AgentDevice" where
  "device_apply installation command expected_revision self =
     (if ad_tenant_id self \<noteq> ai_tenant_id installation
         \<or> ad_installation_id self \<noteq> ai_installation_id installation then (Inl ScopeMismatch, self)
      else if ad_revision self \<noteq> expected_revision then
        (Inl (DeviceRevisionConflict (ad_revision self) expected_revision), self)
      else if ad_state self = DeviceRevoked then (Inl DeviceIsRevoked, self)
      else try_in self (device_next_state installation command self) (\<lambda>next_state.
        try_in self (map_err (\<lambda>_. DeviceRevisionExhausted) (checked_next (ad_revision self)))
          (\<lambda>next_revision. (Inr next_revision,
             self\<lparr> ad_state := next_state, ad_revision := next_revision \<rparr>))))"

definition device_snapshot :: "AgentDevice \<Rightarrow> AgentDeviceSnapshot" where
  "device_snapshot self =
     \<lparr> ads_tenant_id = ad_tenant_id self, ads_installation_id = ad_installation_id self,
       ads_agent_device_id = ad_device_id self, ads_identity_device_id = ad_identity_device_id self,
       ads_credential_fingerprint = ad_credential_fingerprint self, ads_state = ad_state self,
       ads_revision = ad_revision self \<rparr>"

definition device_of_image :: "AgentDeviceSnapshot \<Rightarrow> AgentDevice" where
  "device_of_image s =
     \<lparr> ad_tenant_id = ads_tenant_id s, ad_installation_id = ads_installation_id s,
       ad_device_id = ads_agent_device_id s, ad_identity_device_id = ads_identity_device_id s,
       ad_credential_fingerprint = ads_credential_fingerprint s, ad_state = ads_state s,
       ad_revision = ads_revision s \<rparr>"

definition device_from_snapshot :: "AgentDeviceSnapshot \<Rightarrow> AgentDeviceSnapshotError + AgentDevice" where
  "device_from_snapshot s =
     (let reachable = (case ads_state s of
            DeviceProvisioning \<Rightarrow> rev_get (ads_revision s) = 1
          | DeviceActive \<Rightarrow> rev_get (ads_revision s) = 2
          | DeviceRevoked \<Rightarrow> rev_get (ads_revision s) = 2 \<or> rev_get (ads_revision s) = 3)
      in if \<not> reachable then Inl DeviceUnreachableInitialState
         else Inr (device_of_image s))"

section \<open>Installations keep their identity and never go back\<close>

definition installation_inv :: "AgentInstallation \<Rightarrow> bool" where
  "installation_inv s \<longleftrightarrow> valid_revision (ai_revision s)
     \<and> (ai_revision s = Revision_INITIAL \<longrightarrow> ai_agent_identity_id s = None
          \<and> ai_policy_revision s = Revision_INITIAL \<and> ai_desired_state s = InstallationEnabled
          \<and> ai_observed_state s = Installing)"

text \<open>What later states of an installation keep of an earlier one.\<close>

definition installation_follows :: "AgentInstallation \<Rightarrow> AgentInstallation \<Rightarrow> bool" where
  "installation_follows s t \<longleftrightarrow>
     ai_tenant_id t = ai_tenant_id s \<and> ai_installation_id t = ai_installation_id s
     \<and> ai_agent_id t = ai_agent_id s \<and> ai_owner_id t = ai_owner_id s
     \<and> ai_execution_mode t = ai_execution_mode s
     \<and> is_none_or (ai_agent_identity_id s) (\<lambda>i. ai_agent_identity_id t = Some i)
     \<and> ai_descriptor_version s \<le> ai_descriptor_version t
     \<and> (ai_descriptor_version s = ai_descriptor_version t \<longrightarrow> ai_descriptor_hash s = ai_descriptor_hash t)
     \<and> ai_policy_revision s \<le> ai_policy_revision t
     \<and> (ai_desired_state s = InstallationRevoked \<longrightarrow> t = s)"

lemma installation_apply_Ok:
  "installation_apply c r s = (Inr x, t) \<longleftrightarrow> r = ai_revision s \<and> ai_desired_state s \<noteq> InstallationRevoked
     \<and> checked_next (ai_revision s) = Inr x
     \<and> (\<exists>u. installation_transition c s = Inr u \<and> t = u\<lparr> ai_revision := x \<rparr>)"
  by (auto simp: installation_apply_def result_simps)

lemma installation_apply_atomic: "atomic s (installation_apply c r s)"
  unfolding installation_apply_def by (intro atomic_intros)

lemma transition_follows:
  assumes "installation_transition c s = Inr t" "ai_desired_state s \<noteq> InstallationRevoked"
  shows "installation_follows s (t\<lparr> ai_revision := x \<rparr>)"
  using assms by (cases c) (auto simp: installation_transition_def installation_follows_def is_none_or_iff
      split: if_splits)

interpretation installation_calls:
  revisioned_aggregate ai_revision installation_apply InstallationRevisionConflict installation_inv
proof unfold_locales
  fix s t :: AgentInstallation and c r x
  assume "installation_inv s" "installation_apply c r s = (Inr x, t)"
  then show "installation_inv t \<and> checked_next (ai_revision s) = Inr (ai_revision t)"
    using next_revision_facts [of "ai_revision s" x] by (auto simp: installation_apply_Ok installation_inv_def)
next
  fix s t :: AgentInstallation and c r e
  assume "installation_apply c r s = (Inl e, t)"
  then show "t = s" using installation_apply_atomic [of s c r] atomicD by simp
qed (auto simp: installation_apply_def installation_inv_def)

text \<open>C30. Over any sequence of commands an installation keeps its owner, Agent, execution mode and, once
  bound, its Agent identity; descriptor version and policy revision never decrease, one descriptor
  version never names two contents, and a revoked installation never changes again.\<close>
theorem installation_history:
  assumes "installation_inv s"
  shows "installation_follows s (run_calls installation_apply crs s)"
proof (rule installation_calls.run_rel [OF assms])
  fix s t :: AgentInstallation and c r x
  assume "installation_apply c r s = (Inr x, t)"
  then show "installation_follows s t" using transition_follows by (auto simp: installation_apply_Ok)
next
  fix s t u :: AgentInstallation
  assume "installation_follows s t" "installation_follows t u"
  then show "installation_follows s u"
    by (cases "ai_agent_identity_id s") (auto simp: installation_follows_def)
qed (simp add: installation_follows_def is_none_or_iff)

lemma installation_images:
  "installation_of_image (installation_snapshot s) = s" "installation_snapshot (installation_of_image i) = i"
  by (simp_all add: installation_of_image_def installation_snapshot_def)

lemma installation_loads:
  assumes "valid_revision (ais_revision i)"
  shows "installation_from_snapshot i = Inr s \<longleftrightarrow> installation_inv s \<and> i = installation_snapshot s"
proof -
  have "installation_from_snapshot i = Inr s \<longleftrightarrow> installation_of_image i = s \<and> installation_inv (installation_of_image i)"
    using assms by (auto simp: installation_from_snapshot_def installation_inv_def installation_of_image_def
        revision_initial_iff)
  then show ?thesis by (metis installation_images)
qed

definition demo_installation :: AgentInstallation where
  "demo_installation = installation_new (UuidId 1) (UuidId 2) (PublicId 3) (PublicId 4) ConnectorManaged (Revision 1) 5"

lemma demo_installation_inv: "installation_inv demo_installation"
  by (simp add: installation_inv_def demo_installation_def installation_new_def)

theorem installation_history_witness:
  "installation_follows demo_installation
     (run_calls installation_apply [(BindAgentIdentity (PublicId 9), Revision 1)] demo_installation)"
  by (rule installation_history [OF demo_installation_inv])

section \<open>Devices: the durable images are exactly the reachable ones\<close>

inductive device_reachable :: "AgentDevice \<Rightarrow> bool" where
  enrolled: "device_enroll i a b f = Inr d \<Longrightarrow> device_reachable d"
| commanded: "device_reachable d \<Longrightarrow> device_apply i c r d = (x, e) \<Longrightarrow> device_reachable e"

definition device_inv :: "AgentDevice \<Rightarrow> bool" where
  "device_inv d = (case ad_state d of
       DeviceProvisioning \<Rightarrow> rev_get (ad_revision d) = 1
     | DeviceActive \<Rightarrow> rev_get (ad_revision d) = 2
     | DeviceRevoked \<Rightarrow> rev_get (ad_revision d) = 2 \<or> rev_get (ad_revision d) = 3)"

lemma device_apply_Ok:
  "device_apply i c r d = (Inr x, e) \<longleftrightarrow> ad_tenant_id d = ai_tenant_id i
     \<and> ad_installation_id d = ai_installation_id i \<and> r = ad_revision d \<and> ad_state d \<noteq> DeviceRevoked
     \<and> checked_next (ad_revision d) = Inr x
     \<and> (\<exists>n. device_next_state i c d = Inr n \<and> e = d\<lparr> ad_state := n, ad_revision := x \<rparr>)"
  by (auto simp: device_apply_def result_simps)

lemma device_apply_atomic: "atomic d (device_apply i c r d)"
  unfolding device_apply_def by (intro atomic_intros)

lemma device_apply_inv:
  assumes "device_inv d" "device_apply i c r d = (x, e)"
  shows "device_inv e"
proof (cases x)
  case (Inl err)
  then show ?thesis using device_apply_atomic [of d i c r] atomicD assms by force
next
  case (Inr v)
  then show ?thesis
    using assms by (cases c; cases "ad_state d")
      (auto simp: device_apply_Ok device_next_state_def device_inv_def checked_next_def split: if_splits)
qed

lemma device_reachable_inv: "device_reachable d \<Longrightarrow> device_inv d"
proof (induction rule: device_reachable.induct)
  case (enrolled i a b f d)
  then show ?case by (auto simp: device_enroll_def device_inv_def Revision_INITIAL_def split: if_splits)
qed (rule device_apply_inv)

definition home :: "AgentDevice \<Rightarrow> AgentInstallation" where
  "home d = installation_new (ad_tenant_id d) (ad_installation_id d) (PublicId 0) (PublicId 0) ConnectorManaged
     Revision_INITIAL 0"

lemma provisioned_reachable:
  "device_reachable (d\<lparr> ad_state := DeviceProvisioning, ad_revision := Revision 1 \<rparr>)"
  by (rule device_reachable.enrolled [of "home d" "ad_device_id d" "ad_identity_device_id d" "ad_credential_fingerprint d"])
    (simp add: device_enroll_def home_def installation_new_def Revision_INITIAL_def)

lemma device_apply_reachable:
  "device_reachable d \<Longrightarrow> device_apply i c r d = (Inr x, e) \<Longrightarrow> device_reachable e"
  by (rule device_reachable.commanded)

lemma device_inv_reachable:
  assumes "device_inv d"
  shows "device_reachable d"
proof -
  let ?p = "d\<lparr> ad_state := DeviceProvisioning, ad_revision := Revision 1 \<rparr>"
  let ?a = "d\<lparr> ad_state := DeviceActive, ad_revision := Revision 2 \<rparr>"
  note step = device_apply_Ok home_def installation_new_def device_next_state_def checked_next_def Revision_MAX_def
  have a: "device_reachable ?a"
    by (rule device_apply_reachable [OF provisioned_reachable [of d], of "home d" ActivateDevice "Revision 1" "Revision 2"])
      (simp add: step)
  have "device_reachable (d\<lparr> ad_state := DeviceRevoked, ad_revision := Revision 2 \<rparr>)"
    by (rule device_apply_reachable [OF provisioned_reachable [of d], of "home d" RevokeDevice "Revision 1" "Revision 2"])
      (simp add: step)
  moreover have "device_reachable (d\<lparr> ad_state := DeviceRevoked, ad_revision := Revision 3 \<rparr>)"
    by (rule device_apply_reachable [OF a, of "home d" RevokeDevice "Revision 2" "Revision 3"]) (simp add: step)
  ultimately have "device_reachable (d\<lparr> ad_state := st, ad_revision := Revision n \<rparr>)"
    if "device_inv (d\<lparr> ad_state := st, ad_revision := Revision n \<rparr>)" for st n
    using that a provisioned_reachable [of d] by (cases st) (auto simp: device_inv_def)
  from this [where st = "ad_state d" and n = "rev_get (ad_revision d)"] show ?thesis using assms by simp
qed

lemma device_images: "device_of_image (device_snapshot d) = d" "device_snapshot (device_of_image s) = s"
  by (simp_all add: device_of_image_def device_snapshot_def)

text \<open>C31. Rehydration of an Agent Device is exact: an image loads if and only if it is the image of a
  device that enrolment and commands can produce, and it loads as that device.\<close>
theorem device_loads_reachable: "device_from_snapshot s = Inr d \<longleftrightarrow> device_reachable d \<and> s = device_snapshot d"
proof -
  have "device_from_snapshot s = Inr d \<longleftrightarrow> device_of_image s = d \<and> device_inv (device_of_image s)"
    by (cases "ads_state s") (auto simp: device_from_snapshot_def device_inv_def device_of_image_def)
  then show ?thesis using device_reachable_inv device_inv_reachable by (metis device_images)
qed

end
