(* ===== verification/Agent_Grant.thy ===== *)
theory Agent_Grant
  imports Agent_Registry
begin

text \<open>
  The crate \<open>dtx-agent-registry\<close>, file \<open>grant.rs\<close>: the grant head that authorises an installed
  Agent in one conversation, with its version fence and its history of lifecycle identifiers.
\<close>

section \<open>Data\<close>

datatype AgentConversationPermission =
  ReadFutureMessages | ReadSharedHistory | ReadAttachments | SendMessages
| CreateChannelComments | InvokeTools | StartServerJobs

record AgentConversationPermissions =
  acp_permissions :: "AgentConversationPermission fset"
  acp_cloud_connections :: "CloudConnectionId fset"

datatype TriggerPolicy = MentionOnly | ExplicitCommand | ManualOnly | AllMessages

type_synonym PrivacyPolicyDigest = "256 word"

datatype PermissionExpansionConfirmation = ExpansionConfirmed

datatype AllMessagesConfirmation = AllMessagesConfirmed

record ConversationGrantUpdate =
  gu_permissions :: AgentConversationPermissions
  gu_trigger_policy :: TriggerPolicy
  gu_privacy_policy_hash :: PrivacyPolicyDigest
  gu_approved_by_device :: DeviceId
  gu_approved_at_ms :: int
  gu_expires_at_ms :: "int option"

datatype ConversationGrantCommand =
  GrantUpdate ConversationGrantUpdate "PermissionExpansionConfirmation option" "AllMessagesConfirmation option"
| GrantRevoke int
| GrantRegrant GrantId ConversationGrantUpdate PermissionExpansionConfirmation "AllMessagesConfirmation option"

record ConversationGrant =
  cg_tenant_id :: TenantId
  cg_grant_id :: GrantId
  cg_conversation_id :: ConversationId
  cg_installation_id :: InstallationId
  cg_permissions :: AgentConversationPermissions
  cg_trigger_policy :: TriggerPolicy
  cg_privacy_policy_hash :: PrivacyPolicyDigest
  cg_grant_version :: Revision
  cg_approved_by_device :: DeviceId
  cg_approved_at_ms :: int
  cg_expires_at_ms :: "int option"
  cg_revoked_at_ms :: "int option"
  cg_used_grant_ids :: "GrantId fset"

record ConversationGrantSnapshot =
  cgs_tenant_id :: TenantId
  cgs_grant_id :: GrantId
  cgs_conversation_id :: ConversationId
  cgs_installation_id :: InstallationId
  cgs_permissions :: AgentConversationPermissions
  cgs_trigger_policy :: TriggerPolicy
  cgs_privacy_policy_hash :: PrivacyPolicyDigest
  cgs_grant_version :: Revision
  cgs_approved_by_device :: DeviceId
  cgs_approved_at_ms :: int
  cgs_expires_at_ms :: "int option"
  cgs_revoked_at_ms :: "int option"
  cgs_used_grant_ids :: "GrantId fset"

datatype ConversationGrantError =
  GrantScopeMismatch | VersionConflict Revision Revision | GrantInstallationNotUsable
| EmptyPermissions | InvalidExpiry | InvalidRevocationTime | InvalidApprovalTime
| PermissionExpansionConfirmationRequired | AllMessagesConfirmationRequired
| GrantInvalidTransition | GrantIdReused | GrantNoChange | GrantIsRevoked | VersionExhausted

datatype ConversationGrantSnapshotError =
  SnapshotEmptyPermissions | SnapshotInvalidExpiry | SnapshotInvalidRevocationTime
| CurrentGrantIdMissing | ImpossibleVersionHistory | GrantUnreachableInitialState

section \<open>Operations\<close>

definition permissions_none :: AgentConversationPermissions where
  "permissions_none = \<lparr> acp_permissions = {||}, acp_cloud_connections = {||} \<rparr>"

definition permissions_with ::
  "AgentConversationPermissions \<Rightarrow> AgentConversationPermission \<Rightarrow> AgentConversationPermissions" where
  "permissions_with self permission = self\<lparr> acp_permissions := finsert permission (acp_permissions self) \<rparr>"

definition permissions_with_cloud_connection ::
  "AgentConversationPermissions \<Rightarrow> CloudConnectionId \<Rightarrow> AgentConversationPermissions" where
  "permissions_with_cloud_connection self c =
     self\<lparr> acp_cloud_connections := finsert c (acp_cloud_connections self) \<rparr>"

definition permissions_contains :: "AgentConversationPermissions \<Rightarrow> AgentConversationPermission \<Rightarrow> bool" where
  "permissions_contains self permission = (permission |\<in>| acp_permissions self)"

definition permissions_is_empty :: "AgentConversationPermissions \<Rightarrow> bool" where
  "permissions_is_empty self = (acp_permissions self = {||} \<and> acp_cloud_connections self = {||})"

definition permissions_is_subset_of ::
  "AgentConversationPermissions \<Rightarrow> AgentConversationPermissions \<Rightarrow> bool" where
  "permissions_is_subset_of self other =
     (acp_permissions self |\<subseteq>| acp_permissions other
      \<and> acp_cloud_connections self |\<subseteq>| acp_cloud_connections other)"

definition ensure_installation_usable :: "AgentInstallation \<Rightarrow> ConversationGrantError + unit" where
  "ensure_installation_usable installation =
     (if ai_desired_state installation = InstallationEnabled then Inr () else Inl GrantInstallationNotUsable)"

definition validate_grant_facts ::
  "AgentConversationPermissions \<Rightarrow> TriggerPolicy \<Rightarrow> int \<Rightarrow> int option \<Rightarrow> ConversationGrantError + unit" where
  "validate_grant_facts permissions trigger_policy approved_at_ms expires_at_ms =
     (if permissions_is_empty permissions then Inl EmptyPermissions
      else if is_some_and expires_at_ms (\<lambda>e. e \<le> approved_at_ms) then Inl InvalidExpiry
      else Inr ())"

definition grant_issue ::
  "AgentInstallation \<Rightarrow> GrantId \<Rightarrow> ConversationId \<Rightarrow> AgentConversationPermissions \<Rightarrow> TriggerPolicy
    \<Rightarrow> PrivacyPolicyDigest \<Rightarrow> DeviceId \<Rightarrow> int \<Rightarrow> int option \<Rightarrow> AllMessagesConfirmation option
    \<Rightarrow> ConversationGrantError + ConversationGrant" where
  "grant_issue installation grant_id conversation_id permissions trigger_policy hash device
      approved_at_ms expires_at_ms all_messages =
     res_bind (ensure_installation_usable installation) (\<lambda>_.
     res_bind (validate_grant_facts permissions trigger_policy approved_at_ms expires_at_ms) (\<lambda>_.
       if trigger_policy = AllMessages \<and> all_messages = None then Inl AllMessagesConfirmationRequired
       else Inr \<lparr> cg_tenant_id = ai_tenant_id installation, cg_grant_id = grant_id,
         cg_conversation_id = conversation_id, cg_installation_id = ai_installation_id installation,
         cg_permissions = permissions, cg_trigger_policy = trigger_policy,
         cg_privacy_policy_hash = hash, cg_grant_version = Revision_INITIAL,
         cg_approved_by_device = device, cg_approved_at_ms = approved_at_ms,
         cg_expires_at_ms = expires_at_ms, cg_revoked_at_ms = None,
         cg_used_grant_ids = {|grant_id|} \<rparr>))"

definition grant_scope_matches :: "ConversationGrant \<Rightarrow> AgentInstallation \<Rightarrow> bool" where
  "grant_scope_matches self installation =
     (cg_tenant_id self = ai_tenant_id installation
      \<and> cg_installation_id self = ai_installation_id installation)"

definition is_active_for :: "ConversationGrant \<Rightarrow> AgentInstallation \<Rightarrow> int \<Rightarrow> bool" where
  "is_active_for self installation now_ms =
     (grant_scope_matches self installation \<and> ai_desired_state installation = InstallationEnabled
      \<and> cg_revoked_at_ms self = None \<and> now_ms \<ge> cg_approved_at_ms self
      \<and> is_none_or (cg_expires_at_ms self) (\<lambda>expires_at. now_ms < expires_at))"

definition authorizes_version_for :: "ConversationGrant \<Rightarrow> AgentInstallation \<Rightarrow> int \<Rightarrow> Revision \<Rightarrow> bool" where
  "authorizes_version_for self installation now_ms captured_version =
     (cg_grant_version self = captured_version \<and> is_active_for self installation now_ms)"

definition matches_update :: "ConversationGrant \<Rightarrow> ConversationGrantUpdate \<Rightarrow> bool" where
  "matches_update self update =
     (cg_permissions self = gu_permissions update \<and> cg_trigger_policy self = gu_trigger_policy update
      \<and> cg_privacy_policy_hash self = gu_privacy_policy_hash update
      \<and> cg_approved_by_device self = gu_approved_by_device update
      \<and> cg_approved_at_ms self = gu_approved_at_ms update \<and> cg_expires_at_ms self = gu_expires_at_ms update)"

definition replace_facts :: "ConversationGrantUpdate \<Rightarrow> ConversationGrant \<Rightarrow> ConversationGrant" where
  "replace_facts update self =
     self\<lparr> cg_permissions := gu_permissions update, cg_trigger_policy := gu_trigger_policy update,
       cg_privacy_policy_hash := gu_privacy_policy_hash update,
       cg_approved_by_device := gu_approved_by_device update,
       cg_approved_at_ms := gu_approved_at_ms update, cg_expires_at_ms := gu_expires_at_ms update,
       cg_revoked_at_ms := None \<rparr>"

definition validate_update :: "ConversationGrantUpdate \<Rightarrow> ConversationGrantError + unit" where
  "validate_update update = validate_grant_facts (gu_permissions update) (gu_trigger_policy update)
     (gu_approved_at_ms update) (gu_expires_at_ms update)"

definition grant_transition ::
  "AgentInstallation \<Rightarrow> ConversationGrantCommand \<Rightarrow> ConversationGrant
    \<Rightarrow> ConversationGrantError + ConversationGrant" where
  "grant_transition installation command self =
     (case command of
        GrantUpdate update permission_expansion all_messages \<Rightarrow>
          res_bind (ensure_installation_usable installation) (\<lambda>_.
          if cg_revoked_at_ms self \<noteq> None then Inl GrantIsRevoked
          else res_bind (validate_update update) (\<lambda>_.
            if gu_approved_at_ms update \<le> cg_approved_at_ms self then Inl InvalidApprovalTime
            else if \<not> permissions_is_subset_of (gu_permissions update) (cg_permissions self)
                \<and> permission_expansion = None then Inl PermissionExpansionConfirmationRequired
            else if gu_trigger_policy update = AllMessages \<and> cg_trigger_policy self \<noteq> AllMessages
                \<and> all_messages = None then Inl AllMessagesConfirmationRequired
            else if matches_update self update then Inl GrantNoChange
            else Inr (replace_facts update self)))
      | GrantRevoke revoked_at_ms \<Rightarrow>
          (if cg_revoked_at_ms self \<noteq> None then Inl GrantIsRevoked
           else if revoked_at_ms < cg_approved_at_ms self then Inl InvalidRevocationTime
           else Inr (self\<lparr> cg_revoked_at_ms := Some revoked_at_ms \<rparr>))
      | GrantRegrant grant_id update _ all_messages \<Rightarrow>
          res_bind (ensure_installation_usable installation) (\<lambda>_.
          res_bind (ok_or GrantInvalidTransition (cg_revoked_at_ms self)) (\<lambda>revoked_at_ms.
          if grant_id |\<in>| cg_used_grant_ids self then Inl GrantIdReused
          else res_bind (validate_update update) (\<lambda>_.
            if gu_approved_at_ms update \<le> revoked_at_ms then Inl InvalidApprovalTime
            else if gu_trigger_policy update = AllMessages \<and> all_messages = None then
              Inl AllMessagesConfirmationRequired
            else Inr (replace_facts update (self\<lparr>
              cg_used_grant_ids := finsert grant_id (cg_used_grant_ids self),
              cg_grant_id := grant_id \<rparr>))))))"

definition grant_apply ::
  "AgentInstallation \<Rightarrow> ConversationGrantCommand \<Rightarrow> Revision \<Rightarrow> ConversationGrant
    \<Rightarrow> (ConversationGrantError + Revision) \<times> ConversationGrant" where
  "grant_apply installation command expected_version self =
     (if \<not> grant_scope_matches self installation then (Inl GrantScopeMismatch, self)
      else if cg_grant_version self \<noteq> expected_version then
        (Inl (VersionConflict (cg_grant_version self) expected_version), self)
      else try_in self (map_err (\<lambda>_. VersionExhausted) (checked_next (cg_grant_version self)))
        (\<lambda>next_version. try_in self (grant_transition installation command self) (\<lambda>changed.
          (Inr next_version, changed\<lparr> cg_grant_version := next_version \<rparr>))))"

section \<open>Durable image\<close>

definition grant_snapshot :: "ConversationGrant \<Rightarrow> ConversationGrantSnapshot" where
  "grant_snapshot self =
     \<lparr> cgs_tenant_id = cg_tenant_id self, cgs_grant_id = cg_grant_id self,
       cgs_conversation_id = cg_conversation_id self, cgs_installation_id = cg_installation_id self,
       cgs_permissions = cg_permissions self, cgs_trigger_policy = cg_trigger_policy self,
       cgs_privacy_policy_hash = cg_privacy_policy_hash self, cgs_grant_version = cg_grant_version self,
       cgs_approved_by_device = cg_approved_by_device self, cgs_approved_at_ms = cg_approved_at_ms self,
       cgs_expires_at_ms = cg_expires_at_ms self, cgs_revoked_at_ms = cg_revoked_at_ms self,
       cgs_used_grant_ids = cg_used_grant_ids self \<rparr>"

definition grant_of_image :: "ConversationGrantSnapshot \<Rightarrow> ConversationGrant" where
  "grant_of_image s =
     \<lparr> cg_tenant_id = cgs_tenant_id s, cg_grant_id = cgs_grant_id s,
       cg_conversation_id = cgs_conversation_id s, cg_installation_id = cgs_installation_id s,
       cg_permissions = cgs_permissions s, cg_trigger_policy = cgs_trigger_policy s,
       cg_privacy_policy_hash = cgs_privacy_policy_hash s, cg_grant_version = cgs_grant_version s,
       cg_approved_by_device = cgs_approved_by_device s, cg_approved_at_ms = cgs_approved_at_ms s,
       cg_expires_at_ms = cgs_expires_at_ms s, cg_revoked_at_ms = cgs_revoked_at_ms s,
       cg_used_grant_ids = cgs_used_grant_ids s \<rparr>"

text \<open>
  The lower bound on the version: every identifier but the last was revoked and replaced. The
  arithmetic is that of \<open>u64\<close>, whose checked operations end in an error.
\<close>

definition minimum_version :: "nat \<Rightarrow> bool \<Rightarrow> nat option" where
  "minimum_version id_count revoked =
     (if 2 * id_count \<ge> 2 ^ 64 then None
      else if 2 * id_count < 1 then None
      else if 2 * id_count - 1 + of_bool revoked \<ge> 2 ^ 64 then None
      else Some (2 * id_count - 1 + of_bool revoked))"

definition check_version_history :: "nat \<Rightarrow> bool \<Rightarrow> Revision \<Rightarrow> ConversationGrantSnapshotError + unit" where
  "check_version_history id_count revoked version =
     (if id_count \<ge> 2 ^ 64 then Inl ImpossibleVersionHistory
      else res_bind (ok_or ImpossibleVersionHistory (minimum_version id_count revoked)) (\<lambda>least.
        if unat (rev_get version) < least then Inl ImpossibleVersionHistory
        else if rev_get version = rev_get Revision_INITIAL \<and> (id_count \<noteq> 1 \<or> revoked) then
          Inl GrantUnreachableInitialState
        else Inr ()))"

definition grant_from_snapshot ::
  "ConversationGrantSnapshot \<Rightarrow> ConversationGrantSnapshotError + ConversationGrant" where
  "grant_from_snapshot s =
     (if permissions_is_empty (cgs_permissions s) then Inl SnapshotEmptyPermissions
      else if is_some_and (cgs_expires_at_ms s) (\<lambda>e. e \<le> cgs_approved_at_ms s) then Inl SnapshotInvalidExpiry
      else if is_some_and (cgs_revoked_at_ms s) (\<lambda>t. t < cgs_approved_at_ms s) then
        Inl SnapshotInvalidRevocationTime
      else if cgs_grant_id s |\<notin>| cgs_used_grant_ids s then Inl CurrentGrantIdMissing
      else res_bind (check_version_history (fcard (cgs_used_grant_ids s)) (cgs_revoked_at_ms s \<noteq> None)
          (cgs_grant_version s)) (\<lambda>_. Inr (grant_of_image s)))"

section \<open>Invariant\<close>

text \<open>
  A grant head as the operations leave it: it carries authority, its times are ordered, its current
  identifier is recorded, and the version leaves room for the revocation and the replacement of
  every earlier identifier.
\<close>

definition grant_inv :: "ConversationGrant \<Rightarrow> bool" where
  "grant_inv g \<longleftrightarrow>
     \<not> permissions_is_empty (cg_permissions g)
     \<and> is_none_or (cg_expires_at_ms g) (\<lambda>e. cg_approved_at_ms g < e)
     \<and> is_none_or (cg_revoked_at_ms g) (\<lambda>t. cg_approved_at_ms g \<le> t)
     \<and> cg_grant_id g |\<in>| cg_used_grant_ids g
     \<and> 2 * fcard (cg_used_grant_ids g) + of_bool (cg_revoked_at_ms g \<noteq> None) \<le> unat (rev_get (cg_grant_version g)) + 1
     \<and> valid_revision (cg_grant_version g)"

lemma validate_update_Ok:
  "validate_update u = Inr x \<longleftrightarrow> \<not> permissions_is_empty (gu_permissions u)
     \<and> is_none_or (gu_expires_at_ms u) (\<lambda>e. gu_approved_at_ms u < e)"
  by (cases "gu_expires_at_ms u") (auto simp: validate_update_def validate_grant_facts_def)

lemma usable_Ok: "ensure_installation_usable i = Inr x \<longleftrightarrow> ai_desired_state i = InstallationEnabled"
  by (simp add: ensure_installation_usable_def)

lemma grant_apply_Ok:
  "grant_apply i c r g = (Inr x, t) \<longleftrightarrow> grant_scope_matches g i \<and> r = cg_grant_version g
     \<and> checked_next (cg_grant_version g) = Inr x
     \<and> (\<exists>u. grant_transition i c g = Inr u \<and> t = u\<lparr> cg_grant_version := x \<rparr>)"
  by (auto simp: grant_apply_def result_simps)

lemma grant_apply_atomic: "atomic g (grant_apply i c r g)"
  unfolding grant_apply_def by (intro atomic_intros)

lemma update_Ok:
  "grant_transition i (GrantUpdate u p m) g = Inr t \<longleftrightarrow> ai_desired_state i = InstallationEnabled
     \<and> cg_revoked_at_ms g = None \<and> validate_update u = Inr () \<and> cg_approved_at_ms g < gu_approved_at_ms u
     \<and> (permissions_is_subset_of (gu_permissions u) (cg_permissions g) \<or> p \<noteq> None)
     \<and> (gu_trigger_policy u = AllMessages \<longrightarrow> cg_trigger_policy g = AllMessages \<or> m \<noteq> None)
     \<and> t = replace_facts u g"
  by (auto simp: grant_transition_def res_bind_Ok_iff usable_Ok matches_update_def)

lemma revoke_Ok:
  "grant_transition i (GrantRevoke at) g = Inr t \<longleftrightarrow> cg_revoked_at_ms g = None \<and> cg_approved_at_ms g \<le> at
     \<and> t = g\<lparr> cg_revoked_at_ms := Some at \<rparr>"
  by (auto simp: grant_transition_def)

lemma regrant_Ok:
  "grant_transition i (GrantRegrant k u p m) g = Inr t \<longleftrightarrow> ai_desired_state i = InstallationEnabled
     \<and> (\<exists>at. cg_revoked_at_ms g = Some at \<and> at < gu_approved_at_ms u) \<and> k |\<notin>| cg_used_grant_ids g
     \<and> validate_update u = Inr () \<and> (gu_trigger_policy u = AllMessages \<longrightarrow> m \<noteq> None)
     \<and> t = replace_facts u (g\<lparr> cg_used_grant_ids := finsert k (cg_used_grant_ids g), cg_grant_id := k \<rparr>)"
  by (cases "cg_revoked_at_ms g") (auto simp: grant_transition_def res_bind_Ok_iff usable_Ok)

lemmas transition_Ok = update_Ok revoke_Ok regrant_Ok

lemma grant_apply_inv:
  assumes inv: "grant_inv g" and ok: "grant_apply i c r g = (Inr x, t)"
  shows "grant_inv t"
proof -
  from ok obtain u where n: "checked_next (cg_grant_version g) = Inr x"
    and u: "grant_transition i c g = Inr u" and t: "t = u\<lparr> cg_grant_version := x \<rparr>"
    by (auto simp: grant_apply_Ok)
  have v: "valid_revision (cg_grant_version g)" using inv by (simp add: grant_inv_def)
  have "unat (rev_get x) = unat (rev_get (cg_grant_version g)) + 1" "valid_revision x"
    by (rule checked_next_succ [OF n v])+
  with inv u show ?thesis unfolding t
    by (cases c) (auto simp: transition_Ok grant_inv_def replace_facts_def validate_update_Ok fcard_finsert_if)
qed

lemma grant_issue_inv: "grant_issue i k w p tp h d at ex m = Inr g \<Longrightarrow> grant_inv g"
  by (cases ex) (auto simp: grant_issue_def res_bind_Ok_iff validate_grant_facts_def grant_inv_def
      fcard_finsert_if Revision_INITIAL_def valid_revision_initial [unfolded Revision_INITIAL_def] split: if_splits)

section \<open>Calls\<close>

text \<open>A call carries the installation as it stands when the call is made.\<close>

datatype GrantCall = GrantCall AgentInstallation ConversationGrantCommand Revision

fun grant_call :: "GrantCall \<Rightarrow> ConversationGrant \<Rightarrow> (ConversationGrantError + Revision) \<times> ConversationGrant" where
  "grant_call (GrantCall i c r) g = grant_apply i c r g"

definition grant_step :: "ConversationGrant \<Rightarrow> ConversationGrant \<Rightarrow> bool" where
  "grant_step g t = (\<exists>i c r x. grant_apply i c r g = (Inr x, t))"

interpretation grant_calls: stepping_calls grant_call grant_step grant_inv
proof unfold_locales
  fix s t :: ConversationGrant and c e
  assume "grant_call c s = (Inl e, t)"
  then show "t = s" using atomic_Err [OF grant_apply_atomic] by (cases c) simp
next
  fix s t :: ConversationGrant and c x
  assume "grant_call c s = (Inr x, t)"
  then show "t = s \<or> grant_step s t" by (cases c) (auto simp: grant_step_def)
qed (auto simp: grant_step_def intro: grant_apply_inv)

lemma step_version: "grant_inv g \<Longrightarrow> grant_step g t \<Longrightarrow> cg_grant_version g < cg_grant_version t"
  using checked_next_succ(3) by (auto simp: grant_step_def grant_apply_Ok grant_inv_def)

text \<open>C32. A Run that captured a grant version is fenced by the next change of the grant: after one
  successful command on the grant, no later state of it authorises the captured version, whatever
  the installation and the time.\<close>
theorem grant_version_fenced:
  assumes "grant_inv g" "grant_call c g = (Inr x, t)"
  shows "\<not> authorizes_version_for (run grant_call cs t) i now (cg_grant_version g)"
proof -
  have step: "grant_step g t" using assms(2) by (cases c) (auto simp: grant_step_def)
  have inv: "grant_inv t" by (rule grant_calls.keeps [OF assms(1) step])
  have "cg_grant_version t \<le> cg_grant_version (run grant_call cs t)"
    by (rule grant_calls.run_rel [OF inv]) (auto dest: step_version)
  with step_version [OF assms(1) step] show ?thesis by (auto simp: authorizes_version_for_def)
qed

text \<open>
  A call is unconfirmed when it carries neither kind of confirmation; a replacement grant always
  carries one.
\<close>

fun unconfirmed :: "GrantCall \<Rightarrow> bool" where
  "unconfirmed (GrantCall i (GrantUpdate u p m) r) = (p = None \<and> m = None)"
| "unconfirmed (GrantCall i (GrantRevoke at) r) = True"
| "unconfirmed (GrantCall i (GrantRegrant k u p m) r) = False"

definition no_wider :: "ConversationGrant \<Rightarrow> ConversationGrant \<Rightarrow> bool" where
  "no_wider g t \<longleftrightarrow> permissions_is_subset_of (cg_permissions t) (cg_permissions g)
     \<and> (cg_trigger_policy t = AllMessages \<longrightarrow> cg_trigger_policy g = AllMessages)
     \<and> (cg_revoked_at_ms g \<noteq> None \<longrightarrow> cg_revoked_at_ms t \<noteq> None) \<and> cg_grant_id t = cg_grant_id g"

lemma no_wider_refl: "no_wider g g"
  by (simp add: no_wider_def permissions_is_subset_of_def)

lemma no_wider_trans: "no_wider g t \<Longrightarrow> no_wider t u \<Longrightarrow> no_wider g u"
  by (auto simp: no_wider_def permissions_is_subset_of_def)

lemma unconfirmed_call: "unconfirmed c \<Longrightarrow> no_wider g (snd (grant_call c g))"
proof (induction c rule: unconfirmed.induct)
  case (1 i u p m r)
  then show ?case
  proof (cases "fst (grant_apply i (GrantUpdate u p m) r g)")
    case (Inl e)
    then have "snd (grant_apply i (GrantUpdate u p m) r g) = g" by (metis atomicD grant_apply_atomic prod.collapse)
    then show ?thesis by (simp add: no_wider_refl)
  next
    case (Inr x)
    then have "grant_apply i (GrantUpdate u p m) r g = (Inr x, snd (grant_apply i (GrantUpdate u p m) r g))"
      by (metis prod.collapse)
    then show ?thesis using 1 by (auto simp: grant_apply_Ok update_Ok no_wider_def replace_facts_def)
  qed
next
  case (2 i at r)
  then show ?case
    by (cases "fst (grant_apply i (GrantRevoke at) r g)")
      (auto simp: grant_apply_def no_wider_refl grant_transition_def try_in_def map_err_def no_wider_def
        permissions_is_subset_of_def split: sum.splits if_splits)
qed simp

text \<open>C33. Authority never widens without a confirmation: after any sequence of calls that carry none, a
  grant has no permission and no cloud connection it did not have before, has not switched to
  triggering on all messages, has the same identifier, and is still revoked if it was.\<close>
theorem grant_no_silent_expansion:
  assumes "list_all unconfirmed cs"
  shows "no_wider g (run grant_call cs g)"
  using assms by (induction cs arbitrary: g) (auto simp: no_wider_refl intro: no_wider_trans unconfirmed_call)

section \<open>Rehydration\<close>

lemma grant_images: "grant_of_image (grant_snapshot g) = g" "grant_snapshot (grant_of_image s) = s"
  by (simp_all add: grant_of_image_def grant_snapshot_def)

lemma version_bound: "valid_revision r \<Longrightarrow> unat (rev_get r) < 2 ^ 63"
  using Revision_MAX_val by (simp add: valid_revision_def word_le_nat_alt)

lemma check_version_history_Ok:
  assumes "valid_revision r" "0 < n"
  shows "check_version_history n b r = Inr u \<longleftrightarrow> 2 * n + of_bool b \<le> unat (rev_get r) + 1"
proof -
  have v: "unat (rev_get r) < 2 ^ 63" by (rule version_bound [OF assms(1)])
  have one: "rev_get r = rev_get Revision_INITIAL \<longleftrightarrow> unat (rev_get r) = 1"
    by (simp add: Revision_INITIAL_def word_unat_eq_iff)
  consider "2 ^ 64 \<le> n" | "n < 2 ^ 64" "2 ^ 64 \<le> 2 * n" | "2 * n < 2 ^ 64" by linarith
  then show ?thesis
  proof cases
    case 3
    then have "minimum_version n b = Some (2 * n - 1 + of_bool b)"
      using assms(2) by (cases b) (auto simp: minimum_version_def)
    then show ?thesis using assms(2) 3 by (cases b) (auto simp: check_version_history_def one)
  qed (use v in \<open>auto simp: check_version_history_def minimum_version_def\<close>)
qed

text \<open>C34. Rehydration of a grant accepts exactly the images of grants that satisfy the invariant of the
  operations and returns the grant that was persisted.\<close>
theorem grant_rehydrates:
  assumes "valid_revision (cgs_grant_version s)"
  shows "grant_from_snapshot s = Inr g \<longleftrightarrow> grant_inv g \<and> s = grant_snapshot g"
proof -
  have n: "cgs_grant_id s |\<in>| cgs_used_grant_ids s \<Longrightarrow> 0 < fcard (cgs_used_grant_ids s)"
    by (metis fcard_0_eq fempty_iff gr0I)
  have "grant_from_snapshot s = Inr g \<longleftrightarrow> grant_of_image s = g \<and> grant_inv (grant_of_image s)"
  proof (cases "cgs_grant_id s |\<in>| cgs_used_grant_ids s")
    case True
    show ?thesis
      using assms True check_version_history_Ok [OF assms n [OF True]]
      by (cases "cgs_expires_at_ms s"; cases "cgs_revoked_at_ms s")
        (auto simp: grant_from_snapshot_def res_bind_Ok_iff grant_inv_def grant_of_image_def not_le not_less)
  next
    case False
    then show ?thesis by (auto simp: grant_from_snapshot_def grant_inv_def grant_of_image_def)
  qed
  then show ?thesis by (metis grant_images)
qed

section \<open>An error that cannot occur\<close>

text \<open>
  The approval time of an update has to be later than the current one, so an update that equals the
  current facts is refused before the comparison: \<open>NoChange\<close> is never returned.
\<close>

lemma grant_no_change_unreachable: "fst (grant_apply i c r g) \<noteq> Inl GrantNoChange"
proof -
  have "grant_transition i c g \<noteq> Inl GrantNoChange"
    by (cases c; cases "cg_revoked_at_ms g") (auto simp: grant_transition_def res_bind_def validate_update_def validate_grant_facts_def
        ensure_installation_usable_def matches_update_def split: sum.splits)
  then show ?thesis
    by (cases "grant_transition i c g") (auto simp: grant_apply_def try_in_def map_err_def split: sum.splits)
qed

section \<open>Concrete grants\<close>

definition demo_grant :: ConversationGrant where
  "demo_grant = \<lparr> cg_tenant_id = UuidId 1, cg_grant_id = UuidId 10, cg_conversation_id = UuidId 11,
     cg_installation_id = UuidId 2,
     cg_permissions = permissions_with permissions_none SendMessages, cg_trigger_policy = MentionOnly,
     cg_privacy_policy_hash = 12, cg_grant_version = Revision 1, cg_approved_by_device = UuidId 13,
     cg_approved_at_ms = 100, cg_expires_at_ms = None, cg_revoked_at_ms = None,
     cg_used_grant_ids = {|UuidId 10|} \<rparr>"

lemma demo_grant_issued:
  "grant_issue demo_installation (UuidId 10) (UuidId 11) (permissions_with permissions_none SendMessages)
     MentionOnly 12 (UuidId 13) 100 None None = Inr demo_grant"
  by (simp add: grant_issue_def ensure_installation_usable_def validate_grant_facts_def permissions_is_empty_def
      permissions_with_def permissions_none_def demo_grant_def demo_installation_def installation_new_def
      Revision_INITIAL_def)

lemmas demo_grant_inv = grant_issue_inv [OF demo_grant_issued]

lemmas grant_eval = grant_apply_def grant_scope_matches_def grant_transition_def demo_grant_def
  demo_installation_def installation_new_def checked_next_def Revision_MAX_def

theorem grant_version_fenced_witness:
  "authorizes_version_for demo_grant demo_installation 200 (Revision 1)
   \<and> \<not> authorizes_version_for (snd (grant_call (GrantCall demo_installation (GrantRevoke 150) (Revision 1)) demo_grant))
        demo_installation 200 (Revision 1)"
proof
  show "authorizes_version_for demo_grant demo_installation 200 (Revision 1)"
    by (simp add: authorizes_version_for_def is_active_for_def grant_eval)
  have "grant_call (GrantCall demo_installation (GrantRevoke 150) (Revision 1)) demo_grant
      = (Inr (Revision 2), snd (grant_call (GrantCall demo_installation (GrantRevoke 150) (Revision 1)) demo_grant))"
    by (simp add: grant_eval)
  from grant_version_fenced [OF demo_grant_inv this, of "[]"]
  show "\<not> authorizes_version_for (snd (grant_call (GrantCall demo_installation (GrantRevoke 150) (Revision 1)) demo_grant))
      demo_installation 200 (Revision 1)"
    by (simp add: demo_grant_def)
qed

theorem grant_no_silent_expansion_witness:
  "no_wider demo_grant (run grant_call [GrantCall demo_installation (GrantRevoke 150) (Revision 1)] demo_grant)"
  by (rule grant_no_silent_expansion) simp

theorem grant_rehydrates_witness: "grant_from_snapshot (grant_snapshot demo_grant) = Inr demo_grant"
  using grant_rehydrates [of "grant_snapshot demo_grant" demo_grant] demo_grant_inv
  by (simp add: grant_inv_def grant_snapshot_def)

end
