(* ===== verification/Agent_Definition.thy ===== *)
theory Agent_Definition
  imports Agent_Registry "HOL-Library.Product_Lexorder"
begin

text \<open>
  The crate \<open>dtx-agent-registry\<close>, file \<open>definition.rs\<close>: the registry of verified Agent descriptors,
  with one immutable record per version and one head per Agent.
\<close>

section \<open>Data and operations\<close>

record VerifiedAgentDefinition =
  vd_agent_id :: AgentId
  vd_publisher_id :: IdentityId
  vd_version :: Revision
  vd_descriptor_hash :: DescriptorDigest
  vd_expires_at_ms :: int

record AgentDefinitionRegistry =
  dr_heads :: "(AgentId, Revision) fmap"
  dr_versions :: "(AgentId \<times> Revision, VerifiedAgentDefinition) fmap"

datatype AgentDefinitionAdmission =
  Advanced "Revision option" VerifiedAgentDefinition
| Duplicate VerifiedAgentDefinition

datatype AgentDefinitionError =
  DescriptorExpired | PublisherChanged | VersionRegressed Revision Revision | VersionContentConflict

datatype AgentDefinitionSnapshotError = DuplicateVersion | SnapshotPublisherChanged | MissingHead

definition registry_new :: AgentDefinitionRegistry where
  "registry_new = \<lparr> dr_heads = fmempty, dr_versions = fmempty \<rparr>"

definition registry_head :: "AgentDefinitionRegistry \<Rightarrow> AgentId \<Rightarrow> VerifiedAgentDefinition option" where
  "registry_head self agent_id =
     (case fmlookup (dr_heads self) agent_id of
        None \<Rightarrow> None
      | Some version \<Rightarrow> fmlookup (dr_versions self) (agent_id, version))"

definition registry_version :: "AgentDefinitionRegistry \<Rightarrow> AgentId \<Rightarrow> Revision \<Rightarrow> VerifiedAgentDefinition option" where
  "registry_version self agent_id version = fmlookup (dr_versions self) (agent_id, version)"

definition version_count :: "AgentDefinitionRegistry \<Rightarrow> AgentId \<Rightarrow> nat" where
  "version_count self agent_id =
     length (filter (\<lambda>(candidate, _). candidate = agent_id) (map fst (sorted_list_of_fmap (dr_versions self))))"

definition admit ::
  "VerifiedAgentDefinition \<Rightarrow> int \<Rightarrow> AgentDefinitionRegistry
    \<Rightarrow> (AgentDefinitionError + AgentDefinitionAdmission) \<times> AgentDefinitionRegistry" where
  "admit d now_ms self =
     (let version_key = (vd_agent_id d, vd_version d);
          advanced = self\<lparr> dr_heads := fmupd (vd_agent_id d) (vd_version d) (dr_heads self),
            dr_versions := fmupd version_key d (dr_versions self) \<rparr>
      in case fmlookup (dr_versions self) version_key of
        Some existing \<Rightarrow>
          if existing = d then (Inr (Duplicate existing), self) else (Inl VersionContentConflict, self)
      | None \<Rightarrow>
          if vd_expires_at_ms d \<le> now_ms then (Inl DescriptorExpired, self)
          else (case registry_head self (vd_agent_id d) of
              Some previous \<Rightarrow>
                if vd_publisher_id previous \<noteq> vd_publisher_id d then (Inl PublisherChanged, self)
                else if vd_version d < vd_version previous then
                  (Inl (VersionRegressed (vd_version previous) (vd_version d)), self)
                else (Inr (Advanced (Some (vd_version previous)) d), advanced)
            | None \<Rightarrow> (Inr (Advanced None d), advanced)))"

section \<open>Durable image\<close>

definition registry_snapshot :: "AgentDefinitionRegistry \<Rightarrow> VerifiedAgentDefinition list" where
  "registry_snapshot self = fm_values (dr_versions self)"

definition load_definition ::
  "VerifiedAgentDefinition \<Rightarrow> AgentDefinitionRegistry \<Rightarrow> AgentDefinitionSnapshotError + AgentDefinitionRegistry" where
  "load_definition d self =
     (let key = (vd_agent_id d, vd_version d) in
      if contains_key (dr_versions self) key then Inl DuplicateVersion
      else let stored = self\<lparr> dr_versions := fmupd key d (dr_versions self) \<rparr>;
               headed = stored\<lparr> dr_heads := fmupd (vd_agent_id d) (vd_version d) (dr_heads stored) \<rparr>
        in case registry_head stored (vd_agent_id d) of
             Some head \<Rightarrow>
               if vd_publisher_id head \<noteq> vd_publisher_id d then Inl SnapshotPublisherChanged
               else if vd_version head > vd_version d then Inr stored
               else Inr headed
           | None \<Rightarrow> Inr headed)"

definition check_publisher ::
  "AgentDefinitionRegistry \<Rightarrow> AgentId \<times> Revision \<Rightarrow> unit \<Rightarrow> AgentDefinitionSnapshotError + unit" where
  "check_publisher registry = (\<lambda>(agent_id, head_version) _.
     res_bind (ok_or MissingHead (fmlookup (dr_versions registry) (agent_id, head_version))) (\<lambda>head.
       if fm_any (\<lambda>(candidate, _) v. candidate = agent_id \<and> vd_publisher_id v \<noteq> vd_publisher_id head)
            (dr_versions registry)
       then Inl SnapshotPublisherChanged else Inr ()))"

definition registry_from_snapshot ::
  "VerifiedAgentDefinition list \<Rightarrow> AgentDefinitionSnapshotError + AgentDefinitionRegistry" where
  "registry_from_snapshot definitions =
     res_bind (for_each load_definition definitions registry_new) (\<lambda>registry.
     res_bind (for_each (check_publisher registry) (sorted_list_of_fmap (dr_heads registry)) ()) (\<lambda>_.
       Inr registry))"

section \<open>Invariant\<close>

definition registry_inv :: "AgentDefinitionRegistry \<Rightarrow> bool" where
  "registry_inv s \<longleftrightarrow>
     (\<forall>a v d. fmlookup (dr_versions s) (a, v) = Some d \<longrightarrow> vd_agent_id d = a \<and> vd_version d = v)
     \<and> (\<forall>a v d. fmlookup (dr_versions s) (a, v) = Some d \<longrightarrow>
          (\<exists>h. fmlookup (dr_heads s) a = Some h \<and> v \<le> h))
     \<and> (\<forall>a h. fmlookup (dr_heads s) a = Some h \<longrightarrow> (\<exists>d. fmlookup (dr_versions s) (a, h) = Some d))
     \<and> (\<forall>a v w d e. fmlookup (dr_versions s) (a, v) = Some d \<longrightarrow> fmlookup (dr_versions s) (a, w) = Some e
          \<longrightarrow> vd_publisher_id d = vd_publisher_id e)"

lemma registry_invD:
  assumes "registry_inv s"
  shows "fmlookup (dr_versions s) (a, v) = Some d \<Longrightarrow> vd_agent_id d = a"
    and "fmlookup (dr_versions s) (a, v) = Some d \<Longrightarrow> vd_version d = v"
    and "fmlookup (dr_versions s) (a, v) = Some d \<Longrightarrow> \<exists>h. fmlookup (dr_heads s) a = Some h \<and> v \<le> h"
    and "fmlookup (dr_heads s) a = Some h \<Longrightarrow> \<exists>d. fmlookup (dr_versions s) (a, h) = Some d"
    and "fmlookup (dr_versions s) (a, v) = Some d \<Longrightarrow> fmlookup (dr_versions s) (a, w) = Some e
      \<Longrightarrow> vd_publisher_id d = vd_publisher_id e"
  using assms unfolding registry_inv_def by blast+

text \<open>A record under a fresh key, of the publisher the Agent already has, may be added.\<close>

definition same_publisher :: "AgentDefinitionRegistry \<Rightarrow> VerifiedAgentDefinition \<Rightarrow> bool" where
  "same_publisher s d = (\<forall>v e. fmlookup (dr_versions s) (vd_agent_id d, v) = Some e \<longrightarrow>
     vd_publisher_id e = vd_publisher_id d)"

definition add_definition :: "VerifiedAgentDefinition \<Rightarrow> AgentDefinitionRegistry \<Rightarrow> AgentDefinitionRegistry" where
  "add_definition d s =
     \<lparr> dr_heads = (if is_some_and (fmlookup (dr_heads s) (vd_agent_id d)) (\<lambda>h. vd_version d < h) then dr_heads s
          else fmupd (vd_agent_id d) (vd_version d) (dr_heads s)),
       dr_versions = fmupd (vd_agent_id d, vd_version d) d (dr_versions s) \<rparr>"

lemma added_versions:
  "fmlookup (dr_versions (add_definition d s)) (a, v) = Some e \<longleftrightarrow>
     (if a = vd_agent_id d \<and> v = vd_version d then e = d else fmlookup (dr_versions s) (a, v) = Some e)"
  by (auto simp: add_definition_def)

lemma added_heads:
  "fmlookup (dr_heads (add_definition d s)) a =
     (if a = vd_agent_id d \<and> is_none_or (fmlookup (dr_heads s) a) (\<lambda>h. h \<le> vd_version d) then Some (vd_version d)
      else fmlookup (dr_heads s) a)"
  by (cases "fmlookup (dr_heads s) (vd_agent_id d)") (auto simp: add_definition_def)

lemma add_definition_inv:
  assumes "registry_inv s" "same_publisher s d"
  shows "registry_inv (add_definition d s)"
proof -
  note inv = registry_invD [OF assms(1)]
  have heads: "\<exists>h. fmlookup (dr_heads (add_definition d s)) a = Some h \<and> v \<le> h"
    if "fmlookup (dr_versions (add_definition d s)) (a, v) = Some e" for a v e
  proof (cases "a = vd_agent_id d \<and> v = vd_version d")
    case True
    then show ?thesis by (cases "fmlookup (dr_heads s) a") (auto simp: added_heads)
  next
    case False
    then have "fmlookup (dr_versions s) (a, v) = Some e" using that by (simp add: added_versions)
    then obtain h where "fmlookup (dr_heads s) a = Some h" "v \<le> h" using inv(3) by blast
    then show ?thesis by (cases "a = vd_agent_id d \<and> h \<le> vd_version d") (auto simp: added_heads)
  qed
  have backed: "\<exists>e. fmlookup (dr_versions (add_definition d s)) (a, h) = Some e"
    if "fmlookup (dr_heads (add_definition d s)) a = Some h" for a h
    using that inv(4) [of a h] unfolding added_versions added_heads by (auto split: if_splits)
  have keyed: "vd_agent_id e = a \<and> vd_version e = v"
    if "fmlookup (dr_versions (add_definition d s)) (a, v) = Some e" for a v e
    using that inv(1,2) [of a v e] unfolding added_versions by (auto split: if_splits)
  have "vd_publisher_id e = vd_publisher_id f"
    if "fmlookup (dr_versions (add_definition d s)) (a, v) = Some e"
      "fmlookup (dr_versions (add_definition d s)) (a, w) = Some f" for a v w e f
  proof -
    have old: "g = d \<or> fmlookup (dr_versions s) (a, u) = Some g"
      if "fmlookup (dr_versions (add_definition d s)) (a, u) = Some g" for u g
      using that by (auto simp: added_versions split: if_splits)
    have new: "vd_publisher_id g = vd_publisher_id d"
      if "fmlookup (dr_versions s) (a, u) = Some g" "a = vd_agent_id d" for u g
      using that assms(2) by (simp add: same_publisher_def)
    show ?thesis using old [OF that(1)] old [OF that(2)] new keyed [OF that(1)] keyed [OF that(2)] inv(5) by metis
  qed
  with heads backed keyed show ?thesis unfolding registry_inv_def by blast
qed

lemma registry_head_Some:
  assumes "registry_inv s" "registry_head s a = Some h"
  shows "fmlookup (dr_heads s) a = Some (vd_version h)" "fmlookup (dr_versions s) (a, vd_version h) = Some h"
  using assms(2) registry_invD(2) [OF assms(1)] by (auto simp: registry_head_def split: option.splits)

lemma registry_head_None: "registry_inv s \<Longrightarrow> registry_head s a = None \<Longrightarrow> fmlookup (dr_heads s) a = None"
  using registry_invD(4) [of s a] by (auto simp: registry_head_def split: option.splits)

lemma no_head_fresh:
  assumes "registry_inv s" "registry_head s (vd_agent_id d) = None"
  shows "same_publisher s d"
proof -
  have "fmlookup (dr_versions s) (vd_agent_id d, v) = None" for v
    using registry_invD(3) [OF assms(1), of "vd_agent_id d" v] registry_head_None [OF assms]
    by (cases "fmlookup (dr_versions s) (vd_agent_id d, v)") auto
  then show ?thesis by (simp add: same_publisher_def)
qed

lemma head_publisher:
  assumes "registry_inv s" "registry_head s (vd_agent_id d) = Some h" "vd_publisher_id h = vd_publisher_id d"
  shows "same_publisher s d"
  using registry_invD(5) [OF assms(1) _ registry_head_Some(2) [OF assms(1,2)]] assms(3)
  by (simp add: same_publisher_def)

lemma admit_cases:
  assumes inv: "registry_inv s" and ok: "admit d now s = (Inr x, t)"
  shows "t = s \<and> fmlookup (dr_versions s) (vd_agent_id d, vd_version d) = Some d
    \<or> t = add_definition d s \<and> same_publisher s d
      \<and> fmlookup (dr_versions s) (vd_agent_id d, vd_version d) = None
      \<and> is_none_or (fmlookup (dr_heads s) (vd_agent_id d)) (\<lambda>h. h \<le> vd_version d)"
proof (cases "fmlookup (dr_versions s) (vd_agent_id d, vd_version d)")
  case (Some e)
  then show ?thesis using ok by (auto simp: admit_def Let_def split: if_splits)
next
  case None
  show ?thesis
  proof (cases "registry_head s (vd_agent_id d)")
    case (Some h)
    then show ?thesis
      using ok None registry_head_Some [OF inv Some] head_publisher [OF inv Some]
      by (auto simp: admit_def Let_def add_definition_def split: if_splits)
  next
    case None': None
    then show ?thesis
      using ok None registry_head_None [OF inv None'] no_head_fresh [OF inv None']
      by (auto simp: admit_def Let_def add_definition_def split: if_splits)
  qed
qed

lemma admit_atomic: "atomic s (admit d now s)"
  by (auto simp: admit_def Let_def intro!: atomic_intros split: option.split)

section \<open>Histories are immutable\<close>

definition registry_call ::
  "VerifiedAgentDefinition \<times> int \<Rightarrow> AgentDefinitionRegistry
    \<Rightarrow> (AgentDefinitionError + AgentDefinitionAdmission) \<times> AgentDefinitionRegistry" where
  "registry_call c s = admit (fst c) (snd c) s"

definition registry_step :: "AgentDefinitionRegistry \<Rightarrow> AgentDefinitionRegistry \<Rightarrow> bool" where
  "registry_step s t = (\<exists>d. t = add_definition d s \<and> same_publisher s d
     \<and> fmlookup (dr_versions s) (vd_agent_id d, vd_version d) = None
     \<and> is_none_or (fmlookup (dr_heads s) (vd_agent_id d)) (\<lambda>h. h \<le> vd_version d))"

lemma registry_new_inv: "registry_inv registry_new"
  by (simp add: registry_inv_def registry_new_def)

interpretation registry_calls: stepping_calls registry_call registry_step registry_inv
proof unfold_locales
  fix s t :: AgentDefinitionRegistry and c x
  assume "registry_inv s" "registry_call c s = (Inr x, t)"
  then show "t = s \<or> registry_step s t"
    using admit_cases [of s "fst c" "snd c" x t] unfolding registry_call_def registry_step_def by blast
next
  fix s t :: AgentDefinitionRegistry and c e
  assume "registry_call c s = (Inl e, t)"
  then show "t = s" using atomic_Err [OF admit_atomic] by (simp add: registry_call_def)
next
  fix s t
  assume "registry_inv s" "registry_step s t"
  then show "registry_inv t" using add_definition_inv by (auto simp: registry_step_def)
qed

text \<open>What a later registry keeps of an earlier one.\<close>

definition registry_extends :: "AgentDefinitionRegistry \<Rightarrow> AgentDefinitionRegistry \<Rightarrow> bool" where
  "registry_extends s t \<longleftrightarrow>
     (\<forall>a v d. registry_version s a v = Some d \<longrightarrow> registry_version t a v = Some d)
     \<and> (\<forall>a h. registry_head s a = Some h \<longrightarrow>
          (\<exists>g. registry_head t a = Some g \<and> vd_version h \<le> vd_version g
             \<and> vd_publisher_id g = vd_publisher_id h))"

lemma registry_head_iff:
  "registry_inv s \<Longrightarrow> registry_head s a = Some h \<longleftrightarrow>
     fmlookup (dr_heads s) a = Some (vd_version h) \<and> fmlookup (dr_versions s) (a, vd_version h) = Some h"
  using registry_head_Some by (auto simp: registry_head_def)

lemma step_extends:
  assumes inv: "registry_inv s" and step: "registry_step s t"
  shows "registry_extends s t"
proof -
  from step obtain d where t: "t = add_definition d s" and p: "same_publisher s d"
    and fresh: "fmlookup (dr_versions s) (vd_agent_id d, vd_version d) = None"
    and up: "is_none_or (fmlookup (dr_heads s) (vd_agent_id d)) (\<lambda>h. h \<le> vd_version d)"
    by (auto simp: registry_step_def)
  have tinv: "registry_inv t" unfolding t by (rule add_definition_inv [OF inv p])
  have kept: "fmlookup (dr_versions t) (a, v) = Some e" if "fmlookup (dr_versions s) (a, v) = Some e" for a v e
    using that fresh by (auto simp: t added_versions)
  have "\<exists>g. registry_head t a = Some g \<and> vd_version h \<le> vd_version g \<and> vd_publisher_id g = vd_publisher_id h"
    if h: "registry_head s a = Some h" for a h
  proof (cases "a = vd_agent_id d")
    case True
    have "registry_head t a = Some d"
      using True up by (simp add: registry_head_iff [OF tinv]) (simp add: t added_heads added_versions)
    moreover have "vd_version h \<le> vd_version d" "vd_publisher_id d = vd_publisher_id h"
      using registry_head_Some [OF inv h] up p True by (auto simp: same_publisher_def)
    ultimately show ?thesis by blast
  next
    case False
    then have "registry_head t a = Some h"
      unfolding registry_head_iff [OF tinv] using registry_head_Some [OF inv h] kept by (simp add: t added_heads)
    then show ?thesis by blast
  qed
  with kept show ?thesis by (simp add: registry_extends_def registry_version_def)
qed

lemma extends_refl: "registry_extends s s"
  by (simp add: registry_extends_def)

lemma extends_trans:
  assumes "registry_extends s t" "registry_extends t u"
  shows "registry_extends s u"
proof -
  have "\<exists>g. registry_head u a = Some g \<and> vd_version h \<le> vd_version g \<and> vd_publisher_id g = vd_publisher_id h"
    if h: "registry_head s a = Some h" for a h
  proof -
    obtain k where k: "registry_head t a = Some k" "vd_version h \<le> vd_version k" "vd_publisher_id k = vd_publisher_id h"
      using assms(1) h unfolding registry_extends_def by blast
    obtain g where "registry_head u a = Some g" "vd_version k \<le> vd_version g" "vd_publisher_id g = vd_publisher_id k"
      using assms(2) k(1) unfolding registry_extends_def by blast
    then show ?thesis using k by auto
  qed
  moreover have "registry_version u a v = Some d" if "registry_version s a v = Some d" for a v d
    using assms that unfolding registry_extends_def by blast
  ultimately show ?thesis by (simp add: registry_extends_def)
qed

text \<open>C35. The registry of Agent definitions only grows: over any sequence of admissions an admitted
  version keeps its content, and the head of an Agent keeps its publisher and never goes back to an
  earlier version.\<close>
theorem definitions_immutable:
  assumes "registry_inv s"
  shows "registry_extends s (run registry_call cs s)"
  by (rule registry_calls.run_rel [OF assms]) (rule extends_refl, erule (1) extends_trans, erule (1) step_extends)

section \<open>Rehydration\<close>

lemma load_definition_Ok:
  assumes inv: "registry_inv s" and key: "fmlookup (dr_versions s) (vd_agent_id d, vd_version d) = None"
    and pub: "same_publisher s d"
  shows "load_definition d s = Inr (add_definition d s)"
proof -
  have "registry_head (s\<lparr> dr_versions := fmupd (vd_agent_id d, vd_version d) d (dr_versions s) \<rparr>) (vd_agent_id d)
      = registry_head s (vd_agent_id d)"
    using key registry_invD(4) [OF inv, of "vd_agent_id d"]
    by (auto simp: registry_head_def split: option.splits)
  then show ?thesis
    using key pub registry_head_Some [OF inv, of "vd_agent_id d"] registry_head_None [OF inv]
    by (cases "registry_head s (vd_agent_id d)")
      (auto simp: load_definition_def Let_def not_contains_key contains_key_def add_definition_def same_publisher_def)
qed

text \<open>Two registries that satisfy the invariant and hold the same versions are equal.\<close>

lemma registry_determined:
  assumes "registry_inv s" "registry_inv t" "dr_versions s = dr_versions t"
  shows "s = t"
proof -
  have below: "fmlookup (dr_heads t) a = Some h" if a: "registry_inv s" and b: "registry_inv t"
    and c: "dr_versions s = dr_versions t" and e: "fmlookup (dr_heads s) a = Some h" for s t :: AgentDefinitionRegistry and a h
  proof -
    obtain d where d: "fmlookup (dr_versions t) (a, h) = Some d" using registry_invD(4) [OF a e] c by auto
    obtain g where g: "fmlookup (dr_heads t) a = Some g" "h \<le> g" using registry_invD(3) [OF b d] by blast
    obtain f where "fmlookup (dr_versions s) (a, g) = Some f" using registry_invD(4) [OF b g(1)] c by auto
    then have "g \<le> h" using registry_invD(3) [OF a] e by fastforce
    then show ?thesis using g by simp
  qed
  from below [OF assms] below [OF assms(2,1) assms(3) [symmetric]]
  have "dr_heads s = dr_heads t" by (intro fmap_ext) (metis not_None_eq)
  then show ?thesis using assms(3) by simp
qed

definition key_of :: "VerifiedAgentDefinition \<Rightarrow> AgentId \<times> Revision" where
  "key_of d = (vd_agent_id d, vd_version d)"

definition keyed :: "VerifiedAgentDefinition list \<Rightarrow> (AgentId \<times> Revision) \<rightharpoonup> VerifiedAgentDefinition" where
  "keyed ds = map_of (map (\<lambda>d. (key_of d, d)) ds)"

lemma keyed_simps [simp]: "keyed [] = Map.empty" "keyed (d # ds) = (keyed ds)(key_of d \<mapsto> d)"
  by (simp_all add: keyed_def)

lemma dom_keyed: "dom (keyed ds) = key_of ` set ds"
  by (simp add: keyed_def dom_map_of_conv_image_fst image_image)

lemma load_definitions:
  assumes "registry_inv s" "registry_inv t" "distinct (map key_of ds)"
    and "\<And>d. d \<in> set ds \<Longrightarrow> fmlookup (dr_versions s) (key_of d) = None"
    and "fmlookup (dr_versions s) ++ keyed ds = fmlookup (dr_versions t)"
  shows "for_each load_definition ds s = Inr t"
  using assms(1,3-5)
proof (induction ds arbitrary: s)
  case Nil
  then have "dr_versions s = dr_versions t" by (simp add: fmlookup_inject)
  then show ?case using registry_determined [OF Nil.prems(1) assms(2)] by simp
next
  case (Cons d ds)
  have notin: "key_of d \<notin> dom (keyed ds)" using Cons.prems(2) by (simp add: dom_keyed)
  have fresh: "fmlookup (dr_versions s) (key_of d) = None" using Cons.prems(3) by simp
  have new: "fmlookup (dr_versions t) (key_of d) = Some d"
    using arg_cong [OF Cons.prems(4), of "\<lambda>m. m (key_of d)"] notin by simp
  have old: "fmlookup (dr_versions t) k = Some e" if "fmlookup (dr_versions s) k = Some e" for k e
  proof -
    have "k \<notin> dom (keyed (d # ds))" using that Cons.prems(3) by (auto simp: dom_keyed)
    then have "(fmlookup (dr_versions s) ++ keyed (d # ds)) k = fmlookup (dr_versions s) k"
      by (rule map_add_dom_app_simps(3))
    then show ?thesis using that by (simp only: Cons.prems(4))
  qed
  have pub: "same_publisher s d"
  proof -
    have "vd_publisher_id e = vd_publisher_id d" if "fmlookup (dr_versions s) (vd_agent_id d, v) = Some e" for v e
      by (rule registry_invD(5) [OF assms(2) old [OF that] new [unfolded key_of_def]])
    then show ?thesis by (simp add: same_publisher_def)
  qed
  have load: "load_definition d s = Inr (add_definition d s)"
    by (rule load_definition_Ok [OF Cons.prems(1) _ pub]) (use fresh in \<open>simp add: key_of_def\<close>)
  have versions: "fmlookup (dr_versions (add_definition d s)) = (fmlookup (dr_versions s))(key_of d \<mapsto> d)"
    by (rule ext) (simp add: add_definition_def key_of_def)
  have "for_each load_definition ds (add_definition d s) = Inr t"
  proof (rule Cons.IH [OF add_definition_inv [OF Cons.prems(1) pub]])
    show "fmlookup (dr_versions (add_definition d s)) ++ keyed ds = fmlookup (dr_versions t)"
      using Cons.prems(4) by (simp only: versions map_add_upd_left [OF notin] keyed_simps map_add_upd)
    show "e \<in> set ds \<Longrightarrow> fmlookup (dr_versions (add_definition d s)) (key_of e) = None" for e
      using Cons.prems(2) Cons.prems(3) [of e] by (auto simp: versions dest: image_eqI [of "key_of d" key_of e, OF sym])
  qed (use Cons.prems(2) in simp)
  with load show ?case by simp
qed

lemma check_publisher_Ok:
  assumes inv: "registry_inv s" and h: "fmlookup (dr_heads s) a = Some h"
  shows "check_publisher s (a, h) u = Inr ()"
proof -
  obtain d where d: "fmlookup (dr_versions s) (a, h) = Some d" using registry_invD(4) [OF inv h] by blast
  have "\<not> fm_any (\<lambda>(candidate, _) v. candidate = a \<and> vd_publisher_id v \<noteq> vd_publisher_id d) (dr_versions s)"
  proof
    assume "fm_any (\<lambda>(candidate, _) v. candidate = a \<and> vd_publisher_id v \<noteq> vd_publisher_id d) (dr_versions s)"
    then obtain w e where "fmlookup (dr_versions s) (a, w) = Some e" "vd_publisher_id e \<noteq> vd_publisher_id d"
      by (auto simp: fm_any_iff)
    then show False using registry_invD(5) [OF inv _ d] by blast
  qed
  then show ?thesis by (simp add: check_publisher_def d)
qed

lemma check_publishers:
  assumes "registry_inv s" "\<And>a h. (a, h) \<in> set es \<Longrightarrow> fmlookup (dr_heads s) a = Some h"
  shows "for_each (check_publisher s) es () = Inr ()"
  using assms(2)
proof (induction es)
  case (Cons e es)
  then show ?case by (cases e) (simp add: check_publisher_Ok [OF assms(1)])
qed simp

text \<open>A persisted registry of Agent definitions is rebuilt exactly, heads included, from the list of
  its versions.\<close>
theorem definitions_roundtrip:
  assumes "registry_inv s"
  shows "registry_from_snapshot (registry_snapshot s) = Inr s"
proof -
  let ?l = "sorted_list_of_fmap (dr_versions s)"
  have keys: "key_of (snd e) = fst e" if "e \<in> set ?l" for e
  proof -
    obtain a v d where e: "e = ((a, v), d)" by (metis prod.collapse)
    then have "fmlookup (dr_versions s) (a, v) = Some d" using that by simp
    then show ?thesis using registry_invD(1,2) [OF assms] e by (simp add: key_of_def)
  qed
  then have ids: "map key_of (registry_snapshot s) = map fst ?l"
    by (simp add: registry_snapshot_def fm_values_def)
  have "map (\<lambda>d. (key_of d, d)) (registry_snapshot s) = ?l"
    using keys by (auto simp: registry_snapshot_def fm_values_def intro!: map_idI)
  then have "keyed (registry_snapshot s) = fmlookup (dr_versions s)"
    unfolding keyed_def by (metis fmap_of_sorted_list fmlookup_of_list)
  moreover have "fmlookup (dr_versions registry_new) = Map.empty" by (rule ext) (simp add: registry_new_def)
  ultimately have "for_each load_definition (registry_snapshot s) registry_new = Inr s"
    by (intro load_definitions registry_new_inv assms) (simp_all add: ids)
  moreover have "for_each (check_publisher s) (sorted_list_of_fmap (dr_heads s)) () = Inr ()"
    by (rule check_publishers [OF assms]) simp
  ultimately show ?thesis by (simp add: registry_from_snapshot_def)
qed
section \<open>Concrete registries\<close>

definition demo_definition :: "u64 \<Rightarrow> VerifiedAgentDefinition" where
  "demo_definition v = \<lparr> vd_agent_id = PublicId 1, vd_publisher_id = PublicId 2, vd_version = Revision v,
     vd_descriptor_hash = 3, vd_expires_at_ms = 1000 \<rparr>"

definition demo_registry :: AgentDefinitionRegistry where
  "demo_registry = run registry_call [(demo_definition 1, 10), (demo_definition 2, 20)] registry_new"

lemma demo_registry_inv: "registry_inv demo_registry"
  unfolding demo_registry_def by (rule registry_calls.run_inv [OF registry_new_inv])

lemma demo_registry_value:
  "demo_registry = \<lparr> dr_heads = fmupd (PublicId 1) (Revision 2) (fmupd (PublicId 1) (Revision 1) fmempty),
     dr_versions = fmupd (PublicId 1, Revision 2) (demo_definition 2)
       (fmupd (PublicId 1, Revision 1) (demo_definition 1) fmempty) \<rparr>"
  by (simp add: demo_registry_def registry_call_def admit_def demo_definition_def registry_new_def
      registry_head_def less_Revision_def)

text \<open>
  A retry of an old version is answered with \<open>Duplicate\<close> and that old version, although it is not
  the head.
\<close>

lemma duplicate_of_old_version:
  "admit (demo_definition 1) 30 demo_registry = (Inr (Duplicate (demo_definition 1)), demo_registry)
   \<and> registry_head demo_registry (PublicId 1) = Some (demo_definition 2)"
  by (simp add: demo_registry_value admit_def registry_head_def demo_definition_def)

theorem definitions_immutable_witness:
  "registry_extends demo_registry (run registry_call [(demo_definition 3, 50)] demo_registry)"
  by (rule definitions_immutable [OF demo_registry_inv])

theorem definitions_roundtrip_witness:
  "registry_from_snapshot (registry_snapshot demo_registry) = Inr demo_registry"
  by (rule definitions_roundtrip [OF demo_registry_inv])

end
