(* ===== verification/Agent_Host.thy ===== *)
theory Agent_Host
  imports Instants Revisioned
begin

text \<open>
  The crate \<open>dtx-agent-host\<close>: the lifecycle of a machine that hosts Connectors, with its credential
  fences, its heartbeat observation, its optimistic-concurrency revision and its durable image.
\<close>

section \<open>Data\<close>

datatype HostLifecycle = AwaitingEnrollment | HostActive | Quarantined | HostRevokedState

datatype ReportedHealth = Healthy | DegradedHealth

datatype EffectiveHostState =
  EffectiveAwaitingEnrollment | EffectiveOnline | EffectiveDegraded | EffectiveOffline
| EffectiveQuarantined | EffectiveRevoked

record HostObservation =
  ho_health :: ReportedHealth
  ho_observed_at_millis :: int
  ho_heartbeat_expires_at_millis :: int

record AgentHost =
  ah_tenant_id :: TenantId
  ah_host_id :: HostId
  ah_owner_id :: IdentityId
  ah_lifecycle :: HostLifecycle
  ah_credential_id :: "HostCredentialId option"
  ah_retired_credentials :: "HostCredentialId fset"
  ah_desired_revision :: Revision
  ah_observed_revision :: "Revision option"
  ah_observation :: "HostObservation option"
  ah_revision :: Revision

record HostObservationSnapshot =
  hos_health :: ReportedHealth
  hos_observed_at_millis :: int
  hos_heartbeat_expires_at_millis :: int

record AgentHostSnapshot =
  ahs_tenant_id :: TenantId
  ahs_host_id :: HostId
  ahs_owner_id :: IdentityId
  ahs_lifecycle :: HostLifecycle
  ahs_credential_id :: "HostCredentialId option"
  ahs_retired_credentials :: "HostCredentialId fset"
  ahs_desired_revision :: Revision
  ahs_observed_revision :: "Revision option"
  ahs_observation :: "HostObservationSnapshot option"
  ahs_revision :: Revision

datatype HostError =
  RevisionConflict (current: Revision)
| AlreadyEnrolled | NotEnrolled | CredentialMismatch | CredentialUnchanged | CredentialReused
| ObservedRevisionRegressed Revision | ObservedRevisionAhead Revision
| HeartbeatTimeRegressed | InvalidHeartbeatWindow | AlreadyQuarantined | NotQuarantined
| HostRevoked | CounterExhausted

datatype AgentHostSnapshotError =
  CredentialLifecycleMismatch | CurrentCredentialRetired | SnapshotObservedRevisionAhead
| ObservationLifecycleMismatch | SnapshotInvalidHeartbeatWindow | HostUnreachableInitialState

section \<open>Operations\<close>

definition host_register :: "TenantId \<Rightarrow> HostId \<Rightarrow> IdentityId \<Rightarrow> AgentHost" where
  "host_register tenant_id host_id owner_id =
     \<lparr> ah_tenant_id = tenant_id, ah_host_id = host_id, ah_owner_id = owner_id,
       ah_lifecycle = AwaitingEnrollment, ah_credential_id = None, ah_retired_credentials = {||},
       ah_desired_revision = Revision_INITIAL, ah_observed_revision = None,
       ah_observation = None, ah_revision = Revision_INITIAL \<rparr>"

definition host_checked_next :: "Revision \<Rightarrow> HostError + Revision" where
  "host_checked_next r = map_err (\<lambda>_. CounterExhausted) (checked_next r)"

definition checked_mutation_revision :: "AgentHost \<Rightarrow> Revision \<Rightarrow> HostError + Revision" where
  "checked_mutation_revision self expected_revision =
     (if expected_revision \<noteq> ah_revision self then Inl (RevisionConflict (ah_revision self))
      else host_checked_next (ah_revision self))"

definition ensure_enrolled_and_mutable :: "AgentHost \<Rightarrow> HostError + unit" where
  "ensure_enrolled_and_mutable self =
     (case ah_lifecycle self of
        HostActive \<Rightarrow> Inr () | Quarantined \<Rightarrow> Inr ()
      | AwaitingEnrollment \<Rightarrow> Inl NotEnrolled | HostRevokedState \<Rightarrow> Inl HostRevoked)"

definition host_enroll :: "Revision \<Rightarrow> HostCredentialId \<Rightarrow> AgentHost \<Rightarrow> (HostError + unit) \<times> AgentHost" where
  "host_enroll expected_revision credential_id self =
     try_in self (checked_mutation_revision self expected_revision) (\<lambda>next_revision.
       case ah_lifecycle self of
         AwaitingEnrollment \<Rightarrow>
           (Inr (), self\<lparr> ah_lifecycle := HostActive, ah_credential_id := Some credential_id,
              ah_observation := None, ah_revision := next_revision \<rparr>)
       | HostActive \<Rightarrow> (Inl AlreadyEnrolled, self)
       | Quarantined \<Rightarrow> (Inl AlreadyEnrolled, self)
       | HostRevokedState \<Rightarrow> (Inl HostRevoked, self))"

definition rotate_credential ::
  "Revision \<Rightarrow> HostCredentialId \<Rightarrow> AgentHost \<Rightarrow> (HostError + HostCredentialId) \<times> AgentHost" where
  "rotate_credential expected_revision replacement self =
     try_in self (checked_mutation_revision self expected_revision) (\<lambda>next_revision.
     try_in self (ensure_enrolled_and_mutable self) (\<lambda>_.
     try_in self (ok_or NotEnrolled (ah_credential_id self)) (\<lambda>current.
       if current = replacement then (Inl CredentialUnchanged, self)
       else if replacement |\<in>| ah_retired_credentials self then (Inl CredentialReused, self)
       else (Inr current, self\<lparr> ah_retired_credentials := finsert current (ah_retired_credentials self),
              ah_credential_id := Some replacement, ah_observation := None,
              ah_revision := next_revision \<rparr>))))"

definition advance_desired_revision :: "Revision \<Rightarrow> AgentHost \<Rightarrow> (HostError + Revision) \<times> AgentHost" where
  "advance_desired_revision expected_revision self =
     try_in self (checked_mutation_revision self expected_revision) (\<lambda>next_aggregate_revision.
       if ah_lifecycle self = HostRevokedState then (Inl HostRevoked, self)
       else try_in self (host_checked_next (ah_desired_revision self)) (\<lambda>next_desired.
         (Inr next_desired, self\<lparr> ah_desired_revision := next_desired,
            ah_revision := next_aggregate_revision \<rparr>)))"

definition host_record_heartbeat ::
  "Revision \<Rightarrow> HostCredentialId \<Rightarrow> Revision \<Rightarrow> ReportedHealth \<Rightarrow> int \<Rightarrow> int \<Rightarrow> AgentHost
    \<Rightarrow> (HostError + int) \<times> AgentHost" where
  "host_record_heartbeat expected_revision credential_id acknowledged health received_at ttl self =
     try_in self (checked_mutation_revision self expected_revision) (\<lambda>next_revision.
     try_in self (ensure_enrolled_and_mutable self) (\<lambda>_.
       if ah_credential_id self \<noteq> Some credential_id then (Inl CredentialMismatch, self)
       else if acknowledged > ah_desired_revision self then
         (Inl (ObservedRevisionAhead (ah_desired_revision self)), self)
       else try_in self (case ah_observed_revision self of
             Some c \<Rightarrow> if acknowledged < c then Inl (ObservedRevisionRegressed c) else Inr ()
           | None \<Rightarrow> Inr ()) (\<lambda>_.
         if is_some_and (ah_observation self) (\<lambda>c. received_at < ho_observed_at_millis c) then
           (Inl HeartbeatTimeRegressed, self)
         else if ttl \<le> 0 then (Inl InvalidHeartbeatWindow, self)
         else try_in self (ok_or InvalidHeartbeatWindow (checked_add_i64 received_at ttl)) (\<lambda>expires.
           (Inr expires, self\<lparr> ah_observed_revision := Some acknowledged,
              ah_observation := Some \<lparr> ho_health = health, ho_observed_at_millis = received_at,
                ho_heartbeat_expires_at_millis = expires \<rparr>,
              ah_revision := next_revision \<rparr>)))))"

definition host_quarantine :: "Revision \<Rightarrow> AgentHost \<Rightarrow> (HostError + unit) \<times> AgentHost" where
  "host_quarantine expected_revision self =
     try_in self (checked_mutation_revision self expected_revision) (\<lambda>next_revision.
       case ah_lifecycle self of
         HostActive \<Rightarrow> (Inr (), self\<lparr> ah_lifecycle := Quarantined, ah_observation := None,
           ah_revision := next_revision \<rparr>)
       | AwaitingEnrollment \<Rightarrow> (Inl NotEnrolled, self)
       | Quarantined \<Rightarrow> (Inl AlreadyQuarantined, self)
       | HostRevokedState \<Rightarrow> (Inl HostRevoked, self))"

definition clear_quarantine :: "Revision \<Rightarrow> AgentHost \<Rightarrow> (HostError + unit) \<times> AgentHost" where
  "clear_quarantine expected_revision self =
     try_in self (checked_mutation_revision self expected_revision) (\<lambda>next_revision.
       case ah_lifecycle self of
         Quarantined \<Rightarrow> (Inr (), self\<lparr> ah_lifecycle := HostActive, ah_observation := None,
           ah_revision := next_revision \<rparr>)
       | HostRevokedState \<Rightarrow> (Inl HostRevoked, self)
       | AwaitingEnrollment \<Rightarrow> (Inl NotQuarantined, self)
       | HostActive \<Rightarrow> (Inl NotQuarantined, self))"

definition host_revoke :: "Revision \<Rightarrow> AgentHost \<Rightarrow> (HostError + unit) \<times> AgentHost" where
  "host_revoke expected_revision self =
     try_in self (checked_mutation_revision self expected_revision) (\<lambda>next_revision.
       if ah_lifecycle self = HostRevokedState then (Inl HostRevoked, self)
       else (Inr (), self\<lparr> ah_lifecycle := HostRevokedState,
          ah_retired_credentials := (case ah_credential_id self of
             Some c \<Rightarrow> finsert c (ah_retired_credentials self) | None \<Rightarrow> ah_retired_credentials self),
          ah_credential_id := None, ah_observation := None, ah_revision := next_revision \<rparr>))"

definition effective_state :: "AgentHost \<Rightarrow> int \<Rightarrow> EffectiveHostState" where
  "effective_state self now =
     (case ah_lifecycle self of
        AwaitingEnrollment \<Rightarrow> EffectiveAwaitingEnrollment
      | Quarantined \<Rightarrow> EffectiveQuarantined
      | HostRevokedState \<Rightarrow> EffectiveRevoked
      | HostActive \<Rightarrow> (case ah_observation self of
          None \<Rightarrow> EffectiveOffline
        | Some ob \<Rightarrow> if now \<ge> ho_heartbeat_expires_at_millis ob then EffectiveOffline
            else (case ho_health ob of Healthy \<Rightarrow> EffectiveOnline | DegradedHealth \<Rightarrow> EffectiveDegraded)))"

section \<open>Durable image\<close>

definition observation_snapshot :: "HostObservation \<Rightarrow> HostObservationSnapshot" where
  "observation_snapshot ob = \<lparr> hos_health = ho_health ob, hos_observed_at_millis = ho_observed_at_millis ob,
     hos_heartbeat_expires_at_millis = ho_heartbeat_expires_at_millis ob \<rparr>"

definition observation_of :: "HostObservationSnapshot \<Rightarrow> HostObservation" where
  "observation_of ob = \<lparr> ho_health = hos_health ob, ho_observed_at_millis = hos_observed_at_millis ob,
     ho_heartbeat_expires_at_millis = hos_heartbeat_expires_at_millis ob \<rparr>"

definition host_snapshot :: "AgentHost \<Rightarrow> AgentHostSnapshot" where
  "host_snapshot self =
     \<lparr> ahs_tenant_id = ah_tenant_id self, ahs_host_id = ah_host_id self, ahs_owner_id = ah_owner_id self,
       ahs_lifecycle = ah_lifecycle self, ahs_credential_id = ah_credential_id self,
       ahs_retired_credentials = ah_retired_credentials self,
       ahs_desired_revision = ah_desired_revision self, ahs_observed_revision = ah_observed_revision self,
       ahs_observation = map_option observation_snapshot (ah_observation self),
       ahs_revision = ah_revision self \<rparr>"

definition host_of_image :: "AgentHostSnapshot \<Rightarrow> AgentHost" where
  "host_of_image s =
     \<lparr> ah_tenant_id = ahs_tenant_id s, ah_host_id = ahs_host_id s, ah_owner_id = ahs_owner_id s,
       ah_lifecycle = ahs_lifecycle s, ah_credential_id = ahs_credential_id s,
       ah_retired_credentials = ahs_retired_credentials s,
       ah_desired_revision = ahs_desired_revision s, ah_observed_revision = ahs_observed_revision s,
       ah_observation = map_option observation_of (ahs_observation s),
       ah_revision = ahs_revision s \<rparr>"

definition host_from_snapshot :: "AgentHostSnapshot \<Rightarrow> AgentHostSnapshotError + AgentHost" where
  "host_from_snapshot s =
     (let enrolled = ahs_lifecycle s = HostActive \<or> ahs_lifecycle s = Quarantined in
      if enrolled \<noteq> (ahs_credential_id s \<noteq> None) then Inl CredentialLifecycleMismatch
      else if is_some_and (ahs_credential_id s) (\<lambda>c. c |\<in>| ahs_retired_credentials s) then
        Inl CurrentCredentialRetired
      else if is_some_and (ahs_observed_revision s) (\<lambda>r. r > ahs_desired_revision s) then
        Inl SnapshotObservedRevisionAhead
      else if ahs_observation s \<noteq> None \<and> (\<not> enrolled \<or> ahs_observed_revision s = None) then
        Inl ObservationLifecycleMismatch
      else if ahs_lifecycle s = AwaitingEnrollment
          \<and> (ahs_retired_credentials s \<noteq> {||} \<or> ahs_observed_revision s \<noteq> None \<or> ahs_observation s \<noteq> None) then
        Inl ObservationLifecycleMismatch
      else if is_some_and (ahs_observation s)
          (\<lambda>ob. hos_heartbeat_expires_at_millis ob \<le> hos_observed_at_millis ob) then
        Inl SnapshotInvalidHeartbeatWindow
      else if rev_get (ahs_revision s) = rev_get Revision_INITIAL
          \<and> (ahs_lifecycle s \<noteq> AwaitingEnrollment \<or> ahs_credential_id s \<noteq> None
             \<or> ahs_retired_credentials s \<noteq> {||} \<or> ahs_desired_revision s \<noteq> Revision_INITIAL
             \<or> ahs_observed_revision s \<noteq> None \<or> ahs_observation s \<noteq> None) then
        Inl HostUnreachableInitialState
      else Inr (host_of_image s))"

section \<open>Calls\<close>

text \<open>The mutating methods as calls against a revision; the payload of a success is dropped.\<close>

datatype HostCall =
  EnrollHost HostCredentialId
| RotateCredential HostCredentialId
| AdvanceDesiredRevision
| RecordHostHeartbeat HostCredentialId Revision ReportedHealth int int
| QuarantineHost | ClearQuarantine | RevokeHost

fun host_apply :: "HostCall \<Rightarrow> Revision \<Rightarrow> AgentHost \<Rightarrow> (HostError + unit) \<times> AgentHost" where
  "host_apply (EnrollHost c) r h = host_enroll r c h"
| "host_apply (RotateCredential c) r h = forget (rotate_credential r c h)"
| "host_apply AdvanceDesiredRevision r h = forget (advance_desired_revision r h)"
| "host_apply (RecordHostHeartbeat c d health at ttl) r h =
     forget (host_record_heartbeat r c d health at ttl h)"
| "host_apply QuarantineHost r h = host_quarantine r h"
| "host_apply ClearQuarantine r h = clear_quarantine r h"
| "host_apply RevokeHost r h = host_revoke r h"

definition host_enrolled :: "AgentHost \<Rightarrow> bool" where
  "host_enrolled h = (ah_lifecycle h = HostActive \<or> ah_lifecycle h = Quarantined)"

lemmas host_op_defs = host_enroll_def rotate_credential_def advance_desired_revision_def
  host_record_heartbeat_def host_quarantine_def clear_quarantine_def host_revoke_def

lemma host_next_Ok: "host_checked_next r = Inr n \<longleftrightarrow> checked_next r = Inr n"
  by (simp add: host_checked_next_def result_simps)

lemma mutation_revision_Ok:
  "checked_mutation_revision h r = Inr n \<longleftrightarrow> r = ah_revision h \<and> checked_next r = Inr n"
  by (auto simp: checked_mutation_revision_def host_next_Ok)

lemma enrolled_Ok: "ensure_enrolled_and_mutable h = Inr u \<longleftrightarrow> host_enrolled h"
  by (auto simp: ensure_enrolled_and_mutable_def host_enrolled_def split: HostLifecycle.splits)

lemma host_apply_stale: "r \<noteq> ah_revision h \<Longrightarrow> host_apply c r h = (Inl (RevisionConflict (ah_revision h)), h)"
  by (cases c) (simp_all add: host_op_defs checked_mutation_revision_def forget_def)

lemma host_apply_atomic: "atomic h (host_apply c r h)"
  by (cases c) (auto simp: host_op_defs intro!: atomic_intros atomic_forget split: HostLifecycle.split)

lemma host_apply_Ok:
  assumes "host_apply c r h = (Inr u, g)"
  shows "r = ah_revision h" and "checked_next (ah_revision h) = Inr (ah_revision g)"
  using assms by (cases c; auto simp: host_op_defs forget_Ok result_simps mutation_revision_Ok host_next_Ok
      split: HostLifecycle.splits if_splits)+

lemmas host_inversion = forget_Ok try_in_Ok_iff ok_or_Ok_iff guard_in_Ok mutation_revision_Ok host_next_Ok enrolled_Ok

text \<open>
  A success moves to the next revision, so only the parts of the invariant that do not mention the
  revision are left to each operation.
\<close>

definition host_facts :: "AgentHost \<Rightarrow> bool" where
  "host_facts h \<longleftrightarrow>
     (host_enrolled h \<longleftrightarrow> ah_credential_id h \<noteq> None)
     \<and> is_none_or (ah_credential_id h) (\<lambda>c. c |\<notin>| ah_retired_credentials h)
     \<and> is_none_or (ah_observed_revision h) (\<lambda>r. r \<le> ah_desired_revision h)
     \<and> is_none_or (ah_observation h) (\<lambda>ob. host_enrolled h \<and> ah_observed_revision h \<noteq> None
          \<and> ho_observed_at_millis ob < ho_heartbeat_expires_at_millis ob)
     \<and> (ah_lifecycle h = AwaitingEnrollment \<longrightarrow>
          ah_retired_credentials h = {||} \<and> ah_observed_revision h = None)
     \<and> valid_revision (ah_desired_revision h)"

definition host_inv :: "AgentHost \<Rightarrow> bool" where
  "host_inv h \<longleftrightarrow> host_facts h \<and> valid_revision (ah_revision h)
     \<and> (ah_revision h = Revision_INITIAL \<longrightarrow>
          ah_lifecycle h = AwaitingEnrollment \<and> ah_desired_revision h = Revision_INITIAL)"

lemma host_register_inv: "host_inv (host_register t h w)"
  by (simp add: host_inv_def host_facts_def host_register_def host_enrolled_def)

lemma host_enroll_facts: "host_facts h \<Longrightarrow> host_enroll r c h = (Inr u, g) \<Longrightarrow> host_facts g"
  by (cases "ah_lifecycle h") (auto simp: host_enroll_def host_inversion host_facts_def host_enrolled_def)

lemma rotate_facts: "host_facts h \<Longrightarrow> rotate_credential r c h = (Inr u, g) \<Longrightarrow> host_facts g"
  by (auto simp: rotate_credential_def host_inversion host_facts_def host_enrolled_def)

lemma advance_desired_facts: "host_facts h \<Longrightarrow> advance_desired_revision r h = (Inr u, g) \<Longrightarrow> host_facts g"
  using next_revision_facts [of "ah_desired_revision h" u]
  by (cases "ah_observed_revision h")
    (auto simp: advance_desired_revision_def host_inversion host_facts_def host_enrolled_def)

lemma heartbeat_facts:
  assumes "host_facts h" "host_record_heartbeat r c d health at ttl h = (Inr u, g)"
  shows "host_facts g"
  using assms by (auto simp: host_record_heartbeat_def host_inversion checked_add_i64_Some host_facts_def
      host_enrolled_def not_less)

lemma quarantine_facts:
  "host_facts h \<Longrightarrow> host_quarantine r h = (Inr u, g) \<Longrightarrow> host_facts g"
  "host_facts h \<Longrightarrow> clear_quarantine r h = (Inr u, g) \<Longrightarrow> host_facts g"
  by (cases "ah_lifecycle h"; auto simp: host_quarantine_def clear_quarantine_def host_inversion host_facts_def
      host_enrolled_def)+

lemma host_revoke_facts: "host_facts h \<Longrightarrow> host_revoke r h = (Inr u, g) \<Longrightarrow> host_facts g"
  by (auto simp: host_revoke_def host_inversion host_facts_def host_enrolled_def)

lemma host_apply_inv:
  assumes "host_inv h" "host_apply c r h = (Inr u, g)"
  shows "host_inv g"
proof -
  have "host_facts g"
    using assms by (cases c) (auto simp: forget_Ok host_inv_def intro: host_enroll_facts rotate_facts
        advance_desired_facts heartbeat_facts quarantine_facts host_revoke_facts)
  moreover have "valid_revision (ah_revision g)" "ah_revision g \<noteq> Revision_INITIAL"
    using next_revision_facts [OF _ host_apply_Ok(2) [OF assms(2)]] assms(1) by (auto simp: host_inv_def)
  ultimately show ?thesis by (simp add: host_inv_def)
qed

interpretation host_calls: revisioned_aggregate ah_revision host_apply "\<lambda>now _. RevisionConflict now" host_inv
proof unfold_locales
  fix s t :: AgentHost and c r e
  assume "host_apply c r s = (Inl e, t)"
  then show "t = s" using host_apply_atomic [of s c r] atomicD by simp
next
  fix s t :: AgentHost and c r x
  assume "host_inv s" "host_apply c r s = (Inr x, t)"
  then show "host_inv t \<and> checked_next (ah_revision s) = Inr (ah_revision t)"
    using host_apply_inv host_apply_Ok(2) by blast
qed (simp_all add: host_apply_stale host_inv_def)

section \<open>Credentials are spent once\<close>

lemma retired_grows:
  assumes "host_apply c r h = (Inr u, g)"
  shows "ah_retired_credentials h |\<subseteq>| ah_retired_credentials g"
  using assms
  by (cases c; cases "ah_lifecycle h") (auto simp: host_op_defs host_inversion split: option.splits)

lemma current_or_retired:
  assumes "host_facts h" "host_apply c r h = (Inr u, g)" "ah_credential_id h = Some k"
  shows "ah_credential_id g = Some k \<or> k |\<in>| ah_retired_credentials g"
  using assms
  by (cases c; cases "ah_lifecycle h")
    (auto simp: host_op_defs host_inversion host_facts_def host_enrolled_def split: option.splits)

lemma retired_not_current: "host_inv h \<Longrightarrow> k |\<in>| ah_retired_credentials h \<Longrightarrow> ah_credential_id h \<noteq> Some k"
  by (auto simp: host_inv_def host_facts_def)

definition spent_or_current :: "HostCredentialId \<Rightarrow> AgentHost \<Rightarrow> bool" where
  "spent_or_current k h = (ah_credential_id h = Some k \<or> k |\<in>| ah_retired_credentials h)"

lemma host_run_spent:
  assumes "host_inv h"
  shows "(k |\<in>| ah_retired_credentials h \<longrightarrow> k |\<in>| ah_retired_credentials (run_calls host_apply crs h))
    \<and> (spent_or_current k h \<longrightarrow> spent_or_current k (run_calls host_apply crs h))"
proof (rule host_calls.run_rel [OF assms])
  fix s t :: AgentHost and c r x
  assume "host_inv s" "host_apply c r s = (Inr x, t)"
  then show "(k |\<in>| ah_retired_credentials s \<longrightarrow> k |\<in>| ah_retired_credentials t)
      \<and> (spent_or_current k s \<longrightarrow> spent_or_current k t)"
    using retired_grows [of c r s x t] current_or_retired [of s c r x t k]
    by (auto simp: spent_or_current_def host_inv_def)
qed auto

lemma heartbeat_needs_current:
  "host_record_heartbeat r k d health at ttl h = (Inr x, g) \<Longrightarrow> ah_credential_id h = Some k"
  by (auto simp: host_record_heartbeat_def host_inversion)

text \<open>C29. A host credential is spent once: when it stops being the current one, by rotation or by
  revocation, no sequence of calls makes it current again and no heartbeat under it is accepted.\<close>
theorem host_credential_spent:
  assumes "host_inv h" "ah_credential_id h = Some k" "ah_credential_id (run_calls host_apply crs h) \<noteq> Some k"
  shows "ah_credential_id (run_calls host_apply ds (run_calls host_apply crs h)) \<noteq> Some k
    \<and> \<not> is_ok (fst (host_record_heartbeat r k d health at ttl
          (run_calls host_apply ds (run_calls host_apply crs h))))"
proof -
  let ?g = "run_calls host_apply crs h" and ?e = "run_calls host_apply ds (run_calls host_apply crs h)"
  have g: "host_inv ?g" by (rule host_calls.run_inv [OF assms(1)])
  have "k |\<in>| ah_retired_credentials ?g"
    using host_run_spent [OF assms(1), of k crs] assms(2,3) by (simp add: spent_or_current_def)
  then have "k |\<in>| ah_retired_credentials ?e" using host_run_spent [OF g, of k ds] by simp
  then have "ah_credential_id ?e \<noteq> Some k" by (rule retired_not_current [OF host_calls.run_inv [OF g]])
  then show ?thesis
    using heartbeat_needs_current [of r k d health at ttl ?e] by (auto simp: is_ok_iff) (metis prod.collapse)
qed

section \<open>Rehydration\<close>

lemma observation_of_snapshot [simp]: "observation_of (observation_snapshot ob) = ob"
  by (simp add: observation_of_def observation_snapshot_def)

lemma snapshot_of_observation [simp]: "observation_snapshot (observation_of ob) = ob"
  by (simp add: observation_of_def observation_snapshot_def)

lemma observation_of_sel [simp]:
  "ho_observed_at_millis (observation_of ob) = hos_observed_at_millis ob"
  "ho_heartbeat_expires_at_millis (observation_of ob) = hos_heartbeat_expires_at_millis ob"
  "hos_observed_at_millis (observation_snapshot x) = ho_observed_at_millis x"
  "hos_heartbeat_expires_at_millis (observation_snapshot x) = ho_heartbeat_expires_at_millis x"
  by (simp_all add: observation_of_def observation_snapshot_def)

lemma host_of_image_snapshot [simp]: "host_of_image (host_snapshot h) = h"
  by (cases h) (simp add: host_of_image_def host_snapshot_def map_inverse)

lemma snapshot_host_of_image [simp]: "host_snapshot (host_of_image s) = s"
  by (cases s) (simp add: host_of_image_def host_snapshot_def map_inverse)

text \<open>Rehydration of a host accepts exactly the images of hosts that satisfy the invariant and
  returns the host that was persisted, so no sequence of calls leads to a host that the next
  process cannot load.\<close>
theorem host_rehydrates:
  assumes "valid_revision (ahs_revision s)" "valid_revision (ahs_desired_revision s)"
  shows "host_from_snapshot s = Inr h \<longleftrightarrow> host_inv h \<and> s = host_snapshot h"
proof -
  have "host_from_snapshot s = Inr h \<longleftrightarrow> host_of_image s = h \<and> host_inv (host_of_image s)"
    using assms
    by (cases "ahs_credential_id s"; cases "ahs_observation s"; cases "ahs_observed_revision s"; cases "ahs_lifecycle s")
      (auto simp: host_from_snapshot_def host_inv_def host_facts_def host_enrolled_def host_of_image_def
        revision_initial_iff not_less)
  then show ?thesis by (metis host_of_image_snapshot snapshot_host_of_image)
qed

section \<open>Concrete hosts\<close>

definition demo_host :: AgentHost where
  "demo_host = run_calls host_apply [(EnrollHost (UuidId 7), Revision 1)]
     (host_register (UuidId 1) (UuidId 2) (PublicId 3))"

lemma demo_host_inv: "host_inv demo_host"
  unfolding demo_host_def by (rule host_calls.run_inv [OF host_register_inv])

lemmas host_eval = demo_host_def host_register_def host_op_defs checked_mutation_revision_def host_checked_next_def
  checked_next_def Revision_INITIAL_def Revision_MAX_def ensure_enrolled_and_mutable_def forget_def

theorem host_credential_spent_witness:
  "ah_credential_id (run_calls host_apply [(RevokeHost, Revision 3)]
      (run_calls host_apply [(RotateCredential (UuidId 8), Revision 2)] demo_host)) \<noteq> Some (UuidId 7)"
proof -
  have "ah_credential_id demo_host = Some (UuidId 7)" by (simp add: host_eval)
  moreover have "ah_credential_id (run_calls host_apply [(RotateCredential (UuidId 8), Revision 2)] demo_host) \<noteq> Some (UuidId 7)"
    by (simp add: host_eval)
  ultimately show ?thesis
    using host_credential_spent [OF demo_host_inv, of "UuidId 7"] by blast
qed

theorem host_rehydrates_witness: "host_from_snapshot (host_snapshot demo_host) = Inr demo_host"
proof -
  have "valid_revision (ah_revision demo_host)" "valid_revision (ah_desired_revision demo_host)"
    using demo_host_inv by (simp_all add: host_inv_def host_facts_def)
  then show ?thesis using host_rehydrates [of "host_snapshot demo_host" demo_host] demo_host_inv
    by (simp add: host_snapshot_def)
qed

end
