(* ===== verification/Connector.thy ===== *)
theory Connector
  imports Agent_Host Calls
begin

text \<open>
  The crate \<open>dtx-connect-registry\<close>, file \<open>connector.rs\<close>: the aggregate of one connector process with
  its boots, its leases and its specification revisions. Histories are lists in the order of the
  source; \<open>active_lease_index\<close> is an index into the list of leases, and an index out of range is a
  panic where the source indexes the vector.
\<close>

section \<open>Data\<close>

definition MAX_LEASE_TTL_MILLIS :: int where "MAX_LEASE_TTL_MILLIS = 86400000"

datatype AdapterKind = Codex | OpenClawAcp | Eino | Rig | ClaudeCode | CustomAcp | HermesAcp

datatype ConnectorDesiredState = Running | Draining | Stopped | Revoked

datatype ConnectorObservedState =
  ObservedEnrolling | ObservedStarting | ObservedReady | ObservedBusy | ObservedDegraded
| ObservedDraining | ObservedOffline | ObservedFailed | ObservedQuarantined | ObservedRevoked

datatype ConnectorGeneration = ConnectorGeneration (gen_get: u64)

datatype LeaseEpoch = LeaseEpoch (epoch_get: u64)

record ConnectorFence =
  cf_tenant_id :: TenantId
  cf_connector_id :: ConnectorId
  cf_generation :: ConnectorGeneration
  cf_boot_id :: BootId
  cf_lease_id :: LeaseId
  cf_lease_epoch :: LeaseEpoch

datatype LeaseStatus = LeaseActive | LeaseExpiredStatus | LeaseRevokedStatus | LeaseSuperseded

record HeartbeatAck =
  ack_sequence :: u64
  ack_lease_expires_at_millis :: int

record HeartbeatRecord =
  hb_sequence :: u64
  hb_state :: ConnectorObservedState
  hb_capacity_available :: u32
  hb_ack :: HeartbeatAck

record ConnectorLease =
  cl_fence :: ConnectorFence
  cl_issued_at_millis :: int
  cl_expires_at_millis :: int
  cl_ttl_millis :: int
  cl_status :: LeaseStatus
  cl_last_heartbeat :: "HeartbeatRecord option"
  cl_last_heartbeat_at_millis :: "int option"

record ConnectorBoot =
  cb_tenant_id :: TenantId
  cb_parent_id :: ConnectorId
  cb_boot_id :: BootId
  cb_generation :: ConnectorGeneration
  cb_started_at_millis :: int
  cb_ended_at_millis :: "int option"

record ConnectorRevision =
  cr_tenant_id :: TenantId
  cr_connector_id :: ConnectorId
  cr_revision :: Revision
  cr_generation :: ConnectorGeneration
  cr_adapter_kind :: AdapterKind
  cr_desired_state :: ConnectorDesiredState
  cr_max_concurrency :: u32

record Connector =
  cn_tenant_id :: TenantId
  cn_id :: ConnectorId
  cn_host_id :: HostId
  cn_adapter_kind :: AdapterKind
  cn_generation :: ConnectorGeneration
  cn_desired_state :: ConnectorDesiredState
  cn_observed_state :: ConnectorObservedState
  cn_max_concurrency :: u32
  cn_boots :: "ConnectorBoot list"
  cn_current_boot_id :: "BootId option"
  cn_leases :: "ConnectorLease list"
  cn_active_lease_index :: "nat option"
  cn_highest_lease_epoch :: "LeaseEpoch option"
  cn_server_time_high_water_millis :: "int option"
  cn_spec_revision :: Revision
  cn_revisions :: "ConnectorRevision list"

datatype ConnectorError =
  InvalidCapacity | HostNotActive | ServerTimeRegressed | InvalidLeaseWindow | LeaseTimeRegressed
| StaleBoot | BootConflict | BootTimeRegressed | StaleLease | LeaseExpired | LeaseRevoked
| LeaseConflict | LeaseNotExpired | StaleHeartbeat | InvalidHeartbeatSequence | HeartbeatConflict
| HeartbeatTooFrequent | InvalidHeartbeatTime | InvalidObservedState | WrongConnector | WrongTenant
| ConnectorRevoked | ConnectorNotRunning | InvalidDesiredTransition | ConnectorRevisionConflict
| ConnectorCounterExhausted

type_synonym 'a connector_op = "Connector \<Rightarrow> (ConnectorError + 'a) \<times> Connector"

section \<open>Counters and lists\<close>

definition generation_initial :: ConnectorGeneration where
  "generation_initial = ConnectorGeneration 1"

definition generation_checked_next :: "ConnectorGeneration \<Rightarrow> ConnectorError + ConnectorGeneration" where
  "generation_checked_next self =
     (if gen_get self = Revision_MAX then Inl ConnectorCounterExhausted
      else Inr (ConnectorGeneration (gen_get self + 1)))"

definition saturating_succ :: "u64 \<Rightarrow> u64" where
  "saturating_succ v = (case checked_add v 1 of Some w \<Rightarrow> w | None \<Rightarrow> v)"

definition epoch_checked_next :: "LeaseEpoch option \<Rightarrow> ConnectorError + LeaseEpoch" where
  "epoch_checked_next latest =
     (let n = (case latest of None \<Rightarrow> 1 | Some value \<Rightarrow> saturating_succ (epoch_get value))
      in if n = 0 \<or> n > Revision_MAX then Inl ConnectorCounterExhausted else Inr (LeaseEpoch n))"

definition last_of :: "'a list \<Rightarrow> 'a option" where
  "last_of xs = (if xs = [] then None else Some (last xs))"

definition update_last :: "('a \<Rightarrow> 'a) \<Rightarrow> 'a list \<Rightarrow> 'a list" where
  "update_last f xs = (if xs = [] then [] else butlast xs @ [f (last xs)])"

definition get_at :: "'a list \<Rightarrow> nat \<Rightarrow> 'a option" where
  "get_at xs i = (if i < length xs then Some (xs ! i) else None)"

fun position :: "('a \<Rightarrow> bool) \<Rightarrow> 'a list \<Rightarrow> nat option" where
  "position P [] = None"
| "position P (x # xs) = (if P x then Some 0 else map_option Suc (position P xs))"

section \<open>Helpers of the aggregate\<close>

definition ensure_server_time_not_regressed :: "Connector \<Rightarrow> int \<Rightarrow> ConnectorError + unit" where
  "ensure_server_time_not_regressed self candidate =
     (if is_some_and (cn_server_time_high_water_millis self) (\<lambda>high_water. candidate < high_water)
      then Inl ServerTimeRegressed else Inr ())"

definition advanced_high_water :: "int option \<Rightarrow> int \<Rightarrow> int option" where
  "advanced_high_water high candidate =
     Some (case high of None \<Rightarrow> candidate | Some high_water \<Rightarrow> max high_water candidate)"

definition advance_server_time_high_water :: "int \<Rightarrow> Connector \<Rightarrow> Connector" where
  "advance_server_time_high_water candidate self =
     self\<lparr> cn_server_time_high_water_millis :=
       advanced_high_water (cn_server_time_high_water_millis self) candidate \<rparr>"

definition terminalize_active_lease :: "LeaseStatus \<Rightarrow> Connector \<Rightarrow> Connector" where
  "terminalize_active_lease status self =
     (case cn_active_lease_index self of
        None \<Rightarrow> self
      | Some index \<Rightarrow>
          self\<lparr> cn_active_lease_index := None,
            cn_leases := (case get_at (cn_leases self) index of
                Some lease \<Rightarrow> if cl_status lease = LeaseActive
                  then (cn_leases self)[index := lease\<lparr> cl_status := status \<rparr>] else cn_leases self
              | None \<Rightarrow> cn_leases self) \<rparr>)"

definition append_current_revision :: "Connector \<Rightarrow> Connector" where
  "append_current_revision self =
     self\<lparr> cn_revisions := cn_revisions self @
       [\<lparr> cr_tenant_id = cn_tenant_id self, cr_connector_id = cn_id self,
          cr_revision = cn_spec_revision self, cr_generation = cn_generation self,
          cr_adapter_kind = cn_adapter_kind self, cr_desired_state = cn_desired_state self,
          cr_max_concurrency = cn_max_concurrency self \<rparr>] \<rparr>"

definition close_boot :: "int \<Rightarrow> ConnectorBoot \<Rightarrow> ConnectorBoot" where
  "close_boot ended_at b =
     (if cb_ended_at_millis b = None then b\<lparr> cb_ended_at_millis := Some ended_at \<rparr> else b)"

definition close_current_boot :: "int \<Rightarrow> Connector \<Rightarrow> Connector" where
  "close_current_boot ended_at self =
     self\<lparr> cn_boots := update_last (close_boot ended_at) (cn_boots self) \<rparr>"

definition validate_boot_close_time :: "Connector \<Rightarrow> int \<Rightarrow> ConnectorError + unit" where
  "validate_boot_close_time self ended_at =
     (if is_some_and (last_of (cn_boots self))
           (\<lambda>b. cb_ended_at_millis b = None \<and> ended_at < cb_started_at_millis b)
      then Inl BootTimeRegressed else Inr ())"

definition valid_desired_transition :: "ConnectorDesiredState \<Rightarrow> ConnectorDesiredState \<Rightarrow> bool" where
  "valid_desired_transition previous now \<longleftrightarrow>
     (case previous of
        Running \<Rightarrow> now \<in> {Draining, Stopped, Revoked}
      | Draining \<Rightarrow> now \<in> {Running, Stopped, Revoked}
      | Stopped \<Rightarrow> now \<in> {Running, Revoked}
      | Revoked \<Rightarrow> False)"

section \<open>Operations\<close>

definition connector_register ::
  "AgentHost \<Rightarrow> ConnectorId \<Rightarrow> AdapterKind \<Rightarrow> u32 \<Rightarrow> ConnectorError + Connector" where
  "connector_register host connector_id adapter_kind max_concurrency =
     (if ah_lifecycle host \<noteq> HostActive then Inl HostNotActive
      else if max_concurrency = 0 then Inl InvalidCapacity
      else Inr \<lparr> cn_tenant_id = ah_tenant_id host, cn_id = connector_id, cn_host_id = ah_host_id host,
        cn_adapter_kind = adapter_kind, cn_generation = generation_initial,
        cn_desired_state = Running, cn_observed_state = ObservedEnrolling,
        cn_max_concurrency = max_concurrency, cn_boots = [], cn_current_boot_id = None,
        cn_leases = [], cn_active_lease_index = None, cn_highest_lease_epoch = None,
        cn_server_time_high_water_millis = None, cn_spec_revision = Revision_INITIAL,
        cn_revisions = [\<lparr> cr_tenant_id = ah_tenant_id host, cr_connector_id = connector_id,
          cr_revision = Revision_INITIAL, cr_generation = generation_initial,
          cr_adapter_kind = adapter_kind, cr_desired_state = Running,
          cr_max_concurrency = max_concurrency \<rparr>] \<rparr>)"

definition begin_boot :: "BootId \<Rightarrow> int \<Rightarrow> unit connector_op" where
  "begin_boot boot_id started_at self =
     (if cn_desired_state self = Revoked then (Inl ConnectorRevoked, self)
      else if cn_desired_state self = Stopped then (Inl ConnectorNotRunning, self)
      else case find (\<lambda>b. cb_boot_id b = boot_id) (cn_boots self) of
        Some existing \<Rightarrow>
          if cb_ended_at_millis existing = None \<and> cb_generation existing = cn_generation self
             \<and> cb_started_at_millis existing = started_at \<and> cn_current_boot_id self = Some boot_id
          then (Inr (), self) else (Inl BootConflict, self)
      | None \<Rightarrow>
          if is_some_and (last_of (cn_boots self)) (\<lambda>b. started_at <
               (case cb_ended_at_millis b of Some ended \<Rightarrow> ended | None \<Rightarrow> cb_started_at_millis b))
          then (Inl BootTimeRegressed, self)
          else try_in self (ensure_server_time_not_regressed self started_at) (\<lambda>_.
            let closed = close_current_boot started_at self;
                pushed = closed\<lparr> cn_boots := cn_boots closed @
                  [\<lparr> cb_tenant_id = cn_tenant_id self, cb_parent_id = cn_id self, cb_boot_id = boot_id,
                     cb_generation = cn_generation self, cb_started_at_millis = started_at,
                     cb_ended_at_millis = None \<rparr>],
                  cn_current_boot_id := Some boot_id \<rparr>;
                fenced = terminalize_active_lease LeaseSuperseded pushed
            in (Inr (), advance_server_time_high_water started_at
                  (fenced\<lparr> cn_observed_state := ObservedStarting \<rparr>))))"

definition lease_not_before :: "Connector \<Rightarrow> int \<Rightarrow> int" where
  "lease_not_before self boot_started_at =
     (let last_issued = (case last_of (cn_leases self) of
            None \<Rightarrow> boot_started_at | Some lease \<Rightarrow> cl_issued_at_millis lease);
          last_seen = (case Option.bind (last_of (cn_leases self)) cl_last_heartbeat_at_millis of
            None \<Rightarrow> last_issued | Some at \<Rightarrow> at)
      in max (max last_seen last_issued) boot_started_at)"

definition issue_lease :: "LeaseId \<Rightarrow> BootId \<Rightarrow> int \<Rightarrow> int \<Rightarrow> ConnectorFence connector_op" where
  "issue_lease lease_id boot_id issued_at expires_at self =
     (if cn_desired_state self = Revoked then (Inl ConnectorRevoked, self)
      else if cn_desired_state self = Stopped then (Inl ConnectorNotRunning, self)
      else if cn_current_boot_id self \<noteq> Some boot_id then (Inl StaleBoot, self)
      else if expires_at \<le> issued_at then (Inl InvalidLeaseWindow, self)
      else try_in self (ok_or InvalidLeaseWindow (checked_sub_i64 expires_at issued_at)) (\<lambda>ttl.
        if ttl > MAX_LEASE_TTL_MILLIS then (Inl InvalidLeaseWindow, self)
        else case find (\<lambda>l. cf_lease_id (cl_fence l) = lease_id) (cn_leases self) of
          Some existing \<Rightarrow>
            if cf_boot_id (cl_fence existing) = boot_id \<and> cl_issued_at_millis existing = issued_at
               \<and> cl_ttl_millis existing = ttl
            then (Inr (cl_fence existing), self) else (Inl LeaseConflict, self)
        | None \<Rightarrow>
            try_in self (ok_or StaleBoot (map_option cb_started_at_millis
                (case last_of (cn_boots self) of
                   Some b \<Rightarrow> if cb_boot_id b = boot_id then Some b else None
                 | None \<Rightarrow> None))) (\<lambda>boot_started_at.
              if issued_at < lease_not_before self boot_started_at then (Inl LeaseTimeRegressed, self)
              else try_in self (ensure_server_time_not_regressed self issued_at) (\<lambda>_.
                try_in self (epoch_checked_next (cn_highest_lease_epoch self)) (\<lambda>lease_epoch.
                  let fence = \<lparr> cf_tenant_id = cn_tenant_id self, cf_connector_id = cn_id self,
                        cf_generation = cn_generation self, cf_boot_id = boot_id,
                        cf_lease_id = lease_id, cf_lease_epoch = lease_epoch \<rparr>;
                      fenced = terminalize_active_lease LeaseSuperseded self;
                      leases = cn_leases fenced @
                        [\<lparr> cl_fence = fence, cl_issued_at_millis = issued_at,
                           cl_expires_at_millis = expires_at, cl_ttl_millis = ttl,
                           cl_status = LeaseActive, cl_last_heartbeat = None,
                           cl_last_heartbeat_at_millis = None \<rparr>]
                  in (Inr fence, advance_server_time_high_water issued_at
                        (fenced\<lparr> cn_highest_lease_epoch := Some lease_epoch, cn_leases := leases,
                           cn_active_lease_index := Some (length leases - 1),
                           cn_observed_state := ObservedStarting \<rparr>)))))))"

definition validate_fence_coordinates :: "Connector \<Rightarrow> ConnectorFence \<Rightarrow> ConnectorError + ConnectorLease" where
  "validate_fence_coordinates self fence =
     (if cf_tenant_id fence \<noteq> cn_tenant_id self then Inl WrongTenant
      else if cf_connector_id fence \<noteq> cn_id self then Inl WrongConnector
      else if cf_generation fence \<noteq> cn_generation self \<or> cn_current_boot_id self \<noteq> Some (cf_boot_id fence) then
        Inl StaleLease
      else res_bind (ok_or StaleLease (position (\<lambda>l. cl_fence l = fence) (cn_leases self))) (\<lambda>index.
        let now = cn_leases self ! index
        in case cl_status now of
             LeaseActive \<Rightarrow> if cn_active_lease_index self = Some index then Inr now else Inl StaleLease
           | LeaseExpiredStatus \<Rightarrow> Inl LeaseExpired
           | LeaseRevokedStatus \<Rightarrow> Inl LeaseRevoked
           | LeaseSuperseded \<Rightarrow> Inl StaleLease))"

definition validate_fence :: "Connector \<Rightarrow> ConnectorFence \<Rightarrow> int \<Rightarrow> ConnectorError + unit" where
  "validate_fence self fence now =
     res_bind (validate_fence_coordinates self fence) (\<lambda>held.
       if now \<ge> cl_expires_at_millis held then Inl LeaseExpired else Inr ())"

datatype HeartbeatDisposition = Replay HeartbeatAck | Advance HeartbeatAck

definition server_derived :: "ConnectorObservedState \<Rightarrow> bool" where
  "server_derived state = (state = ObservedOffline \<or> state = ObservedRevoked)"

definition advance_heartbeat ::
  "ConnectorLease \<Rightarrow> u64 \<Rightarrow> int \<Rightarrow> int option \<Rightarrow> ConnectorError + HeartbeatDisposition" where
  "advance_heartbeat held sequence observed_at high_water =
     (if is_some_and high_water (\<lambda>high. observed_at < high) then Inl ServerTimeRegressed
      else if observed_at \<ge> cl_expires_at_millis held then Inl LeaseExpired
      else res_bind (ok_or InvalidHeartbeatTime (checked_add_i64 observed_at (cl_ttl_millis held))) (\<lambda>expires_at.
        Inr (Advance \<lparr> ack_sequence = sequence, ack_lease_expires_at_millis = expires_at \<rparr>)))"

definition evaluate_heartbeat ::
  "ConnectorLease \<Rightarrow> u64 \<Rightarrow> int \<Rightarrow> ConnectorObservedState \<Rightarrow> u32 \<Rightarrow> u32 \<Rightarrow> int \<Rightarrow> int option
    \<Rightarrow> ConnectorError + HeartbeatDisposition" where
  "evaluate_heartbeat held sequence observed_at state capacity max_concurrency minimum_interval high_water =
     (if observed_at < cl_issued_at_millis held \<or> minimum_interval \<le> 0 then Inl InvalidHeartbeatTime
      else if sequence = 0 \<or> sequence > Revision_MAX then Inl InvalidHeartbeatSequence
      else if server_derived state then Inl InvalidObservedState
      else if capacity > max_concurrency then Inl InvalidCapacity
      else case cl_last_heartbeat held of
        Some previous \<Rightarrow>
          if sequence < hb_sequence previous then Inl StaleHeartbeat
          else if sequence = hb_sequence previous then
            (if hb_state previous = state \<and> hb_capacity_available previous = capacity
             then Inr (Replay (hb_ack previous)) else Inl HeartbeatConflict)
          else if is_some_and (cl_last_heartbeat_at_millis held) (\<lambda>last_seen. observed_at < last_seen) then
            Inl InvalidHeartbeatTime
          else if is_some_and (cl_last_heartbeat_at_millis held) (\<lambda>last_seen.
               is_none_or (checked_sub_i64 observed_at last_seen) (\<lambda>elapsed. elapsed < minimum_interval)) then
            Inl HeartbeatTooFrequent
          else advance_heartbeat held sequence observed_at high_water
      | None \<Rightarrow> advance_heartbeat held sequence observed_at high_water)"

definition heartbeat_lease ::
  "u64 \<Rightarrow> int \<Rightarrow> ConnectorObservedState \<Rightarrow> u32 \<Rightarrow> HeartbeatAck \<Rightarrow> ConnectorLease \<Rightarrow> ConnectorLease" where
  "heartbeat_lease sequence observed_at state capacity ack held =
     held\<lparr> cl_expires_at_millis := ack_lease_expires_at_millis ack,
       cl_last_heartbeat := Some \<lparr> hb_sequence = sequence, hb_state = state,
         hb_capacity_available = capacity, hb_ack = ack \<rparr>,
       cl_last_heartbeat_at_millis := Some observed_at \<rparr>"

definition record_heartbeat ::
  "ConnectorFence \<Rightarrow> u64 \<Rightarrow> int \<Rightarrow> ConnectorObservedState \<Rightarrow> u32 \<Rightarrow> int \<Rightarrow> HeartbeatAck connector_op" where
  "record_heartbeat fence sequence observed_at state capacity minimum_interval self =
     try_in self (validate_fence_coordinates self fence) (\<lambda>held.
     try_in self (evaluate_heartbeat held sequence observed_at state capacity (cn_max_concurrency self)
         minimum_interval (cn_server_time_high_water_millis self)) (\<lambda>disposition.
       case disposition of
         Replay ack \<Rightarrow> (Inr ack, self)
       | Advance ack \<Rightarrow>
           (case cn_active_lease_index self of
              None \<Rightarrow> (Inl StaleLease, self)
            | Some index \<Rightarrow> (case get_at (cn_leases self) index of
                None \<Rightarrow> (Inl StaleLease, self)
              | Some lease \<Rightarrow> (Inr ack, advance_server_time_high_water observed_at
                  (self\<lparr> cn_leases := (cn_leases self)[index :=
                       heartbeat_lease sequence observed_at state capacity ack lease],
                     cn_observed_state := state \<rparr>))))))"

definition effective_observed_state :: "Connector \<Rightarrow> int \<Rightarrow> ConnectorObservedState" where
  "effective_observed_state self now =
     (if cn_desired_state self = Revoked then ObservedRevoked
      else if is_some_and (Option.bind (cn_active_lease_index self) (get_at (cn_leases self)))
          (\<lambda>lease. cl_status lease = LeaseActive \<and> now < cl_expires_at_millis lease)
      then cn_observed_state self else ObservedOffline)"

text \<open>The two methods that index the vector of leases: \<open>Panic\<close> is an index out of range.\<close>

definition expire_lease :: "ConnectorFence \<Rightarrow> int \<Rightarrow> int \<Rightarrow> Connector \<Rightarrow> (ConnectorError fault + unit) \<times> Connector" where
  "expire_lease fence expected_expires_at now self =
     try_in self (map_err Fail (validate_fence_coordinates self fence)) (\<lambda>_.
     try_in self (ok_or (Fail StaleLease) (cn_active_lease_index self)) (\<lambda>index.
     try_in self (ok_or Panic (get_at (cn_leases self) index)) (\<lambda>lease.
       if cl_expires_at_millis lease \<noteq> expected_expires_at then (Inl (Fail LeaseConflict), self)
       else if now < cl_expires_at_millis lease then (Inl (Fail LeaseNotExpired), self)
       else try_in self (map_err Fail (ensure_server_time_not_regressed self now)) (\<lambda>_.
         (Inr (), advance_server_time_high_water now
            (self\<lparr> cn_leases := (cn_leases self)[index := lease\<lparr> cl_status := LeaseExpiredStatus \<rparr>],
               cn_active_lease_index := None, cn_observed_state := ObservedOffline \<rparr>))))))"

definition revoke_lease :: "ConnectorFence \<Rightarrow> Connector \<Rightarrow> (ConnectorError fault + unit) \<times> Connector" where
  "revoke_lease fence self =
     try_in self (map_err Fail (validate_fence_coordinates self fence)) (\<lambda>_.
     try_in self (ok_or (Fail StaleLease) (cn_active_lease_index self)) (\<lambda>index.
     try_in self (ok_or Panic (get_at (cn_leases self) index)) (\<lambda>lease.
       (Inr (), self\<lparr> cn_leases := (cn_leases self)[index := lease\<lparr> cl_status := LeaseRevokedStatus \<rparr>],
          cn_active_lease_index := None, cn_observed_state := ObservedOffline \<rparr>))))"

definition connector_next_revision :: "Connector \<Rightarrow> ConnectorError + Revision" where
  "connector_next_revision self =
     map_err (\<lambda>_. ConnectorCounterExhausted) (checked_next (cn_spec_revision self))"

definition advance_generation :: "Revision \<Rightarrow> int \<Rightarrow> ConnectorGeneration connector_op" where
  "advance_generation expected_revision changed_at self =
     (if cn_spec_revision self \<noteq> expected_revision then (Inl ConnectorRevisionConflict, self)
      else if cn_desired_state self = Revoked then (Inl ConnectorRevoked, self)
      else try_in self (ensure_server_time_not_regressed self changed_at) (\<lambda>_.
        try_in self (validate_boot_close_time self changed_at) (\<lambda>_.
        try_in self (generation_checked_next (cn_generation self)) (\<lambda>next_generation.
        try_in self (connector_next_revision self) (\<lambda>next_revision.
          let closed = (close_current_boot changed_at self)\<lparr> cn_generation := next_generation,
                cn_spec_revision := next_revision, cn_current_boot_id := None \<rparr>;
              fenced = (terminalize_active_lease LeaseSuperseded closed)\<lparr> cn_observed_state := ObservedOffline \<rparr>
          in (Inr next_generation,
              append_current_revision (advance_server_time_high_water changed_at fenced)))))))"

definition revise_live_configuration :: "Revision \<Rightarrow> ConnectorDesiredState \<Rightarrow> int \<Rightarrow> Revision connector_op" where
  "revise_live_configuration expected_revision desired_state changed_at self =
     (if cn_spec_revision self \<noteq> expected_revision then (Inl ConnectorRevisionConflict, self)
      else if cn_desired_state self = Revoked then (Inl ConnectorRevoked, self)
      else if \<not> (desired_state = Running \<or> desired_state = Draining)
          \<or> (cn_desired_state self \<noteq> desired_state
             \<and> \<not> valid_desired_transition (cn_desired_state self) desired_state) then
        (Inl InvalidDesiredTransition, self)
      else try_in self (ensure_server_time_not_regressed self changed_at) (\<lambda>_.
        try_in self (connector_next_revision self) (\<lambda>next_revision.
          let revised = self\<lparr> cn_spec_revision := next_revision, cn_desired_state := desired_state,
                cn_observed_state := (if desired_state = Draining then ObservedDraining
                  else cn_observed_state self) \<rparr>
          in (Inr next_revision,
              append_current_revision (advance_server_time_high_water changed_at revised)))))"

definition apply_desired_state :: "ConnectorDesiredState \<Rightarrow> int \<Rightarrow> Connector \<Rightarrow> Connector" where
  "apply_desired_state desired_state changed_at self =
     (case desired_state of
        Draining \<Rightarrow> self\<lparr> cn_observed_state := ObservedDraining \<rparr>
      | Stopped \<Rightarrow> (terminalize_active_lease LeaseRevokedStatus
            ((close_current_boot changed_at self)\<lparr> cn_current_boot_id := None \<rparr>))\<lparr>
              cn_observed_state := ObservedOffline \<rparr>
      | Revoked \<Rightarrow> (terminalize_active_lease LeaseRevokedStatus
            ((close_current_boot changed_at self)\<lparr> cn_current_boot_id := None \<rparr>))\<lparr>
              cn_observed_state := ObservedRevoked \<rparr>
      | Running \<Rightarrow> self)"

definition set_desired_state :: "Revision \<Rightarrow> ConnectorDesiredState \<Rightarrow> int \<Rightarrow> Revision connector_op" where
  "set_desired_state expected_revision desired_state changed_at self =
     (if cn_spec_revision self \<noteq> expected_revision then (Inl ConnectorRevisionConflict, self)
      else if cn_desired_state self = Revoked then (Inl ConnectorRevoked, self)
      else if cn_desired_state self = desired_state then (Inr (cn_spec_revision self), self)
      else try_in self (ensure_server_time_not_regressed self changed_at) (\<lambda>_.
        if \<not> valid_desired_transition (cn_desired_state self) desired_state then
          (Inl InvalidDesiredTransition, self)
        else try_in self (if desired_state = Stopped \<or> desired_state = Revoked
            then validate_boot_close_time self changed_at else Inr ()) (\<lambda>_.
          try_in self (connector_next_revision self) (\<lambda>next_revision.
            (Inr next_revision, append_current_revision (advance_server_time_high_water changed_at
               (apply_desired_state desired_state changed_at
                 (self\<lparr> cn_spec_revision := next_revision, cn_desired_state := desired_state \<rparr>))))))))"

end
