(* ===== verification/Connector_Snapshot.thy ===== *)
theory Connector_Snapshot
  imports Connector
begin

text \<open>
  The durable image of a connector and its rehydration, \<open>Connector::snapshot\<close> and
  \<open>Connector::try_from_snapshot\<close>. The loops of the source run over an enumeration, so each check is a
  function of the index, of the record at that index and of the whole image.
\<close>

section \<open>Images\<close>

record HeartbeatAckSnapshot =
  acks_sequence :: u64
  acks_lease_expires_at_millis :: int

record HeartbeatRecordSnapshot =
  hbs_sequence :: u64
  hbs_state :: ConnectorObservedState
  hbs_capacity_available :: u32
  hbs_ack :: HeartbeatAckSnapshot

record ConnectorBootSnapshot =
  cbs_tenant_id :: TenantId
  cbs_connector_id :: ConnectorId
  cbs_boot_id :: BootId
  cbs_generation :: u64
  cbs_started_at_millis :: int
  cbs_ended_at_millis :: "int option"

record ConnectorLeaseSnapshot =
  cls_tenant_id :: TenantId
  cls_connector_id :: ConnectorId
  cls_generation :: u64
  cls_boot_id :: BootId
  cls_lease_id :: LeaseId
  cls_lease_epoch :: u64
  cls_issued_at_millis :: int
  cls_expires_at_millis :: int
  cls_ttl_millis :: int
  cls_status :: LeaseStatus
  cls_last_heartbeat :: "HeartbeatRecordSnapshot option"
  cls_last_heartbeat_at_millis :: "int option"

record ConnectorRevisionSnapshot =
  crs_tenant_id :: TenantId
  crs_connector_id :: ConnectorId
  crs_revision :: Revision
  crs_generation :: u64
  crs_adapter_kind :: AdapterKind
  crs_desired_state :: ConnectorDesiredState
  crs_max_concurrency :: u32

record ConnectorSnapshot =
  cns_tenant_id :: TenantId
  cns_connector_id :: ConnectorId
  cns_host_id :: HostId
  cns_adapter_kind :: AdapterKind
  cns_generation :: u64
  cns_desired_state :: ConnectorDesiredState
  cns_observed_state :: ConnectorObservedState
  cns_max_concurrency :: u32
  cns_boots :: "ConnectorBootSnapshot list"
  cns_current_boot_id :: "BootId option"
  cns_leases :: "ConnectorLeaseSnapshot list"
  cns_active_lease_index :: "nat option"
  cns_highest_lease_epoch :: "u64 option"
  cns_server_time_high_water_millis :: "int option"
  cns_spec_revision :: Revision
  cns_revisions :: "ConnectorRevisionSnapshot list"

datatype ConnectorSnapshotError =
  InvalidGeneration | SnapshotInvalidCapacity | InvalidRevisionHistory | InvalidBootHistory
| InvalidCurrentBoot | InvalidLeaseHistory | InvalidActiveLease | InvalidHeartbeat
| InvalidTerminalState | InvalidServerTimeHighWater

section \<open>Writing an image\<close>

definition heartbeat_image :: "HeartbeatRecord \<Rightarrow> HeartbeatRecordSnapshot" where
  "heartbeat_image h =
     \<lparr> hbs_sequence = hb_sequence h, hbs_state = hb_state h,
       hbs_capacity_available = hb_capacity_available h,
       hbs_ack = \<lparr> acks_sequence = ack_sequence (hb_ack h),
         acks_lease_expires_at_millis = ack_lease_expires_at_millis (hb_ack h) \<rparr> \<rparr>"

definition boot_image :: "ConnectorBoot \<Rightarrow> ConnectorBootSnapshot" where
  "boot_image b =
     \<lparr> cbs_tenant_id = cb_tenant_id b, cbs_connector_id = cb_parent_id b, cbs_boot_id = cb_boot_id b,
       cbs_generation = gen_get (cb_generation b), cbs_started_at_millis = cb_started_at_millis b,
       cbs_ended_at_millis = cb_ended_at_millis b \<rparr>"

definition lease_image :: "ConnectorLease \<Rightarrow> ConnectorLeaseSnapshot" where
  "lease_image l =
     \<lparr> cls_tenant_id = cf_tenant_id (cl_fence l), cls_connector_id = cf_connector_id (cl_fence l),
       cls_generation = gen_get (cf_generation (cl_fence l)), cls_boot_id = cf_boot_id (cl_fence l),
       cls_lease_id = cf_lease_id (cl_fence l),
       cls_lease_epoch = epoch_get (cf_lease_epoch (cl_fence l)),
       cls_issued_at_millis = cl_issued_at_millis l, cls_expires_at_millis = cl_expires_at_millis l,
       cls_ttl_millis = cl_ttl_millis l, cls_status = cl_status l,
       cls_last_heartbeat = map_option heartbeat_image (cl_last_heartbeat l),
       cls_last_heartbeat_at_millis = cl_last_heartbeat_at_millis l \<rparr>"

definition revision_image :: "ConnectorRevision \<Rightarrow> ConnectorRevisionSnapshot" where
  "revision_image r =
     \<lparr> crs_tenant_id = cr_tenant_id r, crs_connector_id = cr_connector_id r, crs_revision = cr_revision r,
       crs_generation = gen_get (cr_generation r), crs_adapter_kind = cr_adapter_kind r,
       crs_desired_state = cr_desired_state r, crs_max_concurrency = cr_max_concurrency r \<rparr>"

definition connector_snapshot :: "Connector \<Rightarrow> ConnectorSnapshot" where
  "connector_snapshot self =
     \<lparr> cns_tenant_id = cn_tenant_id self, cns_connector_id = cn_id self, cns_host_id = cn_host_id self,
       cns_adapter_kind = cn_adapter_kind self, cns_generation = gen_get (cn_generation self),
       cns_desired_state = cn_desired_state self, cns_observed_state = cn_observed_state self,
       cns_max_concurrency = cn_max_concurrency self, cns_boots = map boot_image (cn_boots self),
       cns_current_boot_id = cn_current_boot_id self, cns_leases = map lease_image (cn_leases self),
       cns_active_lease_index = cn_active_lease_index self,
       cns_highest_lease_epoch = map_option epoch_get (cn_highest_lease_epoch self),
       cns_server_time_high_water_millis = cn_server_time_high_water_millis self,
       cns_spec_revision = cn_spec_revision self, cns_revisions = map revision_image (cn_revisions self) \<rparr>"

section \<open>Reading an image\<close>

definition snapshot_generation :: "u64 \<Rightarrow> ConnectorSnapshotError + ConnectorGeneration" where
  "snapshot_generation value =
     (if value = 0 \<or> value > Revision_MAX then Inl InvalidGeneration else Inr (ConnectorGeneration value))"

definition snapshot_epoch :: "u64 \<Rightarrow> ConnectorSnapshotError + LeaseEpoch" where
  "snapshot_epoch value =
     (if value = 0 \<or> value > Revision_MAX then Inl InvalidLeaseHistory else Inr (LeaseEpoch value))"

definition heartbeat_of_image :: "HeartbeatRecordSnapshot \<Rightarrow> HeartbeatRecord" where
  "heartbeat_of_image h =
     \<lparr> hb_sequence = hbs_sequence h, hb_state = hbs_state h,
       hb_capacity_available = hbs_capacity_available h,
       hb_ack = \<lparr> ack_sequence = acks_sequence (hbs_ack h),
         ack_lease_expires_at_millis = acks_lease_expires_at_millis (hbs_ack h) \<rparr> \<rparr>"

definition snapshot_heartbeat ::
  "ConnectorLeaseSnapshot \<Rightarrow> u32 \<Rightarrow> ConnectorSnapshotError + HeartbeatRecord option" where
  "snapshot_heartbeat lease max_concurrency =
     (case (cls_last_heartbeat lease, cls_last_heartbeat_at_millis lease) of
        (None, None) \<Rightarrow>
          (if is_none_or (checked_add_i64 (cls_issued_at_millis lease) (cls_ttl_millis lease))
               (\<lambda>initial_expiry. initial_expiry \<noteq> cls_expires_at_millis lease)
           then Inl InvalidHeartbeat else Inr None)
      | (Some heartbeat, Some observed_at) \<Rightarrow>
          (if hbs_sequence heartbeat = 0 \<or> hbs_sequence heartbeat > Revision_MAX
              \<or> hbs_capacity_available heartbeat > max_concurrency
              \<or> server_derived (hbs_state heartbeat)
              \<or> observed_at < cls_issued_at_millis lease
              \<or> acks_sequence (hbs_ack heartbeat) \<noteq> hbs_sequence heartbeat
              \<or> acks_lease_expires_at_millis (hbs_ack heartbeat) \<noteq> cls_expires_at_millis lease
              \<or> is_none_or (checked_add_i64 observed_at (cls_ttl_millis lease))
                  (\<lambda>expected. expected \<noteq> cls_expires_at_millis lease)
           then Inl InvalidHeartbeat else Inr (Some (heartbeat_of_image heartbeat)))
      | _ \<Rightarrow> Inl InvalidHeartbeat)"

definition live_state :: "ConnectorDesiredState \<Rightarrow> bool" where
  "live_state desired = (desired = Running \<or> desired = Draining)"

definition revision_transition :: "ConnectorRevisionSnapshot \<Rightarrow> ConnectorRevisionSnapshot \<Rightarrow> bool" where
  "revision_transition previous revision =
     (if crs_generation revision = crs_generation previous then
        (crs_desired_state previous = crs_desired_state revision \<and> live_state (crs_desired_state revision))
        \<or> valid_desired_transition (crs_desired_state previous) (crs_desired_state revision)
      else is_some_and (checked_add (crs_generation previous) 1) (\<lambda>n. crs_generation revision = n)
        \<and> crs_desired_state revision = crs_desired_state previous)"

definition load_revision ::
  "ConnectorSnapshot \<Rightarrow> nat \<times> ConnectorRevisionSnapshot \<Rightarrow> ConnectorRevision list
    \<Rightarrow> ConnectorSnapshotError + ConnectorRevision list" where
  "load_revision s = (\<lambda>(index, revision) revisions.
     if crs_tenant_id revision \<noteq> cns_tenant_id s \<or> crs_connector_id revision \<noteq> cns_connector_id s
        \<or> unat (rev_get (crs_revision revision)) \<noteq> index + 1
        \<or> crs_adapter_kind revision \<noteq> cns_adapter_kind s
        \<or> crs_max_concurrency revision \<noteq> cns_max_concurrency s
        \<or> crs_generation revision = 0 \<or> crs_generation revision > cns_generation s then
       Inl InvalidRevisionHistory
     else if index = 0 \<and> (crs_generation revision \<noteq> gen_get generation_initial
          \<or> crs_desired_state revision \<noteq> Running) then Inl InvalidRevisionHistory
     else if index > 0 \<and> \<not> revision_transition (cns_revisions s ! (index - 1)) revision then
       Inl InvalidRevisionHistory
     else res_bind (snapshot_generation (crs_generation revision)) (\<lambda>generation.
       Inr (revisions @ [\<lparr> cr_tenant_id = crs_tenant_id revision,
         cr_connector_id = crs_connector_id revision, cr_revision = crs_revision revision,
         cr_generation = generation, cr_adapter_kind = crs_adapter_kind revision,
         cr_desired_state = crs_desired_state revision,
         cr_max_concurrency = crs_max_concurrency revision \<rparr>])))"

definition load_revisions :: "ConnectorSnapshot \<Rightarrow> ConnectorSnapshotError + ConnectorRevision list" where
  "load_revisions s =
     (if length (cns_revisions s) \<noteq> unat (rev_get (cns_spec_revision s)) \<or> cns_revisions s = [] then
        Inl InvalidRevisionHistory
      else res_bind (for_each (load_revision s) (enumerate 0 (cns_revisions s)) []) (\<lambda>revisions.
        res_bind (ok_or InvalidRevisionHistory (last_of (cns_revisions s))) (\<lambda>latest.
          if crs_generation latest \<noteq> cns_generation s \<or> crs_desired_state latest \<noteq> cns_desired_state s then
            Inl InvalidRevisionHistory
          else Inr revisions)))"

text \<open>The time a boot may be followed from: its end, or its start while it is open.\<close>

definition boot_follows :: "ConnectorBootSnapshot \<Rightarrow> ConnectorBootSnapshot \<Rightarrow> bool" where
  "boot_follows previous boot \<longleftrightarrow> cbs_generation boot \<ge> cbs_generation previous
     \<and> cbs_started_at_millis boot \<ge> (case cbs_ended_at_millis previous of
          Some ended \<Rightarrow> ended | None \<Rightarrow> cbs_started_at_millis previous)"

definition load_boot ::
  "ConnectorSnapshot \<Rightarrow> nat \<times> ConnectorBootSnapshot \<Rightarrow> BootId fset \<times> ConnectorBoot list
    \<Rightarrow> ConnectorSnapshotError + BootId fset \<times> ConnectorBoot list" where
  "load_boot s = (\<lambda>(index, boot) (seen, boots).
     if cbs_tenant_id boot \<noteq> cns_tenant_id s \<or> cbs_connector_id boot \<noteq> cns_connector_id s
        \<or> cbs_generation boot = 0 \<or> cbs_generation boot > cns_generation s
        \<or> cbs_boot_id boot |\<in>| seen
        \<or> is_some_and (cbs_ended_at_millis boot) (\<lambda>ended. ended < cbs_started_at_millis boot)
        \<or> (index + 1 < length (cns_boots s) \<and> cbs_ended_at_millis boot = None) then Inl InvalidBootHistory
     else if index > 0 \<and> \<not> boot_follows (cns_boots s ! (index - 1)) boot then Inl InvalidBootHistory
     else res_bind (snapshot_generation (cbs_generation boot)) (\<lambda>generation.
       Inr (finsert (cbs_boot_id boot) seen, boots @ [\<lparr> cb_tenant_id = cbs_tenant_id boot,
         cb_parent_id = cbs_connector_id boot, cb_boot_id = cbs_boot_id boot,
         cb_generation = generation, cb_started_at_millis = cbs_started_at_millis boot,
         cb_ended_at_millis = cbs_ended_at_millis boot \<rparr>])))"

definition open_boot_id :: "ConnectorSnapshot \<Rightarrow> BootId option" where
  "open_boot_id s = (case last_of (cns_boots s) of
       Some boot \<Rightarrow> if cbs_ended_at_millis boot = None then Some (cbs_boot_id boot) else None
     | None \<Rightarrow> None)"

definition load_boots :: "ConnectorSnapshot \<Rightarrow> ConnectorSnapshotError + ConnectorBoot list" where
  "load_boots s =
     res_bind (for_each (load_boot s) (enumerate 0 (cns_boots s)) ({||}, [])) (\<lambda>(_, boots).
       if cns_current_boot_id s \<noteq> open_boot_id s
          \<or> (open_boot_id s \<noteq> None \<and> (\<not> live_state (cns_desired_state s)
              \<or> is_none_or (last_of (cns_boots s)) (\<lambda>boot. cbs_generation boot \<noteq> cns_generation s)))
       then Inl InvalidCurrentBoot else Inr boots)"

definition lease_boot :: "ConnectorSnapshot \<Rightarrow> ConnectorLeaseSnapshot \<Rightarrow> ConnectorBootSnapshot option" where
  "lease_boot s lease =
     find (\<lambda>boot. cbs_boot_id boot = cls_boot_id lease \<and> cbs_generation boot = cls_generation lease) (cns_boots s)"

definition lease_of_image :: "ConnectorGeneration \<Rightarrow> LeaseEpoch \<Rightarrow> HeartbeatRecord option \<Rightarrow> ConnectorLeaseSnapshot \<Rightarrow> ConnectorLease" where
  "lease_of_image generation epoch heartbeat lease =
     \<lparr> cl_fence = \<lparr> cf_tenant_id = cls_tenant_id lease, cf_connector_id = cls_connector_id lease,
         cf_generation = generation, cf_boot_id = cls_boot_id lease,
         cf_lease_id = cls_lease_id lease, cf_lease_epoch = epoch \<rparr>,
       cl_issued_at_millis = cls_issued_at_millis lease, cl_expires_at_millis = cls_expires_at_millis lease,
       cl_ttl_millis = cls_ttl_millis lease, cl_status = cls_status lease,
       cl_last_heartbeat = heartbeat, cl_last_heartbeat_at_millis = cls_last_heartbeat_at_millis lease \<rparr>"

text \<open>
  The conditions of the source are evaluated in order; the checked addition in the middle of them
  leaves the function with the same error as the condition itself.
\<close>

definition load_lease ::
  "ConnectorSnapshot \<Rightarrow> nat \<times> ConnectorLeaseSnapshot \<Rightarrow> LeaseId fset \<times> nat option \<times> ConnectorLease list
    \<Rightarrow> ConnectorSnapshotError + LeaseId fset \<times> nat option \<times> ConnectorLease list" where
  "load_lease s = (\<lambda>(index, lease) (seen, active, leases).
     if cls_tenant_id lease \<noteq> cns_tenant_id s \<or> cls_connector_id lease \<noteq> cns_connector_id s
        \<or> cls_generation lease = 0 \<or> cls_generation lease > cns_generation s
        \<or> unat (cls_lease_epoch lease) \<noteq> index + 1
        \<or> \<not> (1 \<le> cls_ttl_millis lease \<and> cls_ttl_millis lease \<le> MAX_LEASE_TTL_MILLIS)
        \<or> is_none_or (checked_add_i64 (cls_issued_at_millis lease) (cls_ttl_millis lease))
            (\<lambda>initial. cls_expires_at_millis lease < initial)
        \<or> cls_lease_id lease |\<in>| seen
        \<or> lease_boot s lease = None
        \<or> is_some_and (lease_boot s lease) (\<lambda>boot. cls_issued_at_millis lease < cbs_started_at_millis boot)
        \<or> is_some_and (lease_boot s lease) (\<lambda>boot. is_some_and (cbs_ended_at_millis boot)
            (\<lambda>ended. cls_issued_at_millis lease > ended))
        \<or> (index > 0 \<and> cls_issued_at_millis lease < cls_issued_at_millis (cns_leases s ! (index - 1))) then
       Inl InvalidLeaseHistory
     else if cls_status lease = LeaseActive \<and> active \<noteq> None then Inl InvalidActiveLease
     else res_bind (snapshot_generation (cls_generation lease)) (\<lambda>generation.
       res_bind (snapshot_epoch (cls_lease_epoch lease)) (\<lambda>epoch.
       res_bind (snapshot_heartbeat lease (cns_max_concurrency s)) (\<lambda>heartbeat.
         Inr (finsert (cls_lease_id lease) seen,
              (if cls_status lease = LeaseActive then Some index else active),
              leases @ [lease_of_image generation epoch heartbeat lease])))))"

definition check_active :: "ConnectorSnapshot \<Rightarrow> nat option \<Rightarrow> ConnectorSnapshotError + unit" where
  "check_active s active =
     (if cns_active_lease_index s \<noteq> active
         \<or> map_option unat (cns_highest_lease_epoch s)
             \<noteq> (if cns_leases s = [] then None else Some (length (cns_leases s))) then Inl InvalidActiveLease
      else if is_some_and active (\<lambda>index. index + 1 \<noteq> length (cns_leases s)) then Inl InvalidActiveLease
      else if is_some_and active (\<lambda>index. let lease = cns_leases s ! index in
          cns_current_boot_id s \<noteq> Some (cls_boot_id lease) \<or> cls_generation lease \<noteq> cns_generation s) then
        Inl InvalidActiveLease
      else Inr ())"

definition load_leases :: "ConnectorSnapshot \<Rightarrow> ConnectorSnapshotError + nat option \<times> ConnectorLease list" where
  "load_leases s =
     res_bind (for_each (load_lease s) (enumerate 0 (cns_leases s)) ({||}, None, [])) (\<lambda>(_, active, leases).
       res_bind (check_active s active) (\<lambda>_. Inr (active, leases)))"

definition check_terminal :: "ConnectorSnapshot \<Rightarrow> nat option \<Rightarrow> ConnectorSnapshotError + unit" where
  "check_terminal s active =
     (if \<not> live_state (cns_desired_state s) \<and> (cns_current_boot_id s \<noteq> None \<or> active \<noteq> None) then
        Inl InvalidTerminalState
      else if cns_desired_state s = Revoked \<and> cns_observed_state s \<noteq> ObservedRevoked then
        Inl InvalidTerminalState
      else if cns_desired_state s = Stopped \<and> cns_observed_state s \<noteq> ObservedOffline then
        Inl InvalidTerminalState
      else Inr ())"

definition image_times :: "ConnectorSnapshot \<Rightarrow> int list" where
  "image_times s =
     concat (map (\<lambda>boot. cbs_started_at_millis boot # (case cbs_ended_at_millis boot of
        Some ended \<Rightarrow> [ended] | None \<Rightarrow> [])) (cns_boots s))
     @ map cls_issued_at_millis (cns_leases s)
     @ List.map_filter cls_last_heartbeat_at_millis (cns_leases s)"

definition check_high_water :: "ConnectorSnapshot \<Rightarrow> ConnectorSnapshotError + unit" where
  "check_high_water s =
     (let high_water = cns_server_time_high_water_millis s in
      if list_ex (\<lambda>t. is_none_or high_water (\<lambda>high. t > high)) (image_times s) then
        Inl InvalidServerTimeHighWater
      else if list_ex (\<lambda>lease. cls_status lease = LeaseExpiredStatus
          \<and> is_none_or high_water (\<lambda>high. high < cls_expires_at_millis lease)) (cns_leases s) then
        Inl InvalidServerTimeHighWater
      else Inr ())"

definition transpose_epoch :: "u64 option \<Rightarrow> ConnectorSnapshotError + LeaseEpoch option" where
  "transpose_epoch v = (case v of None \<Rightarrow> Inr None | Some e \<Rightarrow> map_ok Some (snapshot_epoch e))"

definition connector_from_snapshot :: "ConnectorSnapshot \<Rightarrow> ConnectorSnapshotError + Connector" where
  "connector_from_snapshot s =
     res_bind (snapshot_generation (cns_generation s)) (\<lambda>generation.
       if cns_max_concurrency s = 0 then Inl SnapshotInvalidCapacity
       else res_bind (load_revisions s) (\<lambda>revisions.
         res_bind (load_boots s) (\<lambda>boots.
         res_bind (load_leases s) (\<lambda>(active, leases).
         res_bind (check_terminal s active) (\<lambda>_.
         res_bind (check_high_water s) (\<lambda>_.
         res_bind (transpose_epoch (cns_highest_lease_epoch s)) (\<lambda>highest.
           Inr \<lparr> cn_tenant_id = cns_tenant_id s, cn_id = cns_connector_id s, cn_host_id = cns_host_id s,
             cn_adapter_kind = cns_adapter_kind s, cn_generation = generation,
             cn_desired_state = cns_desired_state s, cn_observed_state = cns_observed_state s,
             cn_max_concurrency = cns_max_concurrency s, cn_boots = boots,
             cn_current_boot_id = cns_current_boot_id s, cn_leases = leases,
             cn_active_lease_index = cns_active_lease_index s, cn_highest_lease_epoch = highest,
             cn_server_time_high_water_millis = cns_server_time_high_water_millis s,
             cn_spec_revision = cns_spec_revision s, cn_revisions = revisions \<rparr>)))))))"

end
