(* ===== verification/Connector_Invariant.thy ===== *)
theory Connector_Invariant
  imports Connector_Snapshot
begin

text \<open>
  What every connector that the operations can produce satisfies, one predicate per history, and the
  lemmas on how the two list changes of the aggregate (rewriting the last record, appending a record)
  act on them.
\<close>

section \<open>Lists\<close>

definition indexed :: "(nat \<Rightarrow> 'a \<Rightarrow> bool) \<Rightarrow> 'a list \<Rightarrow> bool" where
  "indexed P xs = (\<forall>i<length xs. P i (xs ! i))"

lemma indexed_Nil [simp]: "indexed P []"
  by (simp add: indexed_def)

lemma indexed_snoc [simp]: "indexed P (xs @ [x]) \<longleftrightarrow> indexed P xs \<and> P (length xs) x"
  by (auto simp: indexed_def nth_append less_Suc_eq)

lemma indexed_mono: "indexed P xs \<Longrightarrow> (\<And>i x. x \<in> set xs \<Longrightarrow> P i x \<Longrightarrow> Q i x) \<Longrightarrow> indexed Q xs"
  by (auto simp: indexed_def)

lemma indexed_set: "indexed P xs \<Longrightarrow> x \<in> set xs \<Longrightarrow> \<exists>i. i < length xs \<and> P i x"
  by (auto simp: indexed_def in_set_conv_nth)

lemma last_of_snoc [simp]: "last_of (xs @ [x]) = Some x" "last_of [] = None"
  by (simp_all add: last_of_def)

lemma update_last_snoc [simp]: "update_last f (xs @ [x]) = xs @ [f x]" "update_last f [] = []"
  by (simp_all add: update_last_def)

lemma length_update_last [simp]: "length (update_last f xs) = length xs"
  by (cases xs rule: rev_cases) simp_all

lemma update_last_nth: "xs \<noteq> [] \<Longrightarrow> xs[length xs - 1 := f (last xs)] = update_last f xs"
  by (cases xs rule: rev_cases) simp_all

lemma get_at_last: "xs \<noteq> [] \<Longrightarrow> get_at xs (length xs - 1) = Some (last xs)"
  by (cases xs rule: rev_cases) (simp_all add: get_at_def)

lemma find_None [simp]: "find P xs = None \<longleftrightarrow> (\<forall>x\<in>set xs. \<not> P x)"
  by (auto simp: find_None_iff)

lemma find_unique:
  assumes "distinct (map k xs)" "x \<in> set xs" "P x" "\<And>y. y \<in> set xs \<Longrightarrow> P y \<Longrightarrow> k y = k x"
  shows "find P xs = Some x"
proof (cases "find P xs")
  case None
  then show ?thesis using assms(2,3) by auto
next
  case (Some y)
  then have "y \<in> set xs" "P y" by (auto simp: find_Some_iff)
  then have "y = x" using assms by (metis distinct_map inj_onD)
  then show ?thesis using Some by simp
qed

section \<open>The invariant\<close>

definition generation_ok :: "ConnectorGeneration \<Rightarrow> ConnectorGeneration \<Rightarrow> bool" where
  "generation_ok bound g \<longleftrightarrow> 0 < gen_get g \<and> gen_get g \<le> gen_get bound"

definition revision_step :: "ConnectorRevision \<Rightarrow> ConnectorRevision \<Rightarrow> bool" where
  "revision_step p r = revision_transition (revision_image p) (revision_image r)"

definition revision_ok ::
  "TenantId \<Rightarrow> ConnectorId \<Rightarrow> AdapterKind \<Rightarrow> u32 \<Rightarrow> ConnectorGeneration \<Rightarrow> nat \<Rightarrow> ConnectorRevision \<Rightarrow> bool" where
  "revision_ok t k a m g i r \<longleftrightarrow> cr_tenant_id r = t \<and> cr_connector_id r = k
     \<and> unat (rev_get (cr_revision r)) = i + 1 \<and> cr_adapter_kind r = a \<and> cr_max_concurrency r = m
     \<and> generation_ok g (cr_generation r)"

definition revisions_ok :: "Connector \<Rightarrow> bool" where
  "revisions_ok c \<longleftrightarrow> (let rs = cn_revisions c in
     length rs = unat (rev_get (cn_spec_revision c)) \<and> rs \<noteq> []
     \<and> indexed (revision_ok (cn_tenant_id c) (cn_id c) (cn_adapter_kind c) (cn_max_concurrency c) (cn_generation c)) rs
     \<and> cr_generation (hd rs) = generation_initial \<and> cr_desired_state (hd rs) = Running
     \<and> successively revision_step rs
     \<and> cr_generation (last rs) = cn_generation c \<and> cr_desired_state (last rs) = cn_desired_state c)"

definition boot_step :: "ConnectorBoot \<Rightarrow> ConnectorBoot \<Rightarrow> bool" where
  "boot_step p b \<longleftrightarrow> gen_get (cb_generation p) \<le> gen_get (cb_generation b)
     \<and> (case cb_ended_at_millis p of Some ended \<Rightarrow> ended | None \<Rightarrow> cb_started_at_millis p) \<le> cb_started_at_millis b"

definition boot_ok :: "TenantId \<Rightarrow> ConnectorId \<Rightarrow> ConnectorGeneration \<Rightarrow> ConnectorBoot \<Rightarrow> bool" where
  "boot_ok t k g b \<longleftrightarrow> cb_tenant_id b = t \<and> cb_parent_id b = k \<and> generation_ok g (cb_generation b)
     \<and> is_none_or (cb_ended_at_millis b) (\<lambda>ended. cb_started_at_millis b \<le> ended)"

definition boots_ok :: "TenantId \<Rightarrow> ConnectorId \<Rightarrow> ConnectorGeneration \<Rightarrow> ConnectorBoot list \<Rightarrow> bool" where
  "boots_ok t k g bs \<longleftrightarrow> (\<forall>b\<in>set bs. boot_ok t k g b) \<and> distinct (map cb_boot_id bs)
     \<and> (\<forall>b\<in>set (butlast bs). cb_ended_at_millis b \<noteq> None) \<and> successively boot_step bs"

definition open_boot :: "ConnectorBoot list \<Rightarrow> ConnectorBoot option" where
  "open_boot bs = (case last_of bs of
     Some b \<Rightarrow> if cb_ended_at_millis b = None then Some b else None | None \<Rightarrow> None)"

definition current_ok ::
  "ConnectorGeneration \<Rightarrow> ConnectorDesiredState \<Rightarrow> ConnectorBoot list \<Rightarrow> BootId option \<Rightarrow> bool" where
  "current_ok g d bs cur \<longleftrightarrow> cur = map_option cb_boot_id (open_boot bs)
     \<and> is_none_or (open_boot bs) (\<lambda>b. live_state d \<and> cb_generation b = g)"

definition heartbeat_ok :: "u32 \<Rightarrow> ConnectorLease \<Rightarrow> bool" where
  "heartbeat_ok m l \<longleftrightarrow>
     (case (cl_last_heartbeat l, cl_last_heartbeat_at_millis l) of
        (None, None) \<Rightarrow> cl_expires_at_millis l = cl_issued_at_millis l + cl_ttl_millis l
      | (Some h, Some at) \<Rightarrow> 0 < hb_sequence h \<and> hb_sequence h \<le> Revision_MAX
          \<and> hb_capacity_available h \<le> m \<and> \<not> server_derived (hb_state h) \<and> cl_issued_at_millis l \<le> at
          \<and> ack_sequence (hb_ack h) = hb_sequence h
          \<and> ack_lease_expires_at_millis (hb_ack h) = cl_expires_at_millis l
          \<and> cl_expires_at_millis l = at + cl_ttl_millis l
      | _ \<Rightarrow> False)"

definition lease_boot_ok :: "ConnectorBoot list \<Rightarrow> ConnectorLease \<Rightarrow> bool" where
  "lease_boot_ok bs l \<longleftrightarrow> (\<exists>b\<in>set bs. cb_boot_id b = cf_boot_id (cl_fence l)
     \<and> cb_generation b = cf_generation (cl_fence l) \<and> cb_started_at_millis b \<le> cl_issued_at_millis l
     \<and> is_none_or (cb_ended_at_millis b) (\<lambda>ended. cl_issued_at_millis l \<le> ended))"

definition lease_ok ::
  "TenantId \<Rightarrow> ConnectorId \<Rightarrow> ConnectorGeneration \<Rightarrow> u32 \<Rightarrow> ConnectorBoot list \<Rightarrow> nat \<Rightarrow> ConnectorLease \<Rightarrow> bool" where
  "lease_ok t k g m bs i l \<longleftrightarrow> cf_tenant_id (cl_fence l) = t \<and> cf_connector_id (cl_fence l) = k
     \<and> generation_ok g (cf_generation (cl_fence l))
     \<and> unat (epoch_get (cf_lease_epoch (cl_fence l))) = i + 1
     \<and> epoch_get (cf_lease_epoch (cl_fence l)) \<le> Revision_MAX
     \<and> 1 \<le> cl_ttl_millis l \<and> cl_ttl_millis l \<le> MAX_LEASE_TTL_MILLIS
     \<and> is_i64 (cl_issued_at_millis l + cl_ttl_millis l) \<and> is_i64 (cl_expires_at_millis l)
     \<and> cl_issued_at_millis l + cl_ttl_millis l \<le> cl_expires_at_millis l
     \<and> lease_boot_ok bs l \<and> heartbeat_ok m l"

definition lease_id_of :: "ConnectorLease \<Rightarrow> LeaseId" where
  "lease_id_of l = cf_lease_id (cl_fence l)"

definition issue_step :: "ConnectorLease \<Rightarrow> ConnectorLease \<Rightarrow> bool" where
  "issue_step p l \<longleftrightarrow> cl_issued_at_millis p \<le> cl_issued_at_millis l"

definition leases_ok ::
  "TenantId \<Rightarrow> ConnectorId \<Rightarrow> ConnectorGeneration \<Rightarrow> u32 \<Rightarrow> ConnectorBoot list \<Rightarrow> ConnectorLease list \<Rightarrow> bool" where
  "leases_ok t k g m bs ls \<longleftrightarrow> indexed (lease_ok t k g m bs) ls \<and> distinct (map lease_id_of ls)
     \<and> successively issue_step ls"

definition active_ok ::
  "ConnectorGeneration \<Rightarrow> BootId option \<Rightarrow> nat option \<Rightarrow> ConnectorLease list \<Rightarrow> bool" where
  "active_ok g cur act ls \<longleftrightarrow>
     (case act of
        None \<Rightarrow> (\<forall>l\<in>set ls. cl_status l \<noteq> LeaseActive)
      | Some i \<Rightarrow> ls \<noteq> [] \<and> i = length ls - 1 \<and> cl_status (last ls) = LeaseActive
          \<and> (\<forall>l\<in>set (butlast ls). cl_status l \<noteq> LeaseActive)
          \<and> cur = Some (cf_boot_id (cl_fence (last ls))) \<and> cf_generation (cl_fence (last ls)) = g)"

definition epoch_ok :: "LeaseEpoch option \<Rightarrow> ConnectorLease list \<Rightarrow> bool" where
  "epoch_ok highest ls \<longleftrightarrow> highest = map_option (\<lambda>l. cf_lease_epoch (cl_fence l)) (last_of ls)"

definition terminal_ok ::
  "ConnectorDesiredState \<Rightarrow> ConnectorObservedState \<Rightarrow> BootId option \<Rightarrow> nat option \<Rightarrow> bool" where
  "terminal_ok d ob cur act \<longleftrightarrow> (\<not> live_state d \<longrightarrow> cur = None \<and> act = None)
     \<and> (d = Revoked \<longrightarrow> ob = ObservedRevoked) \<and> (d = Stopped \<longrightarrow> ob = ObservedOffline)"

definition seen_by :: "int option \<Rightarrow> int \<Rightarrow> bool" where
  "seen_by high t = is_some_and high (\<lambda>h. t \<le> h)"

definition boot_seen :: "int option \<Rightarrow> ConnectorBoot \<Rightarrow> bool" where
  "boot_seen high b \<longleftrightarrow> seen_by high (cb_started_at_millis b) \<and> is_none_or (cb_ended_at_millis b) (seen_by high)"

definition lease_seen :: "int option \<Rightarrow> ConnectorLease \<Rightarrow> bool" where
  "lease_seen high l \<longleftrightarrow> seen_by high (cl_issued_at_millis l)
     \<and> is_none_or (cl_last_heartbeat_at_millis l) (seen_by high)
     \<and> (cl_status l = LeaseExpiredStatus \<longrightarrow> seen_by high (cl_expires_at_millis l))"

definition times_ok :: "int option \<Rightarrow> ConnectorBoot list \<Rightarrow> ConnectorLease list \<Rightarrow> bool" where
  "times_ok high bs ls \<longleftrightarrow> (\<forall>b\<in>set bs. boot_seen high b) \<and> (\<forall>l\<in>set ls. lease_seen high l)"

definition histories_ok ::
  "Connector \<Rightarrow> bool" where
  "histories_ok c \<longleftrightarrow>
     boots_ok (cn_tenant_id c) (cn_id c) (cn_generation c) (cn_boots c)
     \<and> current_ok (cn_generation c) (cn_desired_state c) (cn_boots c) (cn_current_boot_id c)
     \<and> leases_ok (cn_tenant_id c) (cn_id c) (cn_generation c) (cn_max_concurrency c) (cn_boots c) (cn_leases c)
     \<and> active_ok (cn_generation c) (cn_current_boot_id c) (cn_active_lease_index c) (cn_leases c)
     \<and> epoch_ok (cn_highest_lease_epoch c) (cn_leases c)
     \<and> times_ok (cn_server_time_high_water_millis c) (cn_boots c) (cn_leases c)"

definition connector_inv :: "Connector \<Rightarrow> bool" where
  "connector_inv c \<longleftrightarrow> generation_ok (ConnectorGeneration Revision_MAX) (cn_generation c)
     \<and> cn_max_concurrency c \<noteq> 0 \<and> valid_revision (cn_spec_revision c)
     \<and> revisions_ok c \<and> histories_ok c
     \<and> terminal_ok (cn_desired_state c) (cn_observed_state c) (cn_current_boot_id c) (cn_active_lease_index c)"

lemma register_inv: "connector_register h k a m = Inr c \<Longrightarrow> connector_inv c"
  by (auto simp: connector_register_def connector_inv_def generation_ok_def generation_initial_def Revision_MAX_def
      revisions_ok_def indexed_def revision_ok_def Revision_INITIAL_def histories_ok_def boots_ok_def current_ok_def
      open_boot_def leases_ok_def active_ok_def epoch_ok_def times_ok_def terminal_ok_def live_state_def
      valid_revision_initial [unfolded Revision_INITIAL_def] split: if_splits)

section \<open>Frames\<close>

lemma generation_ok_mono: "generation_ok g x \<Longrightarrow> gen_get g \<le> gen_get g' \<Longrightarrow> generation_ok g' x"
  by (auto simp: generation_ok_def)

lemma seen_by_advance: "seen_by high t \<Longrightarrow> seen_by (advanced_high_water high now) t"
  by (cases high) (auto simp: seen_by_def advanced_high_water_def)

lemma seen_by_now [simp]: "seen_by (advanced_high_water high now) now"
  by (cases high) (auto simp: seen_by_def advanced_high_water_def)

lemma times_advance: "times_ok high bs ls \<Longrightarrow> times_ok (advanced_high_water high now) bs ls"
  by (auto simp: times_ok_def boot_seen_def lease_seen_def is_none_or_iff intro: seen_by_advance)

text \<open>Time that did not regress is at or after everything recorded.\<close>

definition not_regressed :: "int option \<Rightarrow> int \<Rightarrow> bool" where
  "not_regressed high now = is_none_or high (\<lambda>h. h \<le> now)"

lemma ensure_time_Ok: "ensure_server_time_not_regressed c now = Inr u \<longleftrightarrow> not_regressed (cn_server_time_high_water_millis c) now"
  by (cases "cn_server_time_high_water_millis c") (auto simp: ensure_server_time_not_regressed_def not_regressed_def)

lemma seen_not_after: "seen_by high t \<Longrightarrow> not_regressed high now \<Longrightarrow> t \<le> now"
  by (cases high) (auto simp: seen_by_def not_regressed_def)

section \<open>Ending the active lease\<close>

definition fenced :: "LeaseStatus \<Rightarrow> nat option \<Rightarrow> ConnectorLease list \<Rightarrow> ConnectorLease list" where
  "fenced st act ls = (if act = None then ls else update_last (\<lambda>l. l\<lparr> cl_status := st \<rparr>) ls)"

lemma terminalize_active:
  assumes "active_ok g cur (cn_active_lease_index c) (cn_leases c)"
  shows "terminalize_active_lease st c
    = c\<lparr> cn_active_lease_index := None, cn_leases := fenced st (cn_active_lease_index c) (cn_leases c) \<rparr>"
proof (cases "cn_active_lease_index c")
  case (Some i)
  then have facts: "cn_leases c \<noteq> []" "i = length (cn_leases c) - 1" "cl_status (last (cn_leases c)) = LeaseActive"
    using assms by (auto simp: active_ok_def)
  then show ?thesis
    using Some get_at_last [OF facts(1)] update_last_nth [OF facts(1), of "\<lambda>l. l\<lparr> cl_status := st \<rparr>"]
    by (simp add: terminalize_active_lease_def fenced_def)
qed (simp add: terminalize_active_lease_def fenced_def)

lemma fenced_cases:
  obtains "fenced st act ls = ls" "act = None \<or> ls = []"
  | xs x where "ls = xs @ [x]" "fenced st act ls = xs @ [x\<lparr> cl_status := st \<rparr>]" "act \<noteq> None"
  by (cases ls rule: rev_cases) (auto simp: fenced_def)

lemma fenced_inactive:
  "active_ok g cur act ls \<Longrightarrow> st \<noteq> LeaseActive \<Longrightarrow> active_ok g' cur' None (fenced st act ls)"
  by (cases st act ls rule: fenced_cases) (auto simp: active_ok_def split: option.splits)

lemma status_irrelevant:
  "lease_ok t k g m bs i (l\<lparr> cl_status := st \<rparr>) = lease_ok t k g m bs i l"
  "lease_id_of (l\<lparr> cl_status := st \<rparr>) = lease_id_of l"
  by (simp_all add: lease_ok_def lease_boot_ok_def lease_id_of_def heartbeat_ok_def split: option.split)

lemma successively_snoc:
  "successively P (xs @ [x]) \<longleftrightarrow> successively P xs \<and> is_none_or (last_of xs) (\<lambda>y. P y x)"
  by (cases xs rule: rev_cases) (auto simp: successively_append_iff)

lemma leases_update_last:
  assumes "leases_ok t k g m bs (xs @ [x])" "lease_ok t k g m bs (length xs) y"
    "lease_id_of y = lease_id_of x" "cl_issued_at_millis y = cl_issued_at_millis x"
  shows "leases_ok t k g m bs (xs @ [y])"
  using assms by (auto simp: leases_ok_def successively_snoc is_none_or_iff issue_step_def)

lemma fenced_leases_ok: "leases_ok t k g m bs ls \<Longrightarrow> leases_ok t k g m bs (fenced st act ls)"
proof (cases st act ls rule: fenced_cases)
  case (2 xs x)
  moreover assume "leases_ok t k g m bs ls"
  ultimately show ?thesis using leases_update_last [of t k g m bs xs x "x\<lparr> cl_status := st \<rparr>"]
    by (simp add: status_irrelevant leases_ok_def)
qed simp

lemma fenced_epoch_ok: "epoch_ok h ls \<Longrightarrow> epoch_ok h (fenced st act ls)"
  by (cases st act ls rule: fenced_cases) (auto simp: epoch_ok_def)

lemma fenced_times_ok:
  "times_ok high bs ls \<Longrightarrow> st \<noteq> LeaseExpiredStatus \<Longrightarrow> times_ok high bs (fenced st act ls)"
  by (cases st act ls rule: fenced_cases) (auto simp: times_ok_def lease_seen_def)

section \<open>Ending the open boot\<close>

lemma close_boot_simps [simp]:
  "cb_boot_id (close_boot now b) = cb_boot_id b" "cb_generation (close_boot now b) = cb_generation b"
  "cb_started_at_millis (close_boot now b) = cb_started_at_millis b"
  "cb_tenant_id (close_boot now b) = cb_tenant_id b" "cb_parent_id (close_boot now b) = cb_parent_id b"
  "cb_ended_at_millis (close_boot now b) \<noteq> None"
  by (simp_all add: close_boot_def)

lemma close_boot_ended:
  "cb_ended_at_millis (close_boot now b) = Some (case cb_ended_at_millis b of None \<Rightarrow> now | Some e \<Rightarrow> e)"
  by (cases "cb_ended_at_millis b") (simp_all add: close_boot_def)

definition closed :: "int \<Rightarrow> ConnectorBoot list \<Rightarrow> ConnectorBoot list" where
  "closed now = update_last (close_boot now)"

lemma closed_boots_ok:
  assumes "boots_ok t k g bs" "times_ok high bs ls" "not_regressed high now"
  shows "boots_ok t k g (closed now bs)" "\<forall>b\<in>set (closed now bs). cb_ended_at_millis b \<noteq> None"
    "map cb_boot_id (closed now bs) = map cb_boot_id bs"
proof -
  show "boots_ok t k g (closed now bs)"
  proof (cases bs rule: rev_cases)
    case (snoc xs b)
    have "cb_started_at_millis b \<le> now"
      using assms(2,3) snoc seen_not_after by (auto simp: times_ok_def boot_seen_def)
    then have "boot_ok t k g (close_boot now b)"
      using assms(1) snoc by (auto simp: boots_ok_def boot_ok_def close_boot_ended split: option.splits)
    then show ?thesis using assms(1) snoc
      by (auto simp: boots_ok_def closed_def successively_snoc boot_step_def is_none_or_iff)
  qed (use assms in \<open>simp add: closed_def\<close>)
  show "\<forall>b\<in>set (closed now bs). cb_ended_at_millis b \<noteq> None" "map cb_boot_id (closed now bs) = map cb_boot_id bs"
    using assms(1) by (cases bs rule: rev_cases; auto simp: closed_def boots_ok_def)+
qed

lemma closed_times_ok:
  assumes "times_ok high bs ls"
  shows "times_ok (advanced_high_water high now) (closed now bs) ls"
  using times_advance [OF assms, of now]
  by (cases bs rule: rev_cases) (auto simp: closed_def times_ok_def boot_seen_def close_boot_ended is_none_or_iff split: option.splits)

lemma closed_lease_boot:
  assumes "lease_boot_ok bs l" "cl_issued_at_millis l \<le> now"
  shows "lease_boot_ok (closed now bs) l"
proof -
  obtain b where b: "b \<in> set bs" "cb_boot_id b = cf_boot_id (cl_fence l)" "cb_generation b = cf_generation (cl_fence l)"
    "cb_started_at_millis b \<le> cl_issued_at_millis l" "is_none_or (cb_ended_at_millis b) (\<lambda>ended. cl_issued_at_millis l \<le> ended)"
    using assms(1) by (auto simp: lease_boot_ok_def)
  have "b \<in> set (closed now bs) \<or> close_boot now b \<in> set (closed now bs)"
    using b(1) by (cases bs rule: rev_cases) (auto simp: closed_def)
  then show ?thesis
  proof
    assume "close_boot now b \<in> set (closed now bs)"
    then show ?thesis using b assms(2)
      by (auto simp: lease_boot_ok_def close_boot_ended split: option.splits intro!: bexI [of _ "close_boot now b"])
  qed (use b in \<open>auto simp: lease_boot_ok_def\<close>)
qed

lemma leases_ok_frame:
  assumes "leases_ok t k g m bs ls" "gen_get g \<le> gen_get g'"
    "\<And>l. l \<in> set ls \<Longrightarrow> lease_boot_ok bs l \<Longrightarrow> lease_boot_ok bs' l"
  shows "leases_ok t k g' m bs' ls"
  using assms unfolding leases_ok_def
  by (auto elim!: indexed_mono simp: lease_ok_def intro: generation_ok_mono)

lemma closed_leases_ok:
  assumes "leases_ok t k g m bs ls" "times_ok high bs ls" "not_regressed high now" "gen_get g \<le> gen_get g'"
  shows "leases_ok t k g' m (closed now bs) ls"
proof (rule leases_ok_frame [OF assms(1,4)])
  fix l assume "l \<in> set ls" "lease_boot_ok bs l"
  then show "lease_boot_ok (closed now bs) l"
    using closed_lease_boot [of bs l now] assms(2,3) seen_not_after by (auto simp: times_ok_def lease_seen_def)
qed

lemma boots_ok_mono: "boots_ok t k g bs \<Longrightarrow> gen_get g \<le> gen_get g' \<Longrightarrow> boots_ok t k g' bs"
  by (auto simp: boots_ok_def boot_ok_def intro: generation_ok_mono)

lemma open_boot_closed: "\<forall>b\<in>set bs. cb_ended_at_millis b \<noteq> None \<Longrightarrow> open_boot bs = None"
  by (cases bs rule: rev_cases) (auto simp: open_boot_def)

end
