(* ===== verification/Connector_Steps.thy ===== *)
theory Connector_Steps
  imports Connector_Invariant
begin

text \<open>Every operation of a connector keeps the invariant and changes nothing when it fails.\<close>

section \<open>What a successful operation does\<close>

definition booted :: "BootId \<Rightarrow> int \<Rightarrow> Connector \<Rightarrow> Connector" where
  "booted boot_id at c = c\<lparr>
     cn_boots := closed at (cn_boots c) @ [\<lparr> cb_tenant_id = cn_tenant_id c, cb_parent_id = cn_id c,
       cb_boot_id = boot_id, cb_generation = cn_generation c, cb_started_at_millis = at,
       cb_ended_at_millis = None \<rparr>],
     cn_current_boot_id := Some boot_id, cn_active_lease_index := None,
     cn_leases := fenced LeaseSuperseded (cn_active_lease_index c) (cn_leases c),
     cn_observed_state := ObservedStarting,
     cn_server_time_high_water_millis := advanced_high_water (cn_server_time_high_water_millis c) at \<rparr>"

definition shut :: "LeaseStatus \<Rightarrow> int \<Rightarrow> Connector \<Rightarrow> Connector" where
  "shut st at c = c\<lparr> cn_boots := closed at (cn_boots c), cn_current_boot_id := None,
     cn_active_lease_index := None, cn_leases := fenced st (cn_active_lease_index c) (cn_leases c) \<rparr>"

lemma histories_active:
  "histories_ok c \<Longrightarrow> active_ok (cn_generation c) (cn_current_boot_id c) (cn_active_lease_index c) (cn_leases c)"
  by (simp add: histories_ok_def)

lemma terminalize_shut:
  assumes "histories_ok c"
  shows "terminalize_active_lease st ((close_current_boot at c)\<lparr> cn_current_boot_id := None \<rparr>) = shut st at c"
  using terminalize_active [where c = "(close_current_boot at c)\<lparr> cn_current_boot_id := None \<rparr>" and st = st
      and g = "cn_generation c" and cur = "cn_current_boot_id c"] histories_active [OF assms]
  by (simp add: close_current_boot_def shut_def closed_def)

lemma begin_boot_Ok:
  assumes "histories_ok c" "begin_boot b at c = (Inr u, c')"
  shows "c' = c \<or> live_state (cn_desired_state c) \<and> b \<notin> set (map cb_boot_id (cn_boots c))
    \<and> not_regressed (cn_server_time_high_water_millis c) at \<and> c' = booted b at c"
proof -
  let ?p = "(close_current_boot at c)\<lparr> cn_boots := cn_boots (close_current_boot at c) @
      [\<lparr> cb_tenant_id = cn_tenant_id c, cb_parent_id = cn_id c, cb_boot_id = b,
        cb_generation = cn_generation c, cb_started_at_millis = at, cb_ended_at_millis = None \<rparr>],
      cn_current_boot_id := Some b \<rparr>"
  have t: "terminalize_active_lease LeaseSuperseded ?p
      = ?p\<lparr> cn_active_lease_index := None, cn_leases := fenced LeaseSuperseded (cn_active_lease_index c) (cn_leases c) \<rparr>"
    using terminalize_active [where c = ?p and st = LeaseSuperseded and g = "cn_generation c" and cur = "cn_current_boot_id c"]
      histories_active [OF assms(1)] by (simp add: close_current_boot_def)
  show ?thesis using assms(2) unfolding begin_boot_def Let_def t
    by (cases "cn_desired_state c")
       (auto simp: live_state_def ensure_time_Ok booted_def advance_server_time_high_water_def close_current_boot_def closed_def
         result_simps split: if_splits option.splits)
qed

lemma booted_histories:
  assumes h: "histories_ok c" and g: "generation_ok (ConnectorGeneration Revision_MAX) (cn_generation c)"
    and l: "live_state (cn_desired_state c)" "b \<notin> set (map cb_boot_id (cn_boots c))"
      "not_regressed (cn_server_time_high_water_millis c) at"
  shows "histories_ok (booted b at c)"
proof -
  let ?b = "\<lparr> cb_tenant_id = cn_tenant_id c, cb_parent_id = cn_id c, cb_boot_id = b,
        cb_generation = cn_generation c, cb_started_at_millis = at, cb_ended_at_millis = None \<rparr>"
  let ?ls = "fenced LeaseSuperseded (cn_active_lease_index c) (cn_leases c)"
  let ?high = "cn_server_time_high_water_millis c"
  note cs = closed_boots_ok [OF _ _ l(3)]
  have hs: "boots_ok (cn_tenant_id c) (cn_id c) (cn_generation c) (cn_boots c)"
    "leases_ok (cn_tenant_id c) (cn_id c) (cn_generation c) (cn_max_concurrency c) (cn_boots c) (cn_leases c)"
    "epoch_ok (cn_highest_lease_epoch c) (cn_leases c)" "times_ok ?high (cn_boots c) (cn_leases c)"
    using h by (simp_all add: histories_ok_def)
  have ts: "times_ok ?high (cn_boots c) ?ls" using fenced_times_ok [OF hs(4)] by simp
  have step: "is_none_or (last_of (closed at (cn_boots c))) (\<lambda>p. boot_step p ?b)"
  proof (cases "cn_boots c" rule: rev_cases)
    case (snoc xs x)
    have "seen_by ?high (cb_started_at_millis x)" "is_none_or (cb_ended_at_millis x) (seen_by ?high)"
      "generation_ok (cn_generation c) (cb_generation x)"
      using hs(1,4) snoc by (auto simp: times_ok_def boot_seen_def boots_ok_def boot_ok_def)
    then show ?thesis using snoc seen_not_after [OF _ l(3)]
      by (auto simp: closed_def boot_step_def close_boot_ended generation_ok_def split: option.splits)
  qed (simp add: closed_def)
  have "boot_ok (cn_tenant_id c) (cn_id c) (cn_generation c) ?b"
    using g by (simp add: boot_ok_def generation_ok_def)
  then have b1: "boots_ok (cn_tenant_id c) (cn_id c) (cn_generation c) (closed at (cn_boots c) @ [?b])"
    using cs(1) [OF hs(1,4)] cs(2) [OF hs(1,4)] cs(3) [OF hs(1,4)] step l(2)
    by (auto simp: boots_ok_def successively_snoc image_iff simp flip: set_map)
  have b2: "leases_ok (cn_tenant_id c) (cn_id c) (cn_generation c) (cn_max_concurrency c) (closed at (cn_boots c) @ [?b]) ?ls"
    by (rule leases_ok_frame [OF closed_leases_ok [OF fenced_leases_ok [OF hs(2)] ts l(3) order_refl] order_refl])
       (auto simp: lease_boot_ok_def)
  have b3: "times_ok (advanced_high_water ?high at) (closed at (cn_boots c) @ [?b]) ?ls"
    using closed_times_ok [OF ts, of at] by (simp add: times_ok_def boot_seen_def)
  show ?thesis
    using b1 b2 b3 l(1) fenced_epoch_ok [OF hs(3)] fenced_inactive [OF histories_active [OF h]]
    by (simp add: histories_ok_def booted_def current_ok_def open_boot_def)
qed

section \<open>Leases\<close>

lemma histories_facts:
  assumes "histories_ok c"
  shows "boots_ok (cn_tenant_id c) (cn_id c) (cn_generation c) (cn_boots c)"
    "current_ok (cn_generation c) (cn_desired_state c) (cn_boots c) (cn_current_boot_id c)"
    "leases_ok (cn_tenant_id c) (cn_id c) (cn_generation c) (cn_max_concurrency c) (cn_boots c) (cn_leases c)"
    "active_ok (cn_generation c) (cn_current_boot_id c) (cn_active_lease_index c) (cn_leases c)"
    "epoch_ok (cn_highest_lease_epoch c) (cn_leases c)"
    "times_ok (cn_server_time_high_water_millis c) (cn_boots c) (cn_leases c)"
  using assms by (simp_all add: histories_ok_def)

definition new_lease :: "Connector \<Rightarrow> LeaseId \<Rightarrow> BootId \<Rightarrow> int \<Rightarrow> int \<Rightarrow> LeaseEpoch \<Rightarrow> ConnectorLease" where
  "new_lease c lease_id boot_id issued_at expires_at epoch =
     \<lparr> cl_fence = \<lparr> cf_tenant_id = cn_tenant_id c, cf_connector_id = cn_id c, cf_generation = cn_generation c,
         cf_boot_id = boot_id, cf_lease_id = lease_id, cf_lease_epoch = epoch \<rparr>,
       cl_issued_at_millis = issued_at, cl_expires_at_millis = expires_at, cl_ttl_millis = expires_at - issued_at,
       cl_status = LeaseActive, cl_last_heartbeat = None, cl_last_heartbeat_at_millis = None \<rparr>"

definition leased :: "ConnectorLease \<Rightarrow> Connector \<Rightarrow> Connector" where
  "leased l c = c\<lparr> cn_highest_lease_epoch := Some (cf_lease_epoch (cl_fence l)),
     cn_leases := fenced LeaseSuperseded (cn_active_lease_index c) (cn_leases c) @ [l],
     cn_active_lease_index := Some (length (cn_leases c)), cn_observed_state := ObservedStarting,
     cn_server_time_high_water_millis :=
       advanced_high_water (cn_server_time_high_water_millis c) (cl_issued_at_millis l) \<rparr>"

lemma length_fenced [simp]: "length (fenced st act ls) = length ls"
  by (simp add: fenced_def)

lemma issue_lease_Ok:
  assumes "histories_ok c" "issue_lease lid b at ex c = (Inr f, c')"
  shows "c' = c \<or> (\<exists>e. live_state (cn_desired_state c) \<and> cn_current_boot_id c = Some b \<and> at < ex
    \<and> ex - at \<le> MAX_LEASE_TTL_MILLIS \<and> lid \<notin> set (map lease_id_of (cn_leases c))
    \<and> not_regressed (cn_server_time_high_water_millis c) at
    \<and> epoch_checked_next (cn_highest_lease_epoch c) = Inr e
    \<and> f = cl_fence (new_lease c lid b at ex e) \<and> c' = leased (new_lease c lid b at ex e) c)"
proof -
  have t: "terminalize_active_lease LeaseSuperseded c = c\<lparr> cn_active_lease_index := None,
      cn_leases := fenced LeaseSuperseded (cn_active_lease_index c) (cn_leases c) \<rparr>"
    by (rule terminalize_active [OF histories_active [OF assms(1)]])
  show ?thesis using assms(2) unfolding issue_lease_def Let_def t
    by (cases "cn_desired_state c")
       (auto simp: live_state_def ensure_time_Ok leased_def new_lease_def advance_server_time_high_water_def
         lease_id_of_def result_simps split: if_splits option.splits)
qed

lemma epoch_next:
  assumes "epoch_ok h ls" "indexed (lease_ok t k g m bs) ls" "epoch_checked_next h = Inr e"
  shows "unat (epoch_get e) = length ls + 1" "epoch_get e \<le> Revision_MAX"
proof -
  have "unat (epoch_get e) = length ls + 1 \<and> epoch_get e \<le> Revision_MAX"
  proof (cases ls rule: rev_cases)
    case Nil
    then show ?thesis using assms(1,3) by (auto simp: epoch_ok_def epoch_checked_next_def Let_def Revision_MAX_def split: if_splits)
  next
    case (snoc xs x)
    let ?v = "epoch_get (cf_lease_epoch (cl_fence x))"
    have x: "unat ?v = length xs + 1" "?v \<le> Revision_MAX" "h = Some (cf_lease_epoch (cl_fence x))"
      using assms(1,2) snoc by (auto simp: lease_ok_def epoch_ok_def)
    have "unat ?v \<le> 2 ^ 53 - 1" using x(2) by (metis Revision_MAX_val word_le_nat_alt)
    then have "checked_add ?v 1 = Some (?v + 1)" "unat (?v + 1) = unat ?v + 1"
      by (auto simp: checked_add_def unat_word_ariths)
    then show ?thesis using assms(3) x snoc
      by (auto simp: epoch_checked_next_def saturating_succ_def Let_def split: if_splits)
  qed
  then show "unat (epoch_get e) = length ls + 1" "epoch_get e \<le> Revision_MAX" by auto
qed

lemma current_boot:
  assumes "current_ok g d bs (Some b)"
  obtains xs x where "bs = xs @ [x]" "cb_boot_id x = b" "cb_ended_at_millis x = None" "cb_generation x = g"
  using assms by (cases bs rule: rev_cases) (auto simp: current_ok_def open_boot_def split: if_splits)

lemma leased_histories:
  assumes h: "histories_ok c" and g: "generation_ok (ConnectorGeneration Revision_MAX) (cn_generation c)"
    and l: "cn_current_boot_id c = Some b" "at < ex" "ex - at \<le> MAX_LEASE_TTL_MILLIS" "is_i64 ex"
      "lid \<notin> set (map lease_id_of (cn_leases c))" "not_regressed (cn_server_time_high_water_millis c) at"
      "epoch_checked_next (cn_highest_lease_epoch c) = Inr e"
  shows "histories_ok (leased (new_lease c lid b at ex e) c)"
proof -
  let ?l = "new_lease c lid b at ex e" and ?ls = "fenced LeaseSuperseded (cn_active_lease_index c) (cn_leases c)"
  let ?high = "cn_server_time_high_water_millis c"
  note hs = histories_facts [OF h]
  obtain xs x where bs: "cn_boots c = xs @ [x]" "cb_boot_id x = b" "cb_ended_at_millis x = None"
      "cb_generation x = cn_generation c"
    using hs(2) unfolding l(1) by (rule current_boot)
  have "cb_started_at_millis x \<le> at"
    using hs(6) bs(1) seen_not_after [OF _ l(6)] by (auto simp: times_ok_def boot_seen_def)
  then have "lease_boot_ok (cn_boots c) ?l" using bs by (simp add: lease_boot_ok_def new_lease_def)
  moreover have "indexed (lease_ok (cn_tenant_id c) (cn_id c) (cn_generation c) (cn_max_concurrency c) (cn_boots c)) (cn_leases c)"
    using hs(3) by (simp add: leases_ok_def)
  ultimately have lok: "lease_ok (cn_tenant_id c) (cn_id c) (cn_generation c) (cn_max_concurrency c) (cn_boots c)
      (length (cn_leases c)) ?l"
    using epoch_next [OF hs(5) _ l(7)] g l(2-4)
    by (auto simp: lease_ok_def new_lease_def generation_ok_def heartbeat_ok_def)
  have fs: "leases_ok (cn_tenant_id c) (cn_id c) (cn_generation c) (cn_max_concurrency c) (cn_boots c) ?ls"
    by (rule fenced_leases_ok [OF hs(3)])
  have ts: "times_ok ?high (cn_boots c) ?ls" using fenced_times_ok [OF hs(6)] by simp
  have ids: "map lease_id_of ?ls = map lease_id_of (cn_leases c)"
    by (cases LeaseSuperseded "cn_active_lease_index c" "cn_leases c" rule: fenced_cases) (simp_all add: status_irrelevant)
  have "is_none_or (last_of ?ls) (\<lambda>p. issue_step p ?l)"
    using ts seen_not_after [OF _ l(6)]
    by (cases ?ls rule: rev_cases) (auto simp: times_ok_def lease_seen_def issue_step_def new_lease_def)
  then have a1: "leases_ok (cn_tenant_id c) (cn_id c) (cn_generation c) (cn_max_concurrency c) (cn_boots c) (?ls @ [?l])"
    using fs lok l(5) ids by (auto simp: leases_ok_def successively_snoc lease_id_of_def new_lease_def simp flip: set_map)
  have a2: "active_ok (cn_generation c) (cn_current_boot_id c) (Some (length (cn_leases c))) (?ls @ [?l])"
    using fenced_inactive [OF hs(4), of LeaseSuperseded] l(1) by (auto simp: active_ok_def new_lease_def)
  have a3: "times_ok (advanced_high_water ?high at) (cn_boots c) (?ls @ [?l])"
    using times_advance [OF ts, of at] by (auto simp: times_ok_def lease_seen_def new_lease_def)
  show ?thesis using hs(1,2) a1 a2 a3
    by (simp add: histories_ok_def leased_def epoch_ok_def) (simp add: new_lease_def)
qed


text \<open>A valid fence is the fence of the active lease, which is the last one.\<close>

lemma position_Some: "position P xs = Some i \<Longrightarrow> i < length xs \<and> P (xs ! i)"
  by (induction xs arbitrary: i) (auto split: if_splits)

lemma coordinates_Ok:
  assumes h: "histories_ok c" and v: "validate_fence_coordinates c f = Inr l"
  obtains xs where "cn_leases c = xs @ [l]" "cn_active_lease_index c = Some (length xs)" "cl_fence l = f"
    "cl_status l = LeaseActive"
proof -
  obtain i where i: "position (\<lambda>l. cl_fence l = f) (cn_leases c) = Some i" "l = cn_leases c ! i"
      "cl_status l = LeaseActive" "cn_active_lease_index c = Some i"
    using v by (auto simp: validate_fence_coordinates_def result_simps Let_def split: if_splits LeaseStatus.splits)
  have a: "cn_leases c \<noteq> []" "i = length (cn_leases c) - 1"
    using histories_active [OF h] i(4) by (auto simp: active_ok_def)
  obtain xs x where x: "cn_leases c = xs @ [x]" using a(1) by (cases "cn_leases c" rule: rev_cases) auto
  show thesis using that [of xs] x a(2) i position_Some [OF i(1)] by (simp add: nth_append)
qed

definition beaten :: "ConnectorLease \<Rightarrow> int \<Rightarrow> ConnectorObservedState \<Rightarrow> Connector \<Rightarrow> Connector" where
  "beaten l at state c = c\<lparr> cn_leases := update_last (\<lambda>_. l) (cn_leases c), cn_observed_state := state,
     cn_server_time_high_water_millis := advanced_high_water (cn_server_time_high_water_millis c) at \<rparr>"

lemma advance_heartbeat_Ok:
  "advance_heartbeat l n at high = Inr d \<longleftrightarrow> not_regressed high at \<and> at < cl_expires_at_millis l
     \<and> is_i64 (at + cl_ttl_millis l)
     \<and> d = Advance \<lparr> ack_sequence = n, ack_lease_expires_at_millis = at + cl_ttl_millis l \<rparr>"
  by (cases high) (auto simp: advance_heartbeat_def not_regressed_def result_simps split: if_splits)

lemma evaluate_advance:
  assumes "evaluate_heartbeat l n at state cap mx interval high = Inr (Advance ack)"
  shows "not_regressed high at" "at < cl_expires_at_millis l" "is_i64 (at + cl_ttl_millis l)"
    "ack = \<lparr> ack_sequence = n, ack_lease_expires_at_millis = at + cl_ttl_millis l \<rparr>"
    "cl_issued_at_millis l \<le> at" "0 < n" "n \<le> Revision_MAX" "\<not> server_derived state" "cap \<le> mx"
proof -
  have "advance_heartbeat l n at high = Inr (Advance ack)" "cl_issued_at_millis l \<le> at"
      "n \<noteq> 0" "n \<le> Revision_MAX" "\<not> server_derived state" "cap \<le> mx"
    using assms unfolding evaluate_heartbeat_def by (auto split: if_splits option.splits)
  then show "not_regressed high at" "at < cl_expires_at_millis l" "is_i64 (at + cl_ttl_millis l)"
    "ack = \<lparr> ack_sequence = n, ack_lease_expires_at_millis = at + cl_ttl_millis l \<rparr>"
    "cl_issued_at_millis l \<le> at" "0 < n" "n \<le> Revision_MAX" "\<not> server_derived state" "cap \<le> mx"
    by (simp_all add: advance_heartbeat_Ok word_gt_0)
qed

lemma record_heartbeat_Ok:
  assumes "histories_ok c" "record_heartbeat f n at state cap interval c = (Inr ack, c')"
  obtains "c' = c"
  | xs l where "cn_leases c = xs @ [l]" "cn_active_lease_index c = Some (length xs)" "cl_fence l = f"
      "cl_status l = LeaseActive"
      "evaluate_heartbeat l n at state cap (cn_max_concurrency c) interval (cn_server_time_high_water_millis c)
        = Inr (Advance ack)"
      "c' = beaten (heartbeat_lease n at state cap ack l) at state c"
proof -
  obtain l d where v: "validate_fence_coordinates c f = Inr l"
      "evaluate_heartbeat l n at state cap (cn_max_concurrency c) interval (cn_server_time_high_water_millis c) = Inr d"
    using assms(2) by (auto simp: record_heartbeat_def result_simps)
  obtain xs where xs: "cn_leases c = xs @ [l]" "cn_active_lease_index c = Some (length xs)" "cl_fence l = f"
      "cl_status l = LeaseActive"
    using coordinates_Ok [OF assms(1) v(1)] by metis
  show thesis
  proof (cases d)
    case (Replay a)
    then show ?thesis using that(1) assms(2) v by (simp add: record_heartbeat_def)
  next
    case (Advance a)
    then show ?thesis using that(2) [OF xs] assms(2) v xs
      by (auto simp: record_heartbeat_def get_at_def beaten_def advance_server_time_high_water_def)
  qed
qed

lemma beaten_histories:
  assumes h: "histories_ok c" and l: "cn_leases c = xs @ [l]" "cl_status l = LeaseActive"
    and e: "evaluate_heartbeat l n at state cap (cn_max_concurrency c) interval (cn_server_time_high_water_millis c)
        = Inr (Advance ack)"
  shows "histories_ok (beaten (heartbeat_lease n at state cap ack l) at state c)"
proof -
  note hs = histories_facts [OF h] and ev = evaluate_advance [OF e]
  let ?l = "heartbeat_lease n at state cap ack l"
  have lo: "lease_ok (cn_tenant_id c) (cn_id c) (cn_generation c) (cn_max_concurrency c) (cn_boots c) (length xs) l"
    using hs(3) l by (simp add: leases_ok_def)
  have new: "lease_ok (cn_tenant_id c) (cn_id c) (cn_generation c) (cn_max_concurrency c) (cn_boots c) (length xs) ?l"
    using lo ev by (auto simp: lease_ok_def heartbeat_lease_def heartbeat_ok_def lease_boot_ok_def)
  have "leases_ok (cn_tenant_id c) (cn_id c) (cn_generation c) (cn_max_concurrency c) (cn_boots c) (xs @ [?l])"
    using leases_update_last [OF _ new] hs(3) l by (simp add: lease_id_of_def heartbeat_lease_def)
  moreover have "times_ok (advanced_high_water (cn_server_time_high_water_millis c) at) (cn_boots c) (xs @ [?l])"
    using times_advance [OF hs(6), of at] l
    by (auto simp: times_ok_def lease_seen_def heartbeat_lease_def)
  ultimately show ?thesis using hs(1,2,4,5) l
    by (auto simp: histories_ok_def beaten_def active_ok_def epoch_ok_def heartbeat_lease_def split: option.splits)
qed


section \<open>Ending a lease\<close>

definition ended :: "LeaseStatus \<Rightarrow> Connector \<Rightarrow> Connector" where
  "ended st c = c\<lparr> cn_leases := fenced st (cn_active_lease_index c) (cn_leases c), cn_active_lease_index := None,
     cn_observed_state := ObservedOffline \<rparr>"

lemma expire_lease_Ok:
  assumes "histories_ok c" "expire_lease f expected now c = (Inr u, c')"
  obtains xs l where "cn_leases c = xs @ [l]" "cn_active_lease_index c = Some (length xs)" "cl_fence l = f"
    "cl_expires_at_millis l \<le> now" "not_regressed (cn_server_time_high_water_millis c) now"
    "c' = advance_server_time_high_water now (ended LeaseExpiredStatus c)"
proof -
  obtain l where v: "validate_fence_coordinates c f = Inr l"
    using assms(2) by (auto simp: expire_lease_def result_simps)
  obtain xs where xs: "cn_leases c = xs @ [l]" "cn_active_lease_index c = Some (length xs)" "cl_fence l = f"
    using coordinates_Ok [OF assms(1) v] by metis
  show thesis using that [OF xs] assms(2) v xs
    by (auto simp: expire_lease_def get_at_def ended_def fenced_def ensure_time_Ok result_simps split: if_splits)
qed

lemma revoke_lease_Ok:
  assumes "histories_ok c" "revoke_lease f c = (Inr u, c')"
  obtains xs l where "cn_leases c = xs @ [l]" "cn_active_lease_index c = Some (length xs)" "cl_fence l = f"
    "c' = ended LeaseRevokedStatus c"
proof -
  obtain l where v: "validate_fence_coordinates c f = Inr l"
    using assms(2) by (auto simp: revoke_lease_def result_simps)
  obtain xs where xs: "cn_leases c = xs @ [l]" "cn_active_lease_index c = Some (length xs)" "cl_fence l = f"
    using coordinates_Ok [OF assms(1) v] by metis
  show thesis using that [OF xs] assms(2) v xs
    by (auto simp: revoke_lease_def get_at_def ended_def fenced_def result_simps)
qed

lemma ended_histories:
  assumes h: "histories_ok c" and "st \<noteq> LeaseActive"
    and "times_ok high (cn_boots c) (fenced st (cn_active_lease_index c) (cn_leases c))"
  shows "histories_ok ((ended st c)\<lparr> cn_server_time_high_water_millis := high \<rparr>)"
  using histories_facts [OF h] assms(2,3) fenced_leases_ok fenced_epoch_ok fenced_inactive
  by (auto simp: histories_ok_def ended_def)

lemma expired_times:
  assumes "times_ok high bs (xs @ [l])" "cl_expires_at_millis l \<le> now"
  shows "times_ok (advanced_high_water high now) bs (fenced LeaseExpiredStatus (Some i) (xs @ [l]))"
proof -
  have "seen_by (advanced_high_water high now) (cl_expires_at_millis l)"
    using assms(2) by (cases high) (auto simp: seen_by_def advanced_high_water_def)
  then show ?thesis using times_advance [OF assms(1), of now] by (auto simp: fenced_def times_ok_def lease_seen_def)
qed

section \<open>Revisions\<close>

definition follows :: "ConnectorGeneration \<Rightarrow> ConnectorDesiredState \<Rightarrow> ConnectorGeneration \<Rightarrow> ConnectorDesiredState \<Rightarrow> bool" where
  "follows g d g' d' \<longleftrightarrow> (if g' = g then (d = d' \<and> live_state d') \<or> valid_desired_transition d d'
     else gen_get g' = gen_get g + 1 \<and> gen_get g < gen_get g' \<and> d' = d)"

lemma gen_eq: "gen_get g = gen_get g' \<longleftrightarrow> g = g'"
  by (cases g; cases g') simp

lemma append_revisions:
  assumes r: "revisions_ok c" "valid_revision (cn_spec_revision c)"
    "checked_next (cn_spec_revision c) = Inr (cn_spec_revision c')"
    and f: "follows (cn_generation c) (cn_desired_state c) (cn_generation c') (cn_desired_state c')"
    and g: "generation_ok (ConnectorGeneration Revision_MAX) (cn_generation c)"
      "generation_ok (ConnectorGeneration Revision_MAX) (cn_generation c')"
    and same: "cn_tenant_id c' = cn_tenant_id c" "cn_id c' = cn_id c" "cn_adapter_kind c' = cn_adapter_kind c"
      "cn_max_concurrency c' = cn_max_concurrency c" "cn_revisions c' = cn_revisions c"
  shows "revisions_ok (append_current_revision c')"
proof -
  let ?rs = "cn_revisions c"
  let ?r = "\<lparr> cr_tenant_id = cn_tenant_id c, cr_connector_id = cn_id c, cr_revision = cn_spec_revision c',
      cr_generation = cn_generation c', cr_adapter_kind = cn_adapter_kind c,
      cr_desired_state = cn_desired_state c', cr_max_concurrency = cn_max_concurrency c \<rparr>"
  let ?ok = "\<lambda>g. indexed (revision_ok (cn_tenant_id c) (cn_id c) (cn_adapter_kind c) (cn_max_concurrency c) g) ?rs"
  have facts: "length ?rs = unat (rev_get (cn_spec_revision c))" "?rs \<noteq> []" "?ok (cn_generation c)"
      "cr_generation (hd ?rs) = generation_initial" "cr_desired_state (hd ?rs) = Running" "successively revision_step ?rs"
      "cr_generation (last ?rs) = cn_generation c" "cr_desired_state (last ?rs) = cn_desired_state c"
    using r(1) by (simp_all add: revisions_ok_def Let_def)
  have mono: "gen_get (cn_generation c) \<le> gen_get (cn_generation c')" using f by (auto simp: follows_def split: if_splits)
  have n: "unat (rev_get (cn_spec_revision c')) = length ?rs + 1" using checked_next_succ(1) [OF r(3,2)] facts(1) by simp
  have "unat (gen_get (cn_generation c)) + 1 < 2 ^ 64"
    using g(1) by (simp add: generation_ok_def word_le_nat_alt)
  then have "revision_step (last ?rs) ?r"
    using f facts(7,8) by (auto simp: revision_step_def revision_transition_def revision_image_def follows_def gen_eq
        checked_add_def is_some_and_def split: if_splits)
  moreover have "?ok (cn_generation c')"
    using facts(3) by (rule indexed_mono) (auto simp: revision_ok_def intro: generation_ok_mono [OF _ mono])
  moreover have "generation_ok (cn_generation c') (cn_generation c')" using g(2) by (simp add: generation_ok_def)
  ultimately show ?thesis using facts(2,4-6) n same
    by (simp add: revisions_ok_def append_current_revision_def successively_snoc last_of_def revision_ok_def)
qed

end
