(* ===== verification/Connector_Safety.thy ===== *)
theory Connector_Safety
  imports Connector_Steps Calls
begin

text \<open>
  Sequences of calls on a connector: the dispatcher, the step relation of its successful calls and the
  safety of the fences it hands out. The instants a call carries are 64-bit words, read as signed
  numbers.
\<close>

section \<open>Steps\<close>

lemma live_state_simps [simp]: "live_state Running" "live_state Draining" "\<not> live_state Stopped" "\<not> live_state Revoked"
  by (simp_all add: live_state_def)

definition retired :: "LeaseStatus \<Rightarrow> int \<Rightarrow> ConnectorGeneration \<Rightarrow> ConnectorDesiredState \<Rightarrow> ConnectorObservedState
    \<Rightarrow> Revision \<Rightarrow> Connector \<Rightarrow> Connector" where
  "retired st at g d ob r c = append_current_revision (advance_server_time_high_water at
     ((shut st at c)\<lparr> cn_generation := g, cn_desired_state := d, cn_observed_state := ob, cn_spec_revision := r \<rparr>))"

definition revised :: "int \<Rightarrow> ConnectorDesiredState \<Rightarrow> Revision \<Rightarrow> Connector \<Rightarrow> Connector" where
  "revised at d r c = append_current_revision (advance_server_time_high_water at
     (c\<lparr> cn_desired_state := d, cn_observed_state := (if d = Draining then ObservedDraining else cn_observed_state c),
        cn_spec_revision := r \<rparr>))"

inductive connector_step :: "Connector \<Rightarrow> Connector \<Rightarrow> bool" where
  boot: "live_state (cn_desired_state c) \<Longrightarrow> b \<notin> set (map cb_boot_id (cn_boots c)) \<Longrightarrow>
    not_regressed (cn_server_time_high_water_millis c) at \<Longrightarrow> connector_step c (booted b at c)"
| lease: "live_state (cn_desired_state c) \<Longrightarrow> cn_current_boot_id c = Some b \<Longrightarrow> at < ex \<Longrightarrow> ex - at \<le> MAX_LEASE_TTL_MILLIS \<Longrightarrow>
    is_i64 ex \<Longrightarrow> lid \<notin> set (map lease_id_of (cn_leases c)) \<Longrightarrow> not_regressed (cn_server_time_high_water_millis c) at \<Longrightarrow>
    epoch_checked_next (cn_highest_lease_epoch c) = Inr e \<Longrightarrow> connector_step c (leased (new_lease c lid b at ex e) c)"
| beat: "cn_leases c = xs @ [l] \<Longrightarrow> cl_status l = LeaseActive \<Longrightarrow> cn_active_lease_index c = Some (length xs) \<Longrightarrow>
    evaluate_heartbeat l n at state cap (cn_max_concurrency c) interval (cn_server_time_high_water_millis c)
      = Inr (Advance ack) \<Longrightarrow>
    connector_step c (beaten (heartbeat_lease n at state cap ack l) at state c)"
| expire: "cn_leases c = xs @ [l] \<Longrightarrow> cn_active_lease_index c = Some (length xs) \<Longrightarrow> cl_expires_at_millis l \<le> now \<Longrightarrow>
    connector_step c (advance_server_time_high_water now (ended LeaseExpiredStatus c))"
| revoke: "cn_active_lease_index c = Some i \<Longrightarrow> connector_step c (ended LeaseRevokedStatus c)"
| generation: "cn_desired_state c \<noteq> Revoked \<Longrightarrow> not_regressed (cn_server_time_high_water_millis c) at \<Longrightarrow>
    generation_checked_next (cn_generation c) = Inr g \<Longrightarrow> checked_next (cn_spec_revision c) = Inr r \<Longrightarrow>
    connector_step c (retired LeaseSuperseded at g (cn_desired_state c) ObservedOffline r c)"
| revise: "live_state d \<Longrightarrow> (cn_desired_state c = d \<or> valid_desired_transition (cn_desired_state c) d) \<Longrightarrow>
    not_regressed (cn_server_time_high_water_millis c) at \<Longrightarrow> checked_next (cn_spec_revision c) = Inr r \<Longrightarrow>
    connector_step c (revised at d r c)"
| stop: "valid_desired_transition (cn_desired_state c) d \<Longrightarrow> \<not> live_state d \<Longrightarrow>
    not_regressed (cn_server_time_high_water_millis c) at \<Longrightarrow> checked_next (cn_spec_revision c) = Inr r \<Longrightarrow>
    connector_step c (retired LeaseRevokedStatus at (cn_generation c) d
      (if d = Stopped then ObservedOffline else ObservedRevoked) r c)"

section \<open>The steps keep the invariant\<close>

lemma shut_histories:
  assumes h: "histories_ok c" and t: "not_regressed (cn_server_time_high_water_millis c) at"
    and st: "st \<noteq> LeaseActive" "st \<noteq> LeaseExpiredStatus" and g: "gen_get (cn_generation c) \<le> gen_get g"
  shows "histories_ok (retired st at g d ob r c)"
proof -
  note hs = histories_facts [OF h]
  have ts: "times_ok (cn_server_time_high_water_millis c) (cn_boots c) (fenced st (cn_active_lease_index c) (cn_leases c))"
    by (rule fenced_times_ok [OF hs(6) st(2)])
  have bs: "open_boot (closed at (cn_boots c)) = None"
    by (rule open_boot_closed [OF closed_boots_ok(2) [OF hs(1,6) t]])
  show ?thesis
    using boots_ok_mono [OF closed_boots_ok(1) [OF hs(1,6) t] g] closed_leases_ok [OF fenced_leases_ok [OF hs(3)] ts t g]
      fenced_inactive [OF hs(4) st(1)] fenced_epoch_ok [OF hs(5)] closed_times_ok [OF ts, of at] bs
    by (simp add: histories_ok_def retired_def shut_def append_current_revision_def
        advance_server_time_high_water_def current_ok_def)
qed

lemma generation_next:
  assumes "generation_checked_next g = Inr n" "generation_ok (ConnectorGeneration Revision_MAX) g"
  shows "gen_get n = gen_get g + 1" "gen_get g < gen_get n" "generation_ok (ConnectorGeneration Revision_MAX) n" "n \<noteq> g"
proof -
  have s: "checked_next (Revision (gen_get g)) = Inr (Revision (gen_get n))" "valid_revision (Revision (gen_get g))"
    using assms by (auto simp: generation_checked_next_def checked_next_def generation_ok_def valid_revision_def split: if_splits)
  show "gen_get n = gen_get g + 1" using assms(1) by (auto simp: generation_checked_next_def split: if_splits)
  show "gen_get g < gen_get n" "generation_ok (ConnectorGeneration Revision_MAX) n" "n \<noteq> g"
    using checked_next_succ(2,3) [OF s] by (auto simp: generation_ok_def valid_revision_def less_Revision_def)
qed

lemmas frame_defs = connector_inv_def revisions_ok_def terminal_ok_def

lemma retired_inv:
  assumes i: "connector_inv c" and t: "not_regressed (cn_server_time_high_water_millis c) at"
    and st: "st \<noteq> LeaseActive" "st \<noteq> LeaseExpiredStatus" and r: "checked_next (cn_spec_revision c) = Inr r"
    and f: "follows (cn_generation c) (cn_desired_state c) g d"
    and g: "generation_ok (ConnectorGeneration Revision_MAX) g"
    and ob: "d = Revoked \<Longrightarrow> ob = ObservedRevoked" "d = Stopped \<Longrightarrow> ob = ObservedOffline"
  shows "connector_inv (retired st at g d ob r c)"
proof -
  have c: "generation_ok (ConnectorGeneration Revision_MAX) (cn_generation c)" "cn_max_concurrency c \<noteq> 0"
      "valid_revision (cn_spec_revision c)" "revisions_ok c" "histories_ok c"
    using i by (simp_all add: connector_inv_def)
  have mono: "gen_get (cn_generation c) \<le> gen_get g" using f by (auto simp: follows_def split: if_splits)
  have "revisions_ok (retired st at g d ob r c)"
    unfolding retired_def
    by (rule append_revisions [OF c(4,3) _ _ c(1)]) (use r f g in \<open>simp_all add: shut_def advance_server_time_high_water_def\<close>)
  then show ?thesis
    using c(2) g shut_histories [OF c(5) t st mono] checked_next_succ(2) [OF r c(3)] ob
    by (simp add: connector_inv_def terminal_ok_def retired_def shut_def append_current_revision_def
        advance_server_time_high_water_def)
qed

lemma revised_inv:
  assumes i: "connector_inv c" and r: "checked_next (cn_spec_revision c) = Inr r"
    and l: "live_state d" "cn_desired_state c = d \<or> valid_desired_transition (cn_desired_state c) d"
  shows "connector_inv (revised at d r c)"
proof -
  have c: "generation_ok (ConnectorGeneration Revision_MAX) (cn_generation c)" "cn_max_concurrency c \<noteq> 0"
      "valid_revision (cn_spec_revision c)" "revisions_ok c" "histories_ok c"
    using i by (simp_all add: connector_inv_def)
  have "revisions_ok (revised at d r c)"
    unfolding revised_def
    by (rule append_revisions [OF c(4,3) _ _ c(1)])
       (use r l c(1) in \<open>auto simp: follows_def advance_server_time_high_water_def\<close>)
  moreover have "histories_ok (revised at d r c)"
    using histories_facts [OF c(5)] times_advance [of "cn_server_time_high_water_millis c" "cn_boots c" "cn_leases c" at] l(1)
    by (auto simp: histories_ok_def revised_def append_current_revision_def advance_server_time_high_water_def
        current_ok_def is_none_or_iff)
  ultimately show ?thesis using c l(1) checked_next_succ(2) [OF r c(3)]
    by (auto simp: connector_inv_def terminal_ok_def revised_def append_current_revision_def
        advance_server_time_high_water_def live_state_def)
qed

lemma step_inv:
  assumes "connector_step c c'" "connector_inv c"
  shows "connector_inv c'"
  using assms
proof (induction rule: connector_step.induct)
  case (boot c b at)
  then show ?case using booted_histories [of c b at] by (auto simp: frame_defs booted_def)
next
  case (lease c b at ex lid e)
  then show ?case using leased_histories [of c b at ex lid e] by (auto simp: frame_defs leased_def)
next
  case (beat c xs l n at state cap interval ack)
  then show ?case using beaten_histories [of c xs l n at state cap interval ack]
    by (auto simp: frame_defs beaten_def active_ok_def)
next
  case (expire c xs l now)
  have h: "histories_ok c" using expire.prems by (simp add: connector_inv_def)
  then have "histories_ok (advance_server_time_high_water now (ended LeaseExpiredStatus c))"
    using ended_histories [OF h, of LeaseExpiredStatus] expired_times [of "cn_server_time_high_water_millis c" "cn_boots c" xs l now]
      histories_facts(6) [OF h] expire.hyps
    by (simp add: advance_server_time_high_water_def ended_def)
  then show ?case using expire by (auto simp: frame_defs ended_def advance_server_time_high_water_def)
next
  case (revoke c i)
  have h: "histories_ok c" using revoke.prems by (simp add: connector_inv_def)
  then have "histories_ok (ended LeaseRevokedStatus c)"
    using ended_histories [OF h, of LeaseRevokedStatus "cn_server_time_high_water_millis c"] fenced_times_ok [OF histories_facts(6) [OF h]]
    by (simp add: ended_def)
  then show ?case using revoke by (auto simp: frame_defs ended_def)
next
  case (generation c at g r)
  then have "follows (cn_generation c) (cn_desired_state c) g (cn_desired_state c)"
      "generation_ok (ConnectorGeneration Revision_MAX) g"
    using generation_next [of "cn_generation c" g] by (auto simp: follows_def connector_inv_def)
  then show ?case using generation by (intro retired_inv) auto
next
  case (revise d c at r)
  then show ?case using revised_inv by blast
next
  case (stop c d at r)
  then have "follows (cn_generation c) (cn_desired_state c) (cn_generation c) d"
      "generation_ok (ConnectorGeneration Revision_MAX) (cn_generation c)"
    by (auto simp: follows_def connector_inv_def)
  then show ?case using stop by (intro retired_inv) auto
qed


section \<open>Calls\<close>

datatype ConnectorCall =
  CallBeginBoot BootId "64 word"
| CallIssueLease LeaseId BootId "64 word" "64 word"
| CallRecordHeartbeat ConnectorFence u64 "64 word" ConnectorObservedState u32 "64 word"
| CallExpireLease ConnectorFence "64 word" "64 word"
| CallRevokeLease ConnectorFence
| CallAdvanceGeneration Revision "64 word"
| CallReviseLiveConfiguration Revision ConnectorDesiredState "64 word"
| CallSetDesiredState Revision ConnectorDesiredState "64 word"

definition lifted :: "('e + 'r) \<times> 's \<Rightarrow> ('e fault + unit) \<times> 's" where
  "lifted x = forget (map_err Fail (fst x), snd x)"

fun connector_call :: "ConnectorCall \<Rightarrow> Connector \<Rightarrow> (ConnectorError fault + unit) \<times> Connector" where
  "connector_call (CallBeginBoot b at) c = lifted (begin_boot b (sint at) c)"
| "connector_call (CallIssueLease l b at ex) c = lifted (issue_lease l b (sint at) (sint ex) c)"
| "connector_call (CallRecordHeartbeat f n at state cap interval) c =
     lifted (record_heartbeat f n (sint at) state cap (sint interval) c)"
| "connector_call (CallExpireLease f expected now) c = expire_lease f (sint expected) (sint now) c"
| "connector_call (CallRevokeLease f) c = revoke_lease f c"
| "connector_call (CallAdvanceGeneration r at) c = lifted (advance_generation r (sint at) c)"
| "connector_call (CallReviseLiveConfiguration r d at) c = lifted (revise_live_configuration r d (sint at) c)"
| "connector_call (CallSetDesiredState r d at) c = lifted (set_desired_state r d (sint at) c)"

lemma lifted_Ok: "lifted x = (Inr u, t) \<longleftrightarrow> (\<exists>y. x = (Inr y, t))"
  by (cases x; cases "fst x") (auto simp: lifted_def forget_Ok)

lemma lifted_Err: "lifted x = (Inl e, t) \<longleftrightarrow> (\<exists>y. x = (Inl y, t) \<and> e = Fail y)"
  by (cases x; cases "fst x") (auto simp: lifted_def forget_Err)

lemma is_i64_sint [simp]: "is_i64 (sint (w :: 64 word))"
  using sint_ge [of w] sint_lt [of w] by (simp add: is_i64_def)

text \<open>The order in which the fields are written does not matter.\<close>

lemma retired_orders:
  "append_current_revision (advance_server_time_high_water at
     ((shut st at c)\<lparr> cn_generation := g, cn_spec_revision := r, cn_observed_state := ob \<rparr>))
   = retired st at g (cn_desired_state c) ob r c"
  "append_current_revision (advance_server_time_high_water at
     ((shut st at c)\<lparr> cn_spec_revision := r, cn_desired_state := d, cn_observed_state := ob \<rparr>))
   = retired st at (cn_generation c) d ob r c"
  by (cases c; simp add: retired_def shut_def)+

lemma revised_orders:
  "append_current_revision (advance_server_time_high_water at
     (c\<lparr> cn_spec_revision := r, cn_desired_state := d,
        cn_observed_state := (if d = Draining then ObservedDraining else cn_observed_state c) \<rparr>)) = revised at d r c"
  "append_current_revision (advance_server_time_high_water at
     (c\<lparr> cn_spec_revision := r, cn_desired_state := Running \<rparr>)) = revised at Running r c"
  by (cases c; simp add: revised_def)+

lemma advance_generation_Ok:
  assumes "histories_ok c" "advance_generation e at c = (Inr g, c')"
  obtains r where "e = cn_spec_revision c" "cn_desired_state c \<noteq> Revoked"
    "not_regressed (cn_server_time_high_water_millis c) at"
    "generation_checked_next (cn_generation c) = Inr g" "checked_next (cn_spec_revision c) = Inr r"
    "c' = retired LeaseSuperseded at g (cn_desired_state c) ObservedOffline r c"
proof -
  have t: "(terminalize_active_lease LeaseSuperseded ((close_current_boot at c)\<lparr> cn_generation := g,
      cn_spec_revision := r, cn_current_boot_id := None \<rparr>)) = (shut LeaseSuperseded at c)\<lparr> cn_generation := g, cn_spec_revision := r \<rparr>" for g r
    using terminalize_active [where c = "(close_current_boot at c)\<lparr> cn_generation := g, cn_spec_revision := r,
          cn_current_boot_id := None \<rparr>" and st = LeaseSuperseded and g = "cn_generation c" and cur = "cn_current_boot_id c"]
      histories_active [OF assms(1)] by (simp add: close_current_boot_def shut_def closed_def)
  show thesis using that assms(2) unfolding advance_generation_def Let_def t
    by (auto simp: ensure_time_Ok connector_next_revision_def result_simps retired_orders split: if_splits)
qed

lemma revise_Ok:
  assumes "revise_live_configuration e d at c = (Inr r, c')"
  shows "e = cn_spec_revision c" "live_state d" "cn_desired_state c = d \<or> valid_desired_transition (cn_desired_state c) d"
    "cn_desired_state c \<noteq> Revoked" "not_regressed (cn_server_time_high_water_millis c) at"
    "checked_next (cn_spec_revision c) = Inr r" "c' = revised at d r c"
  using assms unfolding revise_live_configuration_def Let_def
  by (auto simp: ensure_time_Ok connector_next_revision_def result_simps live_state_def revised_orders [symmetric]
      split: if_splits)

definition desired_change :: "ConnectorDesiredState \<Rightarrow> int \<Rightarrow> Revision \<Rightarrow> Connector \<Rightarrow> Connector" where
  "desired_change d at r c = (if live_state d then revised at d r c
     else retired LeaseRevokedStatus at (cn_generation c) d (if d = Stopped then ObservedOffline else ObservedRevoked) r c)"

lemma set_desired_Ok:
  assumes h: "histories_ok c" and s: "set_desired_state e d at c = (Inr r, c')"
  shows "e = cn_spec_revision c \<and> cn_desired_state c \<noteq> Revoked
    \<and> (if cn_desired_state c = d then r = cn_spec_revision c \<and> c' = c
       else valid_desired_transition (cn_desired_state c) d \<and> not_regressed (cn_server_time_high_water_millis c) at
         \<and> checked_next (cn_spec_revision c) = Inr r \<and> c' = desired_change d at r c)"
proof (cases "cn_desired_state c = d")
  case True
  then show ?thesis using s by (auto simp: set_desired_state_def split: if_splits)
next
  case False
  then have ok: "e = cn_spec_revision c" "cn_desired_state c \<noteq> Revoked" "valid_desired_transition (cn_desired_state c) d"
      "not_regressed (cn_server_time_high_water_millis c) at" "checked_next (cn_spec_revision c) = Inr r"
      "c' = append_current_revision (advance_server_time_high_water at
         (apply_desired_state d at (c\<lparr> cn_spec_revision := r, cn_desired_state := d \<rparr>)))"
    using s unfolding set_desired_state_def
    by (auto simp: ensure_time_Ok connector_next_revision_def result_simps split: if_splits)
  have t: "terminalize_active_lease st ((close_current_boot at (c\<lparr> cn_spec_revision := r, cn_desired_state := d \<rparr>))\<lparr>
      cn_current_boot_id := None \<rparr>) = (shut st at c)\<lparr> cn_spec_revision := r, cn_desired_state := d \<rparr>" for st d
    using terminalize_active [where c = "(close_current_boot at (c\<lparr> cn_spec_revision := r, cn_desired_state := d \<rparr>))\<lparr>
          cn_current_boot_id := None \<rparr>" and st = st and g = "cn_generation c" and cur = "cn_current_boot_id c"]
      histories_active [OF h] by (simp add: close_current_boot_def shut_def closed_def)
  have "c' = desired_change d at r c"
    using ok(6) revised_orders(1) [where at = at and c = c and r = r and d = d] revised_orders(2) [where at = at and c = c and r = r]
    by (cases d) (simp_all add: desired_change_def apply_desired_state_def t retired_orders)
  then show ?thesis using ok False by simp
qed

lemma call_success:
  assumes "connector_inv c" "connector_call k c = (Inr u, c')"
  shows "c' = c \<or> connector_step c c'"
proof -
  have h: "histories_ok c" using assms(1) by (simp add: connector_inv_def)
  show ?thesis
  proof (cases k)
    case (CallBeginBoot b at)
    then obtain y where "begin_boot b (sint at) c = (Inr y, c')" using assms(2) by (auto simp: lifted_Ok)
    from begin_boot_Ok [OF h this] connector_step.boot show ?thesis by metis
  next
    case (CallIssueLease l b at ex)
    then obtain y where "issue_lease l b (sint at) (sint ex) c = (Inr y, c')" using assms(2) by (auto simp: lifted_Ok)
    from issue_lease_Ok [OF h this] connector_step.lease [where c = c and ex = "sint ex"] is_i64_sint [of ex]
    show ?thesis by metis
  next
    case (CallRecordHeartbeat f n at state cap interval)
    then obtain ack where "record_heartbeat f n (sint at) state cap (sint interval) c = (Inr ack, c')"
      using assms(2) by (auto simp: lifted_Ok)
    from record_heartbeat_Ok [OF h this] show ?thesis by cases (auto intro: connector_step.beat)
  next
    case (CallExpireLease f expected now)
    then have "expire_lease f (sint expected) (sint now) c = (Inr u, c')" using assms(2) by simp
    from expire_lease_Ok [OF h this] show ?thesis by (metis connector_step.expire)
  next
    case (CallRevokeLease f)
    then have "revoke_lease f c = (Inr u, c')" using assms(2) by simp
    from revoke_lease_Ok [OF h this] show ?thesis by (metis connector_step.revoke)
  next
    case (CallAdvanceGeneration r at)
    then obtain g where "advance_generation r (sint at) c = (Inr g, c')" using assms(2) by (auto simp: lifted_Ok)
    from advance_generation_Ok [OF h this] show ?thesis by (metis connector_step.generation)
  next
    case (CallReviseLiveConfiguration r d at)
    then obtain y where "revise_live_configuration r d (sint at) c = (Inr y, c')" using assms(2) by (auto simp: lifted_Ok)
    from revise_Ok [OF this] show ?thesis using connector_step.revise by simp
  next
    case (CallSetDesiredState r d at)
    then obtain y where "set_desired_state r d (sint at) c = (Inr y, c')" using assms(2) by (auto simp: lifted_Ok)
    from set_desired_Ok [OF h this] show ?thesis
      using connector_step.stop [where c = c and d = d and at = "sint at" and r = y]
        connector_step.revise [where c = c and d = d and at = "sint at" and r = y]
      by (cases "cn_desired_state c = d"; cases d) (auto simp: desired_change_def live_state_def)
  qed
qed


section \<open>Failed calls\<close>

lemma operations_atomic:
  "atomic c (begin_boot b at c)" "atomic c (issue_lease lid b at ex c)"
  "atomic c (record_heartbeat f n at state cap interval c)" "atomic c (expire_lease f expected now c)"
  "atomic c (revoke_lease f c)" "atomic c (advance_generation r at c)"
  "atomic c (revise_live_configuration r d at c)" "atomic c (set_desired_state r d at c)"
  unfolding begin_boot_def issue_lease_def record_heartbeat_def expire_lease_def revoke_lease_def
    advance_generation_def revise_live_configuration_def set_desired_state_def Let_def
  by (auto intro!: atomic_intros split: option.split HeartbeatDisposition.split)

lemma lifted_atomic: "atomic c x \<Longrightarrow> lifted x = (Inl e, t) \<Longrightarrow> t = c \<and> e \<noteq> Panic"
  by (auto simp: lifted_Err dest: atomicD)

lemma active_present:
  assumes "histories_ok c" "validate_fence_coordinates c f = Inr l"
  shows "\<exists>i. cn_active_lease_index c = Some i \<and> get_at (cn_leases c) i = Some l"
  using coordinates_Ok [OF assms] by (metis get_at_def length_append_singleton lessI nth_append_length)

lemma call_failure:
  assumes "connector_inv c" "connector_call k c = (Inl e, c')"
  shows "c' = c \<and> e \<noteq> Panic"
proof -
  have h: "histories_ok c" using assms(1) by (simp add: connector_inv_def)
  have expire: "expire_lease f expected now c \<noteq> (Inl Panic, c')" for f expected now
    using active_present [OF h] by (auto simp: expire_lease_def result_simps map_err_def split: sum.splits if_splits)
  have revoke: "revoke_lease f c \<noteq> (Inl Panic, c')" for f
    using active_present [OF h] by (auto simp: revoke_lease_def result_simps map_err_def split: sum.splits if_splits)
  show ?thesis
  proof (cases k)
    case (CallExpireLease f expected now)
    then show ?thesis using assms(2) expire atomic_Err [OF operations_atomic(4)] by (metis connector_call.simps(4))
  next
    case (CallRevokeLease f)
    then show ?thesis using assms(2) revoke atomic_Err [OF operations_atomic(5)] by (metis connector_call.simps(5))
  qed (use assms(2) lifted_atomic [OF operations_atomic(1)] lifted_atomic [OF operations_atomic(2)]
      lifted_atomic [OF operations_atomic(3)] lifted_atomic [OF operations_atomic(6)]
      lifted_atomic [OF operations_atomic(7)] lifted_atomic [OF operations_atomic(8)] in
      \<open>metis connector_call.simps\<close>)+
qed

interpretation connector_calls: stepping_calls connector_call connector_step connector_inv
proof
  fix s t :: Connector and k and e and u
  show "connector_inv s \<Longrightarrow> connector_call k s = (Inr u, t) \<Longrightarrow> t = s \<or> connector_step s t" by (rule call_success)
  show "connector_inv s \<Longrightarrow> connector_call k s = (Inl e, t) \<Longrightarrow> t = s" using call_failure by blast
  show "connector_inv s \<Longrightarrow> connector_step s t \<Longrightarrow> connector_inv t" using step_inv by blast
qed


section \<open>Fences\<close>

definition active_fence :: "Connector \<Rightarrow> ConnectorFence option" where
  "active_fence c = (if cn_active_lease_index c = None then None else map_option cl_fence (last_of (cn_leases c)))"

lemma position_unique:
  "distinct (map k xs) \<Longrightarrow> i < length xs \<Longrightarrow> P (xs ! i) \<Longrightarrow> (\<And>y. P y \<Longrightarrow> k y = v) \<Longrightarrow> position P xs = Some i"
proof (induction xs arbitrary: i)
  case (Cons x xs)
  show ?case
  proof (cases i)
    case (Suc j)
    then have "v \<in> k ` set xs" using Cons.prems(2-4) by (metis Suc_less_eq image_eqI length_Cons nth_Cons_Suc nth_mem)
    then have "\<not> P x" using Cons.prems(1,4) by auto
    then show ?thesis using Cons Suc by simp
  qed (use Cons in simp)
qed simp

text \<open>A fence passes exactly when it is the one of the active lease.\<close>

lemma coordinates_iff:
  assumes "connector_inv c"
  shows "is_ok (validate_fence_coordinates c f) \<longleftrightarrow> active_fence c = Some f"
proof
  have h: "histories_ok c" using assms by (simp add: connector_inv_def)
  show "active_fence c = Some f" if v: "is_ok (validate_fence_coordinates c f)"
  proof -
    obtain l where "validate_fence_coordinates c f = Inr l" using v by (auto simp: is_ok_iff)
    from coordinates_Ok [OF h this] show ?thesis by (metis active_fence_def last_of_snoc(1) option.distinct(1) option.map(2))
  qed
  show "is_ok (validate_fence_coordinates c f)" if a: "active_fence c = Some f"
  proof -
    obtain i xs l where l: "cn_active_lease_index c = Some i" "cn_leases c = xs @ [l]" "cl_fence l = f"
      using a by (cases "cn_leases c" rule: rev_cases) (auto simp: active_fence_def split: if_splits)
    have act: "i = length xs" "cl_status l = LeaseActive" "cn_current_boot_id c = Some (cf_boot_id f)"
        "cf_generation f = cn_generation c"
      using histories_active [OF h] l by (auto simp: active_ok_def)
    have lok: "distinct (map lease_id_of (xs @ [l]))" "cf_tenant_id f = cn_tenant_id c" "cf_connector_id f = cn_id c"
      using histories_facts(3) [OF h] l by (auto simp: leases_ok_def lease_ok_def)
    have "position (\<lambda>l. cl_fence l = f) (xs @ [l]) = Some (length xs)"
      by (rule position_unique [OF lok(1), where v = "cf_lease_id f"]) (use l(3) in \<open>auto simp: lease_id_of_def\<close>)
    then show ?thesis using l act lok(2,3) by (simp add: validate_fence_coordinates_def nth_append)
  qed
qed

text \<open>The fence of a lease that is not active is spent: no step makes it active again.\<close>

definition spent_fence :: "ConnectorFence \<Rightarrow> Connector \<Rightarrow> bool" where
  "spent_fence f c \<longleftrightarrow> f \<in> cl_fence ` set (cn_leases c) \<and> active_fence c \<noteq> Some f"

lemma fences_fenced [simp]: "map cl_fence (fenced st act ls) = map cl_fence ls"
  by (cases st act ls rule: fenced_cases) simp_all

lemma fences_fenced_set [simp]: "cl_fence ` set (fenced st act ls) = cl_fence ` set ls"
  by (metis fences_fenced image_set)

lemma step_fences:
  assumes "connector_step c c'" "connector_inv c"
  shows "cl_fence ` set (cn_leases c) \<subseteq> cl_fence ` set (cn_leases c')
    \<and> (active_fence c' = None \<or> active_fence c' = active_fence c
       \<or> (\<forall>f\<in>cl_fence ` set (cn_leases c). active_fence c' \<noteq> Some f))"
  using assms
proof (induction rule: connector_step.induct)
  case (lease c b at ex lid e)
  have "f \<noteq> cl_fence (new_lease c lid b at ex e)" if "f \<in> cl_fence ` set (cn_leases c)" for f
    using that lease(6) by (auto simp: new_lease_def lease_id_of_def image_iff dest: arg_cong [where f = cf_lease_id])
  then show ?case by (auto simp: active_fence_def leased_def)
next
  case (beat c xs l n at state cap interval ack)
  then show ?case by (simp add: active_fence_def beaten_def heartbeat_lease_def)
qed (auto simp: active_fence_def booted_def ended_def retired_def shut_def revised_def append_current_revision_def
    advance_server_time_high_water_def)

lemma spent_step: "connector_inv c \<Longrightarrow> connector_step c c' \<Longrightarrow> spent_fence f c \<Longrightarrow> spent_fence f c'"
  using step_fences [of c c'] by (auto simp: spent_fence_def)

lemma run_spent: "connector_inv c \<Longrightarrow> spent_fence f c \<Longrightarrow> spent_fence f (run connector_call cs c)"
  using connector_calls.run_stable [of c "spent_fence f" cs] spent_step by blast

lemma run_known:
  assumes "connector_inv c" "f \<in> cl_fence ` set (cn_leases c)"
  shows "f \<in> cl_fence ` set (cn_leases (run connector_call cs c))"
  using connector_calls.run_stable [of c "\<lambda>c. f \<in> cl_fence ` set (cn_leases c)" cs] assms step_fences by blast

lemma fence_not_active:
  assumes "connector_inv c" "active_fence c \<noteq> Some f"
  shows "\<not> is_ok (validate_fence_coordinates c f)"
  using coordinates_iff [OF assms(1)] assms(2) by simp

lemma refused_everywhere:
  assumes "\<not> is_ok (validate_fence_coordinates c f)"
  shows "\<not> is_ok (validate_fence c f now)" "\<not> is_ok (fst (record_heartbeat f n at state cap interval c))"
    "\<not> is_ok (fst (expire_lease f ex now c))" "\<not> is_ok (fst (revoke_lease f c))"
  using assms
  by (cases "validate_fence_coordinates c f"; simp add: validate_fence_def record_heartbeat_def expire_lease_def revoke_lease_def)+

section \<open>Properties\<close>

text \<open>C36. Every connector that registration and any sequence of calls produce satisfies the invariant
  of its histories: consecutive revisions with legal transitions, closed boots in time order with at
  most one open, leases numbered by their epoch with at most the last one active and bound to the open
  boot of the current generation, heartbeat acknowledgements that match the lease, and a high-water mark
  no recorded time exceeds. A call that fails leaves the connector as it was and is never an index out
  of range.\<close>
theorem connector_well_formed:
  assumes "connector_register host k a m = Inr c0"
  shows "connector_inv (run connector_call cs c0)
    \<and> (fst (connector_call x (run connector_call cs c0)) = Inl e \<longrightarrow>
       snd (connector_call x (run connector_call cs c0)) = run connector_call cs c0 \<and> e \<noteq> Panic)"
proof -
  have "connector_inv (run connector_call cs c0)"
    by (rule connector_calls.run_inv [OF register_inv [OF assms]])
  then show ?thesis using call_failure by (metis prod.collapse)
qed

text \<open>C37. A connector has at most one valid fence, and a fence is spent once: when the fence of the
  current lease stops being accepted, after a new lease, a new boot, expiry, revocation, a new
  generation or a stop, no sequence of calls makes it valid again. From then on the fence passes no
  check and no heartbeat, expiry or revocation under it succeeds.\<close>
theorem connector_fence_spent:
  assumes "connector_inv c" "validate_fence c f t0 = Inr ()"
    and "\<not> is_ok (validate_fence_coordinates (run connector_call cs c) f)"
  shows "(\<forall>g t. validate_fence c g t = Inr () \<longrightarrow> g = f)
    \<and> \<not> is_ok (validate_fence (run connector_call ds (run connector_call cs c)) f now)
    \<and> \<not> is_ok (fst (record_heartbeat f n at state cap interval (run connector_call ds (run connector_call cs c))))
    \<and> \<not> is_ok (fst (expire_lease f ex now (run connector_call ds (run connector_call cs c))))
    \<and> \<not> is_ok (fst (revoke_lease f (run connector_call ds (run connector_call cs c))))"
proof -
  let ?g = "run connector_call cs c"
  have valid: "active_fence c = Some g" if "validate_fence c g t = Inr ()" for g t
    using that coordinates_iff [OF assms(1)] by (auto simp: validate_fence_def result_simps)
  have inv: "connector_inv ?g" by (rule connector_calls.run_inv [OF assms(1)])
  have "f \<in> cl_fence ` set (cn_leases c)"
    using valid [OF assms(2)] by (cases "cn_leases c" rule: rev_cases) (auto simp: active_fence_def split: if_splits)
  then have "spent_fence f ?g"
    using run_known [OF assms(1)] coordinates_iff [OF inv, of f] assms(3) by (simp add: spent_fence_def)
  then have "spent_fence f (run connector_call ds ?g)" by (rule run_spent [OF inv])
  then have "\<not> is_ok (validate_fence_coordinates (run connector_call ds ?g) f)"
    using fence_not_active [OF connector_calls.run_inv [OF inv]] by (simp add: spent_fence_def)
  note refused = refused_everywhere [OF this]
  have "\<forall>g t. validate_fence c g t = Inr () \<longrightarrow> g = f" using valid valid [OF assms(2)] by auto
  with refused show ?thesis by blast
qed


section \<open>An example connector\<close>

text \<open>A connector of the example host boots, gets a lease, and then a second lease.\<close>

definition demo_registered :: Connector where
  "demo_registered =
     \<lparr> cn_tenant_id = UuidId 1, cn_id = UuidId 20, cn_host_id = UuidId 2, cn_adapter_kind = Codex,
       cn_generation = ConnectorGeneration 1, cn_desired_state = Running, cn_observed_state = ObservedEnrolling,
       cn_max_concurrency = 4, cn_boots = [], cn_current_boot_id = None, cn_leases = [],
       cn_active_lease_index = None, cn_highest_lease_epoch = None, cn_server_time_high_water_millis = None,
       cn_spec_revision = Revision 1,
       cn_revisions = [\<lparr> cr_tenant_id = UuidId 1, cr_connector_id = UuidId 20, cr_revision = Revision 1,
         cr_generation = ConnectorGeneration 1, cr_adapter_kind = Codex, cr_desired_state = Running,
         cr_max_concurrency = 4 \<rparr>] \<rparr>"

lemma demo_registered_eq: "connector_register demo_host (UuidId 20) Codex 4 = Inr demo_registered"
  by (simp add: connector_register_def demo_registered_def generation_initial_def host_eval)

definition demo_start :: "ConnectorCall list" where
  "demo_start = [CallBeginBoot (UuidId 30) 10, CallIssueLease (UuidId 40) (UuidId 30) 20 1020]"

definition demo_fence :: ConnectorFence where
  "demo_fence = \<lparr> cf_tenant_id = UuidId 1, cf_connector_id = UuidId 20, cf_generation = ConnectorGeneration 1,
     cf_boot_id = UuidId 30, cf_lease_id = UuidId 40, cf_lease_epoch = LeaseEpoch 1 \<rparr>"

definition demo_leased :: Connector where
  "demo_leased = run connector_call demo_start demo_registered"

lemma demo_leased_inv: "connector_inv demo_leased"
  unfolding demo_leased_def by (rule connector_calls.run_inv [OF register_inv [OF demo_registered_eq]])

lemmas connector_eval = demo_leased_def demo_start_def demo_registered_def demo_fence_def lifted_def forget_def
  begin_boot_def issue_lease_def set_desired_state_def ensure_server_time_not_regressed_def close_current_boot_def
  update_last_def last_of_def terminalize_active_lease_def get_at_def advance_server_time_high_water_def
  advanced_high_water_def checked_sub_i64_def is_i64_def MAX_LEASE_TTL_MILLIS_def lease_not_before_def
  epoch_checked_next_def saturating_succ_def checked_add_def Revision_MAX_def Let_def validate_fence_def
  validate_fence_coordinates_def

lemma demo_leased_valid: "validate_fence demo_leased demo_fence 500 = Inr ()"
  by (simp add: connector_eval)

theorem connector_well_formed_witness:
  "connector_inv (run connector_call demo_start demo_registered)
   \<and> connector_call (CallIssueLease (UuidId 41) (UuidId 31) 30 40) demo_leased = (Inl (Fail StaleBoot), demo_leased)"
proof -
  have "fst (connector_call (CallIssueLease (UuidId 41) (UuidId 31) 30 40) demo_leased) = Inl (Fail StaleBoot)"
    by (simp add: connector_eval)
  then show ?thesis
    using connector_well_formed [OF demo_registered_eq, of demo_start "CallIssueLease (UuidId 41) (UuidId 31) 30 40" "Fail StaleBoot"]
    by (simp add: demo_leased_def prod_eq_iff)
qed

theorem connector_fence_spent_witness:
  "\<not> is_ok (validate_fence (run connector_call [CallSetDesiredState (Revision 1) Draining 40]
      (run connector_call [CallIssueLease (UuidId 41) (UuidId 30) 30 1030] demo_leased)) demo_fence 50)"
proof -
  have "\<not> is_ok (validate_fence_coordinates
      (run connector_call [CallIssueLease (UuidId 41) (UuidId 30) 30 1030] demo_leased) demo_fence)"
    by (simp add: connector_eval)
  from connector_fence_spent [OF demo_leased_inv demo_leased_valid this] show ?thesis by blast
qed

end
