(* ===== verification/Connector_Rehydrate.thy ===== *)
theory Connector_Rehydrate
  imports Connector_Safety
begin

text \<open>
  Rehydration of a connector: the validator accepts exactly the images of connectors that satisfy the
  invariant of the operations. Each loop of the validator is described by a predicate on the prefix it
  has read and by the state it has built from it.
\<close>

section \<open>Images\<close>

definition revision_of :: "ConnectorRevisionSnapshot \<Rightarrow> ConnectorRevision" where
  "revision_of r = \<lparr> cr_tenant_id = crs_tenant_id r, cr_connector_id = crs_connector_id r,
     cr_revision = crs_revision r, cr_generation = ConnectorGeneration (crs_generation r),
     cr_adapter_kind = crs_adapter_kind r, cr_desired_state = crs_desired_state r,
     cr_max_concurrency = crs_max_concurrency r \<rparr>"

definition boot_of :: "ConnectorBootSnapshot \<Rightarrow> ConnectorBoot" where
  "boot_of b = \<lparr> cb_tenant_id = cbs_tenant_id b, cb_parent_id = cbs_connector_id b, cb_boot_id = cbs_boot_id b,
     cb_generation = ConnectorGeneration (cbs_generation b), cb_started_at_millis = cbs_started_at_millis b,
     cb_ended_at_millis = cbs_ended_at_millis b \<rparr>"

definition lease_of :: "ConnectorLeaseSnapshot \<Rightarrow> ConnectorLease" where
  "lease_of l = lease_of_image (ConnectorGeneration (cls_generation l)) (LeaseEpoch (cls_lease_epoch l))
     (map_option heartbeat_of_image (cls_last_heartbeat l)) l"

definition connector_of_image :: "ConnectorSnapshot \<Rightarrow> Connector" where
  "connector_of_image s =
     \<lparr> cn_tenant_id = cns_tenant_id s, cn_id = cns_connector_id s, cn_host_id = cns_host_id s,
       cn_adapter_kind = cns_adapter_kind s, cn_generation = ConnectorGeneration (cns_generation s),
       cn_desired_state = cns_desired_state s, cn_observed_state = cns_observed_state s,
       cn_max_concurrency = cns_max_concurrency s, cn_boots = map boot_of (cns_boots s),
       cn_current_boot_id = cns_current_boot_id s, cn_leases = map lease_of (cns_leases s),
       cn_active_lease_index = cns_active_lease_index s,
       cn_highest_lease_epoch = map_option LeaseEpoch (cns_highest_lease_epoch s),
       cn_server_time_high_water_millis = cns_server_time_high_water_millis s,
       cn_spec_revision = cns_spec_revision s, cn_revisions = map revision_of (cns_revisions s) \<rparr>"

lemma revision_of_fields [simp]:
  "cr_tenant_id (revision_of r) = crs_tenant_id r" "cr_connector_id (revision_of r) = crs_connector_id r"
  "cr_revision (revision_of r) = crs_revision r" "cr_generation (revision_of r) = ConnectorGeneration (crs_generation r)"
  "cr_adapter_kind (revision_of r) = crs_adapter_kind r" "cr_desired_state (revision_of r) = crs_desired_state r"
  "cr_max_concurrency (revision_of r) = crs_max_concurrency r"
  by (simp_all add: revision_of_def)

lemma boot_of_fields [simp]:
  "cb_tenant_id (boot_of b) = cbs_tenant_id b" "cb_parent_id (boot_of b) = cbs_connector_id b"
  "cb_boot_id (boot_of b) = cbs_boot_id b" "cb_generation (boot_of b) = ConnectorGeneration (cbs_generation b)"
  "cb_started_at_millis (boot_of b) = cbs_started_at_millis b" "cb_ended_at_millis (boot_of b) = cbs_ended_at_millis b"
  by (simp_all add: boot_of_def)

lemma lease_of_fields [simp]:
  "cl_fence (lease_of l) = \<lparr> cf_tenant_id = cls_tenant_id l, cf_connector_id = cls_connector_id l,
     cf_generation = ConnectorGeneration (cls_generation l), cf_boot_id = cls_boot_id l,
     cf_lease_id = cls_lease_id l, cf_lease_epoch = LeaseEpoch (cls_lease_epoch l) \<rparr>"
  "cl_issued_at_millis (lease_of l) = cls_issued_at_millis l" "cl_expires_at_millis (lease_of l) = cls_expires_at_millis l"
  "cl_ttl_millis (lease_of l) = cls_ttl_millis l" "cl_status (lease_of l) = cls_status l"
  "cl_last_heartbeat (lease_of l) = map_option heartbeat_of_image (cls_last_heartbeat l)"
  "cl_last_heartbeat_at_millis (lease_of l) = cls_last_heartbeat_at_millis l"
  by (simp_all add: lease_of_def lease_of_image_def)

lemma part_images [simp]:
  "revision_image (revision_of r) = r" "revision_of (revision_image r') = r'"
  "boot_image (boot_of b) = b" "boot_of (boot_image b') = b'"
  "heartbeat_image (heartbeat_of_image h) = h" "heartbeat_of_image (heartbeat_image h') = h'"
  by (simp_all add: revision_image_def revision_of_def boot_image_def boot_of_def heartbeat_image_def heartbeat_of_image_def)

lemma lease_images [simp]: "lease_image (lease_of l) = l" "lease_of (lease_image l') = l'"
  by (simp_all add: lease_image_def lease_of_def lease_of_image_def option.map_comp comp_def option.map_ident)

lemma connector_images:
  "connector_snapshot (connector_of_image s) = s" "connector_of_image (connector_snapshot c) = c"
  by (simp_all add: connector_snapshot_def connector_of_image_def option.map_comp comp_def option.map_ident)

section \<open>Loops over an enumeration\<close>

lemma for_each_enumerate:
  assumes "full = xs @ ys" and init: "R []" "F [] = s0"
    and step: "\<And>xs x ys r. full = xs @ x # ys \<Longrightarrow> R xs \<Longrightarrow> f (length xs, x) (F xs) = Inr r \<longleftrightarrow> R (xs @ [x]) \<and> r = F (xs @ [x])"
    and prefix: "\<And>xs x. R (xs @ [x]) \<Longrightarrow> R xs"
  shows "for_each f (enumerate 0 xs) s0 = Inr r \<longleftrightarrow> R xs \<and> r = F xs"
  using assms(1)
proof (induction xs arbitrary: ys r rule: rev_induct)
  case Nil
  then show ?case using init by auto
next
  case (snoc x xs)
  have IH: "for_each f (enumerate 0 xs) s0 = Inr r \<longleftrightarrow> R xs \<and> r = F xs" for r using snoc by simp
  have "for_each f (enumerate 0 (xs @ [x])) s0 = Inr r \<longleftrightarrow> (\<exists>s. for_each f (enumerate 0 xs) s0 = Inr s \<and> f (length xs, x) s = Inr r)"
    by (simp add: enumerate_append_eq for_each_append result_simps)
  also have "\<dots> \<longleftrightarrow> R xs \<and> f (length xs, x) (F xs) = Inr r" by (auto simp: IH)
  also have "\<dots> \<longleftrightarrow> R (xs @ [x]) \<and> r = F (xs @ [x])" using step [of xs x ys r] snoc.prems prefix by auto
  finally show ?case .
qed

lemma last_nth: "xs \<noteq> [] \<Longrightarrow> ((xs @ ys) ! (length xs - 1)) = last xs"
  by (cases xs rule: rev_cases) (simp_all add: nth_append)

lemma successively_last:
  "successively P (xs @ [x]) \<longleftrightarrow> successively P xs \<and> (xs \<noteq> [] \<longrightarrow> P (last xs) x)"
  by (cases xs rule: rev_cases) (auto simp: successively_append_iff)

lemma successively_map': "successively P (map f xs) \<longleftrightarrow> successively (\<lambda>x y. P (f x) (f y)) xs"
  by (simp add: successively_map)

lemma indexed_map: "indexed P (map f xs) \<longleftrightarrow> indexed (\<lambda>i x. P i (f x)) xs"
  by (simp add: indexed_def)

section \<open>Revisions\<close>

definition revision_read :: "ConnectorSnapshot \<Rightarrow> nat \<Rightarrow> ConnectorRevisionSnapshot \<Rightarrow> bool" where
  "revision_read s i r \<longleftrightarrow> crs_tenant_id r = cns_tenant_id s \<and> crs_connector_id r = cns_connector_id s
     \<and> unat (rev_get (crs_revision r)) = i + 1 \<and> crs_adapter_kind r = cns_adapter_kind s
     \<and> crs_max_concurrency r = cns_max_concurrency s \<and> crs_generation r \<noteq> 0 \<and> crs_generation r \<le> cns_generation s"

definition revisions_read :: "ConnectorSnapshot \<Rightarrow> ConnectorRevisionSnapshot list \<Rightarrow> bool" where
  "revisions_read s rs \<longleftrightarrow> indexed (revision_read s) rs \<and> successively revision_transition rs
     \<and> (rs \<noteq> [] \<longrightarrow> crs_generation (hd rs) = 1 \<and> crs_desired_state (hd rs) = Running)"

lemma revisions_read_snoc:
  "revisions_read s (xs @ [x]) \<longleftrightarrow> revisions_read s xs \<and> revision_read s (length xs) x
     \<and> (xs = [] \<longrightarrow> crs_generation x = 1 \<and> crs_desired_state x = Running)
     \<and> (xs \<noteq> [] \<longrightarrow> revision_transition (last xs) x)"
  unfolding revisions_read_def successively_last indexed_snoc by (cases "xs = []") auto

lemma load_revision_Ok:
  assumes "cns_revisions s = xs @ x # ys" "cns_generation s \<le> Revision_MAX" "revisions_read s xs"
  shows "load_revision s (length xs, x) (map revision_of xs) = Inr r \<longleftrightarrow>
    revisions_read s (xs @ [x]) \<and> r = map revision_of (xs @ [x])"
proof -
  have p: "xs \<noteq> [] \<Longrightarrow> cns_revisions s ! (length xs - 1) = last xs" using last_nth assms(1) by metis
  have "load_revision s (length xs, x) (map revision_of xs) = Inr r \<longleftrightarrow> revision_read s (length xs) x
      \<and> (xs = [] \<longrightarrow> crs_generation x = 1 \<and> crs_desired_state x = Running)
      \<and> (xs \<noteq> [] \<longrightarrow> revision_transition (last xs) x) \<and> r = map revision_of (xs @ [x])"
    using p assms(2) by (cases "xs = []") (auto simp: load_revision_def revision_read_def generation_initial_def
        snapshot_generation_def revision_of_def result_simps not_less split: if_splits)
  also have "\<dots> \<longleftrightarrow> revisions_read s (xs @ [x]) \<and> r = map revision_of (xs @ [x])"
    using assms(3) by (simp add: revisions_read_snoc)
  finally show ?thesis .
qed

lemma load_revisions_Ok:
  assumes "cns_generation s \<le> Revision_MAX"
  shows "load_revisions s = Inr rs \<longleftrightarrow> revisions_ok (connector_of_image s) \<and> rs = map revision_of (cns_revisions s)"
proof -
  let ?full = "cns_revisions s"
  have loop: "for_each (load_revision s) (enumerate 0 ?full) [] = Inr r \<longleftrightarrow> revisions_read s ?full \<and> r = map revision_of ?full" for r
    by (rule for_each_enumerate [where full = ?full and ys = "[]" and R = "revisions_read s" and F = "map revision_of"])
       (simp_all add: load_revision_Ok assms revisions_read_snoc, simp_all add: revisions_read_def)
  show ?thesis
    by (cases "?full = []")
       (auto simp: load_revisions_def loop result_simps last_of_def revisions_ok_def connector_of_image_def Let_def
         revisions_read_def revision_read_def revision_ok_def indexed_map indexed_def successively_map' revision_step_def
         generation_ok_def generation_initial_def hd_map last_map word_gt_0)
qed


section \<open>Boots\<close>

definition boot_read :: "ConnectorSnapshot \<Rightarrow> nat \<Rightarrow> ConnectorBootSnapshot \<Rightarrow> bool" where
  "boot_read s i b \<longleftrightarrow> boot_ok (cns_tenant_id s) (cns_connector_id s) (ConnectorGeneration (cns_generation s)) (boot_of b)
     \<and> (i + 1 < length (cns_boots s) \<longrightarrow> cbs_ended_at_millis b \<noteq> None)"

definition boots_read :: "ConnectorSnapshot \<Rightarrow> ConnectorBootSnapshot list \<Rightarrow> bool" where
  "boots_read s bs \<longleftrightarrow> indexed (boot_read s) bs \<and> distinct (map cbs_boot_id bs) \<and> successively boot_follows bs"

definition boots_built :: "ConnectorBootSnapshot list \<Rightarrow> BootId fset \<times> ConnectorBoot list" where
  "boots_built bs = (fset_of_list (map cbs_boot_id bs), map boot_of bs)"

lemma boots_read_snoc:
  "boots_read s (xs @ [x]) \<longleftrightarrow> boots_read s xs \<and> boot_read s (length xs) x
     \<and> cbs_boot_id x \<notin> set (map cbs_boot_id xs) \<and> (xs \<noteq> [] \<longrightarrow> boot_follows (last xs) x)"
  unfolding boots_read_def successively_last indexed_snoc by auto

lemma load_boot_Ok:
  assumes "cns_boots s = xs @ x # ys" "cns_generation s \<le> Revision_MAX" "boots_read s xs"
  shows "load_boot s (length xs, x) (boots_built xs) = Inr r \<longleftrightarrow> boots_read s (xs @ [x]) \<and> r = boots_built (xs @ [x])"
proof -
  have p: "xs \<noteq> [] \<Longrightarrow> cns_boots s ! (length xs - 1) = last xs" using last_nth assms(1) by metis
  have "load_boot s (length xs, x) (boots_built xs) = Inr r \<longleftrightarrow> boot_read s (length xs) x
     \<and> cbs_boot_id x \<notin> set (map cbs_boot_id xs) \<and> (xs \<noteq> [] \<longrightarrow> boot_follows (last xs) x) \<and> r = boots_built (xs @ [x])"
    using p assms(2)
    by (cases "xs = []"; cases "cbs_ended_at_millis x")
       (auto simp: load_boot_def boots_built_def boot_read_def boot_ok_def generation_ok_def snapshot_generation_def
        boot_of_def result_simps not_less word_gt_0 fset_of_list_elem finsert_def [symmetric] split: if_splits)
  then show ?thesis using assms(3) by (simp add: boots_read_snoc)
qed

lemma boots_loop:
  assumes "cns_generation s \<le> Revision_MAX"
  shows "for_each (load_boot s) (enumerate 0 (cns_boots s)) ({||}, []) = Inr r \<longleftrightarrow>
    boots_read s (cns_boots s) \<and> r = boots_built (cns_boots s)"
  by (rule for_each_enumerate [where full = "cns_boots s" and ys = "[]" and R = "boots_read s" and F = boots_built])
     (simp_all add: load_boot_Ok assms boots_read_snoc, simp_all add: boots_read_def boots_built_def)

lemma boot_step_of: "boot_step (boot_of p) (boot_of b) = boot_follows p b"
  by (cases "cbs_ended_at_millis p") (auto simp: boot_step_def boot_follows_def)

lemma boots_read_ok:
  "boots_read s (cns_boots s) \<longleftrightarrow>
     boots_ok (cns_tenant_id s) (cns_connector_id s) (ConnectorGeneration (cns_generation s)) (map boot_of (cns_boots s))"
proof (cases "cns_boots s" rule: rev_cases)
  case (snoc xs x)
  have "indexed (\<lambda>i b. i + 1 < length (cns_boots s) \<longrightarrow> cbs_ended_at_millis b \<noteq> None) (xs @ [x])
      \<longleftrightarrow> (\<forall>b\<in>set xs. cbs_ended_at_millis b \<noteq> None)"
    using snoc by (auto simp: indexed_def nth_append all_set_conv_all_nth)
  moreover have "indexed (boot_read s) (xs @ [x]) \<longleftrightarrow>
      (\<forall>b\<in>set (xs @ [x]). boot_ok (cns_tenant_id s) (cns_connector_id s) (ConnectorGeneration (cns_generation s)) (boot_of b))
      \<and> indexed (\<lambda>i b. i + 1 < length (cns_boots s) \<longrightarrow> cbs_ended_at_millis b \<noteq> None) (xs @ [x])"
    unfolding boot_read_def indexed_def all_set_conv_all_nth by blast
  moreover have "successively boot_step (map boot_of (xs @ [x])) \<longleftrightarrow> successively boot_follows (xs @ [x])"
    by (simp only: successively_map' boot_step_of)
  ultimately show ?thesis using snoc by (auto simp: boots_read_def boots_ok_def comp_def)
qed (simp add: boots_read_def boots_ok_def)

lemma load_boots_Ok:
  assumes "cns_generation s \<le> Revision_MAX"
  shows "load_boots s = Inr bs \<longleftrightarrow>
    boots_ok (cns_tenant_id s) (cns_connector_id s) (ConnectorGeneration (cns_generation s)) (map boot_of (cns_boots s))
    \<and> current_ok (ConnectorGeneration (cns_generation s)) (cns_desired_state s) (map boot_of (cns_boots s)) (cns_current_boot_id s)
    \<and> bs = map boot_of (cns_boots s)"
proof -
  have cur: "current_ok (ConnectorGeneration (cns_generation s)) (cns_desired_state s) (map boot_of (cns_boots s)) (cns_current_boot_id s)
    \<longleftrightarrow> \<not> (cns_current_boot_id s \<noteq> open_boot_id s
          \<or> (open_boot_id s \<noteq> None \<and> (\<not> live_state (cns_desired_state s)
              \<or> is_none_or (last_of (cns_boots s)) (\<lambda>boot. cbs_generation boot \<noteq> cns_generation s))))"
    by (cases "cns_boots s" rule: rev_cases) (auto simp: current_ok_def open_boot_def open_boot_id_def)
  show ?thesis unfolding load_boots_def cur
    by (auto simp: result_simps boots_loop [OF assms] boots_read_ok boots_built_def)
qed


section \<open>Leases\<close>

lemma guard_Inr: "(if g then Inl e else k) = Inr t \<longleftrightarrow> \<not> g \<and> k = Inr t"
  by simp

abbreviation image_lease_ok :: "ConnectorSnapshot \<Rightarrow> nat \<Rightarrow> ConnectorLeaseSnapshot \<Rightarrow> bool" where
  "image_lease_ok s i l \<equiv> lease_ok (cns_tenant_id s) (cns_connector_id s) (ConnectorGeneration (cns_generation s))
     (cns_max_concurrency s) (map boot_of (cns_boots s)) i (lease_of l)"

lemma snapshot_heartbeat_Ok:
  "snapshot_heartbeat l m = Inr h \<longleftrightarrow> heartbeat_ok m (lease_of l) \<and> is_i64 (cls_expires_at_millis l)
     \<and> h = map_option heartbeat_of_image (cls_last_heartbeat l)"
  by (cases "cls_last_heartbeat l"; cases "cls_last_heartbeat_at_millis l")
     (auto simp: snapshot_heartbeat_def heartbeat_ok_def is_none_or_def checked_add_i64_def heartbeat_of_image_def
        word_gt_0 not_less split: if_splits)

lemma lease_boot_iff:
  assumes "distinct (map cbs_boot_id (cns_boots s))"
  shows "lease_boot_ok (map boot_of (cns_boots s)) (lease_of l) \<longleftrightarrow>
    (\<exists>b. lease_boot s l = Some b \<and> cbs_started_at_millis b \<le> cls_issued_at_millis l
       \<and> is_none_or (cbs_ended_at_millis b) (\<lambda>ended. cls_issued_at_millis l \<le> ended))" (is "?l \<longleftrightarrow> ?r")
proof
  assume ?l
  then obtain b where b: "b \<in> set (cns_boots s)" "cbs_boot_id b = cls_boot_id l" "cbs_generation b = cls_generation l"
      "cbs_started_at_millis b \<le> cls_issued_at_millis l"
      "is_none_or (cbs_ended_at_millis b) (\<lambda>ended. cls_issued_at_millis l \<le> ended)"
    by (auto simp: lease_boot_ok_def)
  have "lease_boot s l = Some b" unfolding lease_boot_def by (rule find_unique [OF assms b(1)]) (use b in auto)
  with b show ?r by blast
next
  assume ?r
  then obtain b where b: "lease_boot s l = Some b" "cbs_started_at_millis b \<le> cls_issued_at_millis l"
       "is_none_or (cbs_ended_at_millis b) (\<lambda>ended. cls_issued_at_millis l \<le> ended)" by blast
  then have "b \<in> set (cns_boots s)" "cbs_boot_id b = cls_boot_id l" "cbs_generation b = cls_generation l"
    by (auto simp: lease_boot_def find_Some_iff)
  with b show ?l by (auto simp: lease_boot_ok_def)
qed

definition at_most_one :: "('a \<Rightarrow> bool) \<Rightarrow> 'a list \<Rightarrow> bool" where
  "at_most_one P xs \<longleftrightarrow> length (filter P xs) \<le> 1"

lemma position_snoc:
  "position P (xs @ [x]) = (case position P xs of Some i \<Rightarrow> Some i | None \<Rightarrow> if P x then Some (length xs) else None)"
  by (induction xs) (auto split: option.splits)

lemma position_None: "position P xs = None \<longleftrightarrow> filter P xs = []"
  by (induction xs) auto

lemma at_most_one_snoc: "at_most_one P (xs @ [x]) \<longleftrightarrow> at_most_one P xs \<and> (P x \<longrightarrow> position P xs = None)"
  unfolding at_most_one_def position_None by (cases "filter P xs") auto

abbreviation held :: "ConnectorLeaseSnapshot \<Rightarrow> bool" where
  "held l \<equiv> cls_status l = LeaseActive"

definition leases_read :: "ConnectorSnapshot \<Rightarrow> ConnectorLeaseSnapshot list \<Rightarrow> bool" where
  "leases_read s ls \<longleftrightarrow> indexed (image_lease_ok s) ls \<and> distinct (map cls_lease_id ls)
     \<and> successively (\<lambda>p l. cls_issued_at_millis p \<le> cls_issued_at_millis l) ls \<and> at_most_one held ls"

definition leases_built :: "ConnectorLeaseSnapshot list \<Rightarrow> LeaseId fset \<times> nat option \<times> ConnectorLease list" where
  "leases_built ls = (fset_of_list (map cls_lease_id ls), position held ls, map lease_of ls)"

lemma leases_read_snoc:
  "leases_read s (xs @ [x]) \<longleftrightarrow> leases_read s xs \<and> image_lease_ok s (length xs) x
     \<and> cls_lease_id x \<notin> set (map cls_lease_id xs) \<and> (held x \<longrightarrow> position held xs = None)
     \<and> (xs \<noteq> [] \<longrightarrow> cls_issued_at_millis (last xs) \<le> cls_issued_at_millis x)"
  unfolding leases_read_def successively_last indexed_snoc at_most_one_snoc by auto

lemma leases_built_snoc:
  assumes "held x \<longrightarrow> position held xs = None"
  shows "leases_built (xs @ [x]) = (finsert (cls_lease_id x) (fset_of_list (map cls_lease_id xs)),
    (if held x then Some (length xs) else position held xs), map lease_of xs @ [lease_of x])"
  using assms by (auto simp: leases_built_def position_snoc split: option.splits)

lemma load_lease_Ok:
  assumes "cns_leases s = xs @ x # ys" "cns_generation s \<le> Revision_MAX" "leases_read s xs"
    "distinct (map cbs_boot_id (cns_boots s))"
  shows "load_lease s (length xs, x) (leases_built xs) = Inr r \<longleftrightarrow> leases_read s (xs @ [x]) \<and> r = leases_built (xs @ [x])"
proof -
  have p: "xs \<noteq> [] \<Longrightarrow> cns_leases s ! (length xs - 1) = last xs" using last_nth assms(1) by metis
  have built: "leases_built xs = (fset_of_list (map cls_lease_id xs), position held xs, map lease_of xs)"
    by (simp add: leases_built_def)
  have gens: "snapshot_generation (cls_generation x) = Inr g \<longleftrightarrow> generation_ok (ConnectorGeneration Revision_MAX) g
      \<and> g = ConnectorGeneration (cls_generation x)" for g
    by (auto simp: snapshot_generation_def generation_ok_def word_gt_0 not_less split: if_splits)
  have epochs: "snapshot_epoch (cls_lease_epoch x) = Inr e \<longleftrightarrow> cls_lease_epoch x \<noteq> 0 \<and> cls_lease_epoch x \<le> Revision_MAX
      \<and> e = LeaseEpoch (cls_lease_epoch x)" for e
    by (auto simp: snapshot_epoch_def not_less split: if_splits)
  have guard: "\<not> (cls_tenant_id x \<noteq> cns_tenant_id s \<or> cls_connector_id x \<noteq> cns_connector_id s
        \<or> cls_generation x = 0 \<or> cls_generation x > cns_generation s
        \<or> unat (cls_lease_epoch x) \<noteq> length xs + 1
        \<or> \<not> (1 \<le> cls_ttl_millis x \<and> cls_ttl_millis x \<le> MAX_LEASE_TTL_MILLIS)
        \<or> is_none_or (checked_add_i64 (cls_issued_at_millis x) (cls_ttl_millis x))
            (\<lambda>initial. cls_expires_at_millis x < initial)
        \<or> cls_lease_id x |\<in>| fset_of_list (map cls_lease_id xs)
        \<or> lease_boot s x = None
        \<or> is_some_and (lease_boot s x) (\<lambda>boot. cls_issued_at_millis x < cbs_started_at_millis boot)
        \<or> is_some_and (lease_boot s x) (\<lambda>boot. is_some_and (cbs_ended_at_millis boot)
            (\<lambda>ended. cls_issued_at_millis x > ended))
        \<or> (length xs > 0 \<and> cls_issued_at_millis x < cls_issued_at_millis (cns_leases s ! (length xs - 1))))
    \<longleftrightarrow> cls_tenant_id x = cns_tenant_id s \<and> cls_connector_id x = cns_connector_id s
        \<and> generation_ok (ConnectorGeneration (cns_generation s)) (ConnectorGeneration (cls_generation x))
        \<and> unat (cls_lease_epoch x) = length xs + 1
        \<and> 1 \<le> cls_ttl_millis x \<and> cls_ttl_millis x \<le> MAX_LEASE_TTL_MILLIS
        \<and> is_i64 (cls_issued_at_millis x + cls_ttl_millis x)
        \<and> cls_issued_at_millis x + cls_ttl_millis x \<le> cls_expires_at_millis x
        \<and> cls_lease_id x \<notin> set (map cls_lease_id xs)
        \<and> lease_boot_ok (map boot_of (cns_boots s)) (lease_of x)
        \<and> (xs \<noteq> [] \<longrightarrow> cls_issued_at_millis (last xs) \<le> cls_issued_at_millis x)"
  proof -
    have boot: "(lease_boot s x \<noteq> None
          \<and> \<not> is_some_and (lease_boot s x) (\<lambda>boot. cls_issued_at_millis x < cbs_started_at_millis boot)
          \<and> \<not> is_some_and (lease_boot s x) (\<lambda>boot. is_some_and (cbs_ended_at_millis boot)
              (\<lambda>ended. cls_issued_at_millis x > ended))) \<longleftrightarrow> lease_boot_ok (map boot_of (cns_boots s)) (lease_of x)"
      unfolding lease_boot_iff [OF assms(4)]
      by (cases "lease_boot s x") (auto simp: is_some_and_def is_none_or_def not_less split: option.splits)
    have time: "\<not> is_none_or (checked_add_i64 (cls_issued_at_millis x) (cls_ttl_millis x))
            (\<lambda>initial. cls_expires_at_millis x < initial) \<longleftrightarrow> is_i64 (cls_issued_at_millis x + cls_ttl_millis x)
            \<and> cls_issued_at_millis x + cls_ttl_millis x \<le> cls_expires_at_millis x"
      by (auto simp: checked_add_i64_def is_none_or_def not_less)
    have gen: "(cls_generation x \<noteq> 0 \<and> \<not> cls_generation x > cns_generation s) \<longleftrightarrow>
        generation_ok (ConnectorGeneration (cns_generation s)) (ConnectorGeneration (cls_generation x))"
      by (auto simp: generation_ok_def word_gt_0 not_less)
    have follow: "(length xs > 0 \<and> cls_issued_at_millis x < cls_issued_at_millis (cns_leases s ! (length xs - 1)))
        \<longleftrightarrow> \<not> (xs \<noteq> [] \<longrightarrow> cls_issued_at_millis (last xs) \<le> cls_issued_at_millis x)"
      using p by auto
    show ?thesis unfolding boot [symmetric] gen [symmetric] follow fset_of_list_elem
      by (simp only: de_Morgan_disj not_not time conj_assoc)
  qed
  have "load_lease s (length xs, x) (leases_built xs) = Inr r \<longleftrightarrow> image_lease_ok s (length xs) x
     \<and> cls_lease_id x \<notin> set (map cls_lease_id xs) \<and> (held x \<longrightarrow> position held xs = None)
     \<and> (xs \<noteq> [] \<longrightarrow> cls_issued_at_millis (last xs) \<le> cls_issued_at_millis x)
     \<and> r = (finsert (cls_lease_id x) (fset_of_list (map cls_lease_id xs)),
         (if held x then Some (length xs) else position held xs), map lease_of xs @ [lease_of x])"
    unfolding load_lease_def built prod.case guard_Inr guard
    by (auto simp: result_simps gens epochs snapshot_heartbeat_Ok lease_ok_def lease_of_def [symmetric] generation_ok_def
        intro: order_trans [OF _ assms(2)])
  then show ?thesis using assms(3) leases_built_snoc [of x xs] by (auto simp: leases_read_snoc)
qed


lemma leases_loop:
  assumes "cns_generation s \<le> Revision_MAX" "distinct (map cbs_boot_id (cns_boots s))"
  shows "for_each (load_lease s) (enumerate 0 (cns_leases s)) ({||}, None, []) = Inr r \<longleftrightarrow>
    leases_read s (cns_leases s) \<and> r = leases_built (cns_leases s)"
  by (rule for_each_enumerate [where full = "cns_leases s" and ys = "[]" and R = "leases_read s" and F = leases_built])
     (simp_all add: load_lease_Ok assms leases_read_snoc, simp_all add: leases_read_def leases_built_def at_most_one_def)

lemma leases_read_ok:
  "leases_read s ls \<longleftrightarrow>
     leases_ok (cns_tenant_id s) (cns_connector_id s) (ConnectorGeneration (cns_generation s)) (cns_max_concurrency s)
       (map boot_of (cns_boots s)) (map lease_of ls) \<and> at_most_one held ls"
proof -
  have "map lease_id_of (map lease_of ls) = map cls_lease_id ls" by (simp add: lease_id_of_def)
  moreover have "successively issue_step (map lease_of ls)
      \<longleftrightarrow> successively (\<lambda>p l. cls_issued_at_millis p \<le> cls_issued_at_millis l) ls"
    by (simp add: successively_map' issue_step_def)
  ultimately show ?thesis unfolding leases_read_def leases_ok_def indexed_map by (simp only: conj_assoc)
qed

lemma active_position:
  assumes "active_ok g cur i (map lease_of ls)"
  shows "at_most_one held ls" "position held ls = i"
proof -
  have "at_most_one held ls \<and> position held ls = i"
  proof (cases i)
    case None
    then have "filter held ls = []" using assms by (simp add: active_ok_def filter_empty_conv)
    then show ?thesis using None position_None [of held ls] by (simp add: at_most_one_def)
  next
    case (Some k)
    then obtain xs x where x: "ls = xs @ [x]" "held x" "filter held xs = []" "k = length xs"
      using assms by (cases ls rule: rev_cases) (auto simp: active_ok_def filter_empty_conv)
    then show ?thesis using Some position_None [of held xs] by (simp add: at_most_one_def position_snoc)
  qed
  then show "at_most_one held ls" "position held ls = i" by simp_all
qed

lemma active_read:
  assumes "leases_read s (cns_leases s)"
  shows "check_active s (position held (cns_leases s)) = Inr u \<longleftrightarrow>
    active_ok (ConnectorGeneration (cns_generation s)) (cns_current_boot_id s) (cns_active_lease_index s) (map lease_of (cns_leases s))
    \<and> epoch_ok (map_option LeaseEpoch (cns_highest_lease_epoch s)) (map lease_of (cns_leases s))"
proof (cases "cns_leases s" rule: rev_cases)
  case Nil
  then show ?thesis
    by (cases "cns_active_lease_index s"; cases "cns_highest_lease_epoch s") (auto simp: check_active_def active_ok_def epoch_ok_def)
next
  case (snoc xs x)
  have x: "held x \<longrightarrow> position held xs = None" "unat (cls_lease_epoch x) = length xs + 1"
    using assms snoc by (auto simp: leases_read_snoc lease_ok_def)
  have epoch: "epoch_ok (map_option LeaseEpoch (cns_highest_lease_epoch s)) (map lease_of (xs @ [x]))
      \<longleftrightarrow> map_option unat (cns_highest_lease_epoch s) = Some (length xs + 1)"
    using x(2) by (cases "cns_highest_lease_epoch s") (auto simp: epoch_ok_def word_unat_eq_iff)
  show ?thesis
  proof (cases "position held xs")
    case None
    then have none: "\<forall>l\<in>set xs. \<not> held l" by (simp add: position_None filter_empty_conv)
    show ?thesis unfolding check_active_def guard_Inr snoc epoch using None none
      by (cases "held x"; cases "cns_active_lease_index s") (auto simp: position_snoc active_ok_def Let_def nth_append)
  next
    case (Some j)
    then have "\<not> held x" "j < length xs" "held (xs ! j)" using x(1) position_Some [OF Some] by auto
    moreover from this have "\<exists>l\<in>set xs. held l" by auto
    ultimately show ?thesis unfolding check_active_def guard_Inr snoc using Some
      by (cases "cns_active_lease_index s") (auto simp: position_snoc active_ok_def Let_def)
  qed
qed

lemma load_leases_Ok:
  assumes "cns_generation s \<le> Revision_MAX" "distinct (map cbs_boot_id (cns_boots s))"
  shows "load_leases s = Inr (act, ls) \<longleftrightarrow>
    leases_ok (cns_tenant_id s) (cns_connector_id s) (ConnectorGeneration (cns_generation s)) (cns_max_concurrency s)
       (map boot_of (cns_boots s)) (map lease_of (cns_leases s))
    \<and> active_ok (ConnectorGeneration (cns_generation s)) (cns_current_boot_id s) (cns_active_lease_index s) (map lease_of (cns_leases s))
    \<and> epoch_ok (map_option LeaseEpoch (cns_highest_lease_epoch s)) (map lease_of (cns_leases s))
    \<and> act = cns_active_lease_index s \<and> ls = map lease_of (cns_leases s)" (is "_ \<longleftrightarrow> ?L \<and> ?A \<and> ?E \<and> _")
proof -
  have "load_leases s = Inr (act, ls) \<longleftrightarrow> leases_read s (cns_leases s)
      \<and> (\<exists>u. check_active s (position held (cns_leases s)) = Inr u)
      \<and> act = position held (cns_leases s) \<and> ls = map lease_of (cns_leases s)"
    by (auto simp: load_leases_def result_simps leases_loop [OF assms] leases_built_def)
  also have "\<dots> \<longleftrightarrow> leases_read s (cns_leases s) \<and> ?A \<and> ?E
      \<and> act = position held (cns_leases s) \<and> ls = map lease_of (cns_leases s)"
    using active_read by blast
  also have "\<dots> \<longleftrightarrow> ?L \<and> ?A \<and> ?E \<and> act = cns_active_lease_index s \<and> ls = map lease_of (cns_leases s)"
    unfolding leases_read_ok using active_position by auto
  finally show ?thesis .
qed

section \<open>Terminal states and time\<close>

lemma check_terminal_Ok:
  "check_terminal s act = Inr u \<longleftrightarrow> terminal_ok (cns_desired_state s) (cns_observed_state s) (cns_current_boot_id s) act"
  by (auto simp: check_terminal_def terminal_ok_def split: if_splits)

lemma check_high_water_Ok:
  "check_high_water s = Inr u \<longleftrightarrow>
     times_ok (cns_server_time_high_water_millis s) (map boot_of (cns_boots s)) (map lease_of (cns_leases s))"
proof -
  let ?h = "cns_server_time_high_water_millis s"
  have seen: "\<not> is_none_or ?h (\<lambda>high. t > high) \<longleftrightarrow> seen_by ?h t" for t
    by (cases ?h) (auto simp: seen_by_def)
  have seen': "\<not> is_none_or ?h (\<lambda>high. high < t) \<longleftrightarrow> seen_by ?h t" for t
    by (cases ?h) (auto simp: seen_by_def)
  have "(\<forall>t\<in>set (image_times s). seen_by ?h t) \<longleftrightarrow> (\<forall>b\<in>set (cns_boots s). boot_seen ?h (boot_of b))
      \<and> (\<forall>l\<in>set (cns_leases s). seen_by ?h (cls_issued_at_millis l))
      \<and> (\<forall>l\<in>set (cns_leases s). is_none_or (cls_last_heartbeat_at_millis l) (seen_by ?h))"
  proof -
    have b: "(\<forall>t\<in>set (cbs_started_at_millis b # (case cbs_ended_at_millis b of Some e \<Rightarrow> [e] | None \<Rightarrow> [])). seen_by ?h t)
        \<longleftrightarrow> boot_seen ?h (boot_of b)" for b
      by (cases "cbs_ended_at_millis b") (auto simp: boot_seen_def)
    have f: "(\<forall>t\<in>set (List.map_filter g ls). P t) \<longleftrightarrow> (\<forall>l\<in>set ls. is_none_or (g l) P)" for g ls and P :: "int \<Rightarrow> bool"
      by (induction ls) (auto simp: map_filter_simps split: option.splits)
    show ?thesis using b by (simp add: image_times_def f ball_Un)
  qed
  then show ?thesis
    unfolding check_high_water_def Let_def guard_Inr list_ex_iff times_ok_def lease_seen_def
    using seen seen' by auto
qed


section \<open>The validator\<close>

lemma transpose_epoch_Ok:
  "transpose_epoch v = Inr e \<longleftrightarrow> is_none_or v (\<lambda>n. n \<noteq> 0 \<and> n \<le> Revision_MAX) \<and> e = map_option LeaseEpoch v"
  by (cases v) (auto simp: transpose_epoch_def snapshot_epoch_def result_simps not_less split: if_splits)

lemma epoch_in_range:
  assumes "leases_ok t k g m bs ls" "epoch_ok (map_option LeaseEpoch v) ls"
  shows "is_none_or v (\<lambda>n. n \<noteq> 0 \<and> n \<le> Revision_MAX)"
proof (cases ls rule: rev_cases)
  case (snoc xs x)
  then have "unat (epoch_get (cf_lease_epoch (cl_fence x))) = length xs + 1"
      "epoch_get (cf_lease_epoch (cl_fence x)) \<le> Revision_MAX" "map_option LeaseEpoch v = Some (cf_lease_epoch (cl_fence x))"
    using assms by (auto simp: leases_ok_def lease_ok_def epoch_ok_def)
  then show ?thesis by (cases v; cases "cf_lease_epoch (cl_fence x)") auto
qed (use assms in \<open>auto simp: epoch_ok_def\<close>)

lemma connector_from_snapshot_Ok:
  assumes "valid_revision (cns_spec_revision s)"
  shows "connector_from_snapshot s = Inr c \<longleftrightarrow> connector_inv (connector_of_image s) \<and> c = connector_of_image s"
proof (cases "cns_generation s \<noteq> 0 \<and> cns_generation s \<le> Revision_MAX")
  case False
  then show ?thesis
    by (auto simp: connector_from_snapshot_def snapshot_generation_def connector_inv_def connector_of_image_def
        generation_ok_def word_gt_0 not_less)
next
  case True
  then have g: "cns_generation s \<le> Revision_MAX" "generation_ok (ConnectorGeneration Revision_MAX) (ConnectorGeneration (cns_generation s))"
      "snapshot_generation (cns_generation s) = Inr (ConnectorGeneration (cns_generation s))"
    by (auto simp: generation_ok_def word_gt_0 snapshot_generation_def not_less)
  have d: "distinct (map cbs_boot_id (cns_boots s))"
    if "boots_ok (cns_tenant_id s) (cns_connector_id s) (ConnectorGeneration (cns_generation s)) (map boot_of (cns_boots s))"
    using that by (simp add: boots_ok_def comp_def)
  let ?c = "connector_of_image s"
  have "connector_from_snapshot s = Inr c \<longleftrightarrow> cns_max_concurrency s \<noteq> 0 \<and> revisions_ok ?c \<and> histories_ok ?c
      \<and> terminal_ok (cns_desired_state s) (cns_observed_state s) (cns_current_boot_id s) (cns_active_lease_index s)
      \<and> is_none_or (cns_highest_lease_epoch s) (\<lambda>n. n \<noteq> 0 \<and> n \<le> Revision_MAX) \<and> c = ?c"
  proof (cases "boots_ok (cns_tenant_id s) (cns_connector_id s) (ConnectorGeneration (cns_generation s)) (map boot_of (cns_boots s))")
    case True
    note leases = load_leases_Ok [OF g(1) d [OF True]]
    show ?thesis
      unfolding connector_from_snapshot_def g(3) res_bind_Inr guard_Inr
      by (auto simp: res_bind_Ok_iff load_revisions_Ok [OF g(1)] load_boots_Ok [OF g(1)] check_terminal_Ok check_high_water_Ok
          transpose_epoch_Ok leases True histories_ok_def connector_of_image_def)
  next
    case False
    then show ?thesis
      unfolding connector_from_snapshot_def g(3) res_bind_Inr guard_Inr
      by (simp add: res_bind_Ok_iff load_boots_Ok [OF g(1)] histories_ok_def connector_of_image_def)
  qed
  also have "\<dots> \<longleftrightarrow> connector_inv ?c \<and> c = ?c"
    using g(2) assms epoch_in_range
    by (auto simp: connector_inv_def histories_ok_def connector_of_image_def)
  finally show ?thesis .
qed

text \<open>C38. Rehydration of a connector is exact: a stored image is accepted if and only if it is the image
  of a connector that satisfies the invariant of the operations, and it loads as that connector. So
  every connector the operations produce can be loaded by the next process, unchanged, and a loaded
  connector is as good as one that never left memory.\<close>
theorem connector_rehydrates:
  assumes "valid_revision (cns_spec_revision s)"
  shows "connector_from_snapshot s = Inr c \<longleftrightarrow> connector_inv c \<and> s = connector_snapshot c"
  using connector_from_snapshot_Ok [OF assms, of c] connector_images by metis

theorem connector_rehydrates_witness: "connector_from_snapshot (connector_snapshot demo_leased) = Inr demo_leased"
proof -
  have "valid_revision (cns_spec_revision (connector_snapshot demo_leased))"
    using demo_leased_inv by (simp add: connector_inv_def connector_snapshot_def)
  from connector_rehydrates [OF this] show ?thesis using demo_leased_inv by simp
qed

end
