(* ===== verification/Connector_Head.thy ===== *)
theory Connector_Head
  imports Connector_Snapshot
begin

text \<open>
  The constant-size projections of a connector that the online paths use instead of the aggregate:
  \<open>ConnectorControlHead\<close> for control mutations and \<open>ConnectorHeartbeatHead\<close> for heartbeats.
\<close>

section \<open>Data\<close>

record ConnectorControlHead =
  ch_tenant_id :: TenantId
  ch_connector_id :: ConnectorId
  ch_host_id :: HostId
  ch_adapter_kind :: AdapterKind
  ch_generation :: u64
  ch_desired_state :: ConnectorDesiredState
  ch_observed_state :: ConnectorObservedState
  ch_max_concurrency :: u32
  ch_spec_revision :: Revision
  ch_latest_revision :: ConnectorRevisionSnapshot
  ch_current_boot :: "ConnectorBootSnapshot option"
  ch_active_lease :: "ConnectorLeaseSnapshot option"
  ch_highest_lease_epoch :: "u64 option"
  ch_server_time_high_water_millis :: "int option"

record ConnectorHeartbeatHeadSnapshot =
  hhs_tenant_id :: TenantId
  hhs_connector_id :: ConnectorId
  hhs_generation :: u64
  hhs_adapter_kind :: AdapterKind
  hhs_spec_revision :: Revision
  hhs_desired_state :: ConnectorDesiredState
  hhs_observed_state :: ConnectorObservedState
  hhs_max_concurrency :: u32
  hhs_current_boot_id :: BootId
  hhs_highest_lease_epoch :: u64
  hhs_server_time_high_water_millis :: "int option"
  hhs_active_lease :: ConnectorLeaseSnapshot

record ConnectorHeartbeatHead =
  hh_tenant_id :: TenantId
  hh_connector_id :: ConnectorId
  hh_generation :: ConnectorGeneration
  hh_adapter_kind :: AdapterKind
  hh_spec_revision :: Revision
  hh_desired_state :: ConnectorDesiredState
  hh_observed_state :: ConnectorObservedState
  hh_max_concurrency :: u32
  hh_current_boot_id :: BootId
  hh_highest_lease_epoch :: LeaseEpoch
  hh_server_time_high_water_millis :: "int option"
  hh_active_lease :: ConnectorLease

type_synonym 'a head_op = "ConnectorControlHead \<Rightarrow> (ConnectorError + 'a) \<times> ConnectorControlHead"

section \<open>The heartbeat head\<close>

definition heartbeat_head_from_snapshot ::
  "ConnectorHeartbeatHeadSnapshot \<Rightarrow> ConnectorSnapshotError + ConnectorHeartbeatHead" where
  "heartbeat_head_from_snapshot s =
     res_bind (snapshot_generation (hhs_generation s)) (\<lambda>generation.
     res_bind (snapshot_epoch (hhs_highest_lease_epoch s)) (\<lambda>highest.
       let lease = hhs_active_lease s in
       if hhs_max_concurrency s = 0 then Inl SnapshotInvalidCapacity
       else if \<not> live_state (hhs_desired_state s) \<or> cls_status lease \<noteq> LeaseActive
           \<or> cls_tenant_id lease \<noteq> hhs_tenant_id s \<or> cls_connector_id lease \<noteq> hhs_connector_id s
           \<or> cls_generation lease \<noteq> hhs_generation s \<or> cls_boot_id lease \<noteq> hhs_current_boot_id s
           \<or> cls_lease_epoch lease \<noteq> hhs_highest_lease_epoch s
           \<or> \<not> (1 \<le> cls_ttl_millis lease \<and> cls_ttl_millis lease \<le> MAX_LEASE_TTL_MILLIS) then
         Inl InvalidActiveLease
       else res_bind (snapshot_heartbeat lease (hhs_max_concurrency s)) (\<lambda>last_heartbeat.
         if \<not> (hhs_desired_state s = Draining \<and> hhs_observed_state s = ObservedDraining)
            \<and> (is_some_and last_heartbeat (\<lambda>heartbeat. hb_state heartbeat \<noteq> hhs_observed_state s)
               \<or> (last_heartbeat = None \<and> hhs_observed_state s \<noteq> ObservedStarting)) then
           Inl InvalidHeartbeat
         else if is_none_or (hhs_server_time_high_water_millis s) (\<lambda>high_water.
              high_water < cls_issued_at_millis lease
              \<or> is_some_and (cls_last_heartbeat_at_millis lease) (\<lambda>observed_at. high_water < observed_at)) then
           Inl InvalidServerTimeHighWater
         else Inr \<lparr> hh_tenant_id = hhs_tenant_id s, hh_connector_id = hhs_connector_id s,
           hh_generation = generation, hh_adapter_kind = hhs_adapter_kind s,
           hh_spec_revision = hhs_spec_revision s, hh_desired_state = hhs_desired_state s,
           hh_observed_state = hhs_observed_state s, hh_max_concurrency = hhs_max_concurrency s,
           hh_current_boot_id = hhs_current_boot_id s, hh_highest_lease_epoch = highest,
           hh_server_time_high_water_millis = hhs_server_time_high_water_millis s,
           hh_active_lease = lease_of_image generation highest last_heartbeat lease \<rparr>)))"

definition heartbeat_head_snapshot :: "ConnectorHeartbeatHead \<Rightarrow> ConnectorHeartbeatHeadSnapshot" where
  "heartbeat_head_snapshot self =
     \<lparr> hhs_tenant_id = hh_tenant_id self, hhs_connector_id = hh_connector_id self,
       hhs_generation = gen_get (hh_generation self), hhs_adapter_kind = hh_adapter_kind self,
       hhs_spec_revision = hh_spec_revision self, hhs_desired_state = hh_desired_state self,
       hhs_observed_state = hh_observed_state self, hhs_max_concurrency = hh_max_concurrency self,
       hhs_current_boot_id = hh_current_boot_id self,
       hhs_highest_lease_epoch = epoch_get (hh_highest_lease_epoch self),
       hhs_server_time_high_water_millis = hh_server_time_high_water_millis self,
       hhs_active_lease = lease_image (hh_active_lease self) \<rparr>"

definition heartbeat_head_coordinates :: "ConnectorHeartbeatHead \<Rightarrow> ConnectorFence \<Rightarrow> ConnectorError + unit" where
  "heartbeat_head_coordinates self fence =
     (if cf_tenant_id fence \<noteq> hh_tenant_id self then Inl WrongTenant
      else if cf_connector_id fence \<noteq> hh_connector_id self then Inl WrongConnector
      else if cf_generation fence \<noteq> hh_generation self \<or> cf_boot_id fence \<noteq> hh_current_boot_id self
          \<or> fence \<noteq> cl_fence (hh_active_lease self) then Inl StaleLease
      else Inr ())"

definition heartbeat_head_validate_fence :: "ConnectorHeartbeatHead \<Rightarrow> ConnectorFence \<Rightarrow> int \<Rightarrow> ConnectorError + unit" where
  "heartbeat_head_validate_fence self fence now =
     res_bind (heartbeat_head_coordinates self fence) (\<lambda>_.
       if now \<ge> cl_expires_at_millis (hh_active_lease self) then Inl LeaseExpired else Inr ())"

definition heartbeat_head_record_heartbeat ::
  "ConnectorFence \<Rightarrow> u64 \<Rightarrow> int \<Rightarrow> ConnectorObservedState \<Rightarrow> u32 \<Rightarrow> int \<Rightarrow> ConnectorHeartbeatHead
    \<Rightarrow> (ConnectorError + HeartbeatAck) \<times> ConnectorHeartbeatHead" where
  "heartbeat_head_record_heartbeat fence sequence observed_at state capacity minimum_interval self =
     try_in self (heartbeat_head_coordinates self fence) (\<lambda>_.
     try_in self (evaluate_heartbeat (hh_active_lease self) sequence observed_at state capacity
         (hh_max_concurrency self) minimum_interval (hh_server_time_high_water_millis self)) (\<lambda>disposition.
       case disposition of
         Replay ack \<Rightarrow> (Inr ack, self)
       | Advance ack \<Rightarrow> (Inr ack, self\<lparr>
           hh_active_lease := heartbeat_lease sequence observed_at state capacity ack (hh_active_lease self),
           hh_observed_state := state, hh_server_time_high_water_millis := Some observed_at \<rparr>)))"

section \<open>The control head\<close>

definition check_head_lease :: "ConnectorControlHead \<Rightarrow> ConnectorLeaseSnapshot \<Rightarrow> ConnectorSnapshotError + unit" where
  "check_head_lease s lease =
     res_bind (ok_or InvalidActiveLease (ch_highest_lease_epoch s)) (\<lambda>highest.
     res_bind (snapshot_epoch highest) (\<lambda>_.
       if cls_tenant_id lease \<noteq> ch_tenant_id s \<or> cls_connector_id lease \<noteq> ch_connector_id s
          \<or> cls_generation lease \<noteq> ch_generation s \<or> cls_status lease \<noteq> LeaseActive
          \<or> cls_lease_epoch lease \<noteq> highest
          \<or> map_option cbs_boot_id (ch_current_boot s) \<noteq> Some (cls_boot_id lease)
          \<or> \<not> (1 \<le> cls_ttl_millis lease \<and> cls_ttl_millis lease \<le> MAX_LEASE_TTL_MILLIS) then
         Inl InvalidActiveLease
       else map_ok (\<lambda>_. ()) (snapshot_heartbeat lease (ch_max_concurrency s))))"

definition control_head_from_snapshot :: "ConnectorControlHead \<Rightarrow> ConnectorSnapshotError + ConnectorControlHead" where
  "control_head_from_snapshot s =
     res_bind (snapshot_generation (ch_generation s)) (\<lambda>_.
       if ch_max_concurrency s = 0 then Inl SnapshotInvalidCapacity
       else let revision = ch_latest_revision s in
       if crs_tenant_id revision \<noteq> ch_tenant_id s \<or> crs_connector_id revision \<noteq> ch_connector_id s
          \<or> crs_revision revision \<noteq> ch_spec_revision s \<or> crs_generation revision \<noteq> ch_generation s
          \<or> crs_adapter_kind revision \<noteq> ch_adapter_kind s \<or> crs_desired_state revision \<noteq> ch_desired_state s
          \<or> crs_max_concurrency revision \<noteq> ch_max_concurrency s then Inl InvalidRevisionHistory
       else if is_some_and (ch_current_boot s) (\<lambda>boot. cbs_tenant_id boot \<noteq> ch_tenant_id s
            \<or> cbs_connector_id boot \<noteq> ch_connector_id s \<or> cbs_generation boot \<noteq> ch_generation s
            \<or> cbs_ended_at_millis boot \<noteq> None) then Inl InvalidCurrentBoot
       else res_bind (case ch_active_lease s of Some lease \<Rightarrow> check_head_lease s lease | None \<Rightarrow> Inr ()) (\<lambda>_.
         if is_some_and (ch_highest_lease_epoch s) (\<lambda>epoch. \<not> is_ok (snapshot_epoch epoch)) then
           Inl InvalidActiveLease
         else if \<not> live_state (ch_desired_state s) \<and> (ch_current_boot s \<noteq> None \<or> ch_active_lease s \<noteq> None) then
           Inl InvalidTerminalState
         else if (ch_desired_state s = Revoked \<and> ch_observed_state s \<noteq> ObservedRevoked)
             \<or> (ch_desired_state s = Stopped \<and> ch_observed_state s \<noteq> ObservedOffline) then
           Inl InvalidTerminalState
         else if ch_active_lease s \<noteq> None \<and> ch_current_boot s = None then Inl InvalidActiveLease
         else let high_water = ch_server_time_high_water_millis s in
         if is_some_and (ch_current_boot s) (\<lambda>boot. is_none_or high_water (\<lambda>high. cbs_started_at_millis boot > high))
            \<or> is_some_and (ch_active_lease s) (\<lambda>lease. is_none_or high_water (\<lambda>high.
                cls_issued_at_millis lease > high
                \<or> is_some_and (cls_last_heartbeat_at_millis lease) (\<lambda>observed. observed > high))) then
           Inl InvalidServerTimeHighWater
         else Inr s))"

definition head_current_boot_id :: "ConnectorControlHead \<Rightarrow> BootId option" where
  "head_current_boot_id self = map_option cbs_boot_id (ch_current_boot self)"

definition heartbeat_head :: "ConnectorControlHead \<Rightarrow> ConnectorSnapshotError + ConnectorHeartbeatHead" where
  "heartbeat_head self =
     res_bind (ok_or InvalidCurrentBoot (head_current_boot_id self)) (\<lambda>current_boot_id.
     res_bind (ok_or InvalidActiveLease (ch_active_lease self)) (\<lambda>active_lease.
     res_bind (ok_or InvalidActiveLease (ch_highest_lease_epoch self)) (\<lambda>highest.
       heartbeat_head_from_snapshot
         \<lparr> hhs_tenant_id = ch_tenant_id self, hhs_connector_id = ch_connector_id self,
           hhs_generation = ch_generation self, hhs_adapter_kind = ch_adapter_kind self,
           hhs_spec_revision = ch_spec_revision self, hhs_desired_state = ch_desired_state self,
           hhs_observed_state = ch_observed_state self, hhs_max_concurrency = ch_max_concurrency self,
           hhs_current_boot_id = current_boot_id, hhs_highest_lease_epoch = highest,
           hhs_server_time_high_water_millis = ch_server_time_high_water_millis self,
           hhs_active_lease = active_lease \<rparr>)))"

definition head_active_fence :: "ConnectorControlHead \<Rightarrow> ConnectorFence option" where
  "head_active_fence self = (case heartbeat_head self of
     Inr h \<Rightarrow> Some (cl_fence (hh_active_lease h)) | Inl _ \<Rightarrow> None)"

definition head_active_lease :: "ConnectorControlHead \<Rightarrow> ConnectorLease option" where
  "head_active_lease self = (case heartbeat_head self of Inr h \<Rightarrow> Some (hh_active_lease h) | Inl _ \<Rightarrow> None)"

definition head_validate_fence :: "ConnectorControlHead \<Rightarrow> ConnectorFence \<Rightarrow> int \<Rightarrow> ConnectorError + unit" where
  "head_validate_fence self fence now =
     res_bind (map_err (\<lambda>_. StaleLease) (heartbeat_head self)) (\<lambda>h. heartbeat_head_validate_fence h fence now)"

definition head_ensure_time :: "ConnectorControlHead \<Rightarrow> int \<Rightarrow> ConnectorError + unit" where
  "head_ensure_time self candidate =
     (if is_some_and (ch_server_time_high_water_millis self) (\<lambda>high_water. candidate < high_water)
      then Inl ServerTimeRegressed else Inr ())"

definition head_advance_time :: "int \<Rightarrow> ConnectorControlHead \<Rightarrow> ConnectorControlHead" where
  "head_advance_time candidate self =
     self\<lparr> ch_server_time_high_water_millis :=
       advanced_high_water (ch_server_time_high_water_millis self) candidate \<rparr>"

definition refresh_latest_revision :: "ConnectorControlHead \<Rightarrow> ConnectorControlHead" where
  "refresh_latest_revision self =
     self\<lparr> ch_latest_revision := \<lparr> crs_tenant_id = ch_tenant_id self,
       crs_connector_id = ch_connector_id self, crs_revision = ch_spec_revision self,
       crs_generation = ch_generation self, crs_adapter_kind = ch_adapter_kind self,
       crs_desired_state = ch_desired_state self, crs_max_concurrency = ch_max_concurrency self \<rparr> \<rparr>"

definition head_begin_boot :: "BootId \<Rightarrow> int \<Rightarrow> unit head_op" where
  "head_begin_boot boot_id started_at self =
     (if ch_desired_state self = Revoked then (Inl ConnectorRevoked, self)
      else if ch_desired_state self = Stopped then (Inl ConnectorNotRunning, self)
      else let fresh = try_in self (head_ensure_time self started_at) (\<lambda>_.
             (Inr (), head_advance_time started_at (self\<lparr>
                ch_current_boot := Some \<lparr> cbs_tenant_id = ch_tenant_id self,
                  cbs_connector_id = ch_connector_id self, cbs_boot_id = boot_id,
                  cbs_generation = ch_generation self, cbs_started_at_millis = started_at,
                  cbs_ended_at_millis = None \<rparr>,
                ch_active_lease := None, ch_observed_state := ObservedStarting \<rparr>)))
      in case ch_current_boot self of
           Some boot \<Rightarrow>
             if cbs_boot_id boot = boot_id then
               (if cbs_started_at_millis boot = started_at then (Inr (), self) else (Inl BootConflict, self))
             else if started_at < cbs_started_at_millis boot then (Inl BootTimeRegressed, self)
             else fresh
         | None \<Rightarrow> fresh)"

definition head_new_lease :: "LeaseId \<Rightarrow> BootId \<Rightarrow> int \<Rightarrow> int \<Rightarrow> int \<Rightarrow> ConnectorFence head_op" where
  "head_new_lease lease_id boot_id issued_at expires_at ttl self =
     try_in self (head_ensure_time self issued_at) (\<lambda>_.
     try_in self (res_bind (map_err (\<lambda>_. ConnectorCounterExhausted) (transpose_epoch (ch_highest_lease_epoch self)))
         epoch_checked_next) (\<lambda>lease_epoch.
     try_in self (map_err (\<lambda>_. ConnectorCounterExhausted) (snapshot_generation (ch_generation self))) (\<lambda>generation.
       (Inr \<lparr> cf_tenant_id = ch_tenant_id self, cf_connector_id = ch_connector_id self,
          cf_generation = generation, cf_boot_id = boot_id, cf_lease_id = lease_id,
          cf_lease_epoch = lease_epoch \<rparr>,
        head_advance_time issued_at (self\<lparr> ch_highest_lease_epoch := Some (epoch_get lease_epoch),
          ch_active_lease := Some \<lparr> cls_tenant_id = ch_tenant_id self,
            cls_connector_id = ch_connector_id self, cls_generation = ch_generation self,
            cls_boot_id = boot_id, cls_lease_id = lease_id, cls_lease_epoch = epoch_get lease_epoch,
            cls_issued_at_millis = issued_at, cls_expires_at_millis = expires_at,
            cls_ttl_millis = ttl, cls_status = LeaseActive, cls_last_heartbeat = None,
            cls_last_heartbeat_at_millis = None \<rparr>,
          ch_observed_state := ObservedStarting \<rparr>)))))"

definition head_issue_lease :: "LeaseId \<Rightarrow> BootId \<Rightarrow> int \<Rightarrow> int \<Rightarrow> ConnectorFence head_op" where
  "head_issue_lease lease_id boot_id issued_at expires_at self =
     (if ch_desired_state self = Revoked then (Inl ConnectorRevoked, self)
      else if ch_desired_state self = Stopped then (Inl ConnectorNotRunning, self)
      else if head_current_boot_id self \<noteq> Some boot_id then (Inl StaleBoot, self)
      else if expires_at \<le> issued_at then (Inl InvalidLeaseWindow, self)
      else try_in self (ok_or InvalidLeaseWindow (checked_sub_i64 expires_at issued_at)) (\<lambda>ttl.
        if ttl > MAX_LEASE_TTL_MILLIS then (Inl InvalidLeaseWindow, self)
        else case ch_active_lease self of
          Some held \<Rightarrow>
            if cls_lease_id held = lease_id then
              (if cls_boot_id held = boot_id \<and> cls_issued_at_millis held = issued_at
                  \<and> cls_ttl_millis held = ttl
               then (ok_or StaleLease (head_active_fence self), self) else (Inl LeaseConflict, self))
            else head_new_lease lease_id boot_id issued_at expires_at ttl self
        | None \<Rightarrow> head_new_lease lease_id boot_id issued_at expires_at ttl self))"

definition head_advance_generation :: "Revision \<Rightarrow> int \<Rightarrow> u64 head_op" where
  "head_advance_generation expected_revision changed_at self =
     (if ch_spec_revision self \<noteq> expected_revision then (Inl ConnectorRevisionConflict, self)
      else if ch_desired_state self = Revoked then (Inl ConnectorRevoked, self)
      else try_in self (head_ensure_time self changed_at) (\<lambda>_.
        if is_some_and (ch_current_boot self) (\<lambda>boot. changed_at < cbs_started_at_millis boot) then
          (Inl BootTimeRegressed, self)
        else try_in self (ok_or ConnectorCounterExhausted
            (case checked_add (ch_generation self) 1 of
               Some v \<Rightarrow> if v \<le> Revision_MAX then Some v else None | None \<Rightarrow> None)) (\<lambda>generation.
          try_in self (map_err (\<lambda>_. ConnectorCounterExhausted) (checked_next (ch_spec_revision self))) (\<lambda>revision.
            (Inr generation, refresh_latest_revision (head_advance_time changed_at (self\<lparr>
               ch_generation := generation, ch_spec_revision := revision, ch_current_boot := None,
               ch_active_lease := None, ch_observed_state := ObservedOffline \<rparr>)))))))"

definition head_revise_live_configuration :: "Revision \<Rightarrow> ConnectorDesiredState \<Rightarrow> int \<Rightarrow> Revision head_op" where
  "head_revise_live_configuration expected_revision desired_state changed_at self =
     (if ch_spec_revision self \<noteq> expected_revision then (Inl ConnectorRevisionConflict, self)
      else if ch_desired_state self = Revoked then (Inl ConnectorRevoked, self)
      else if \<not> (desired_state = Running \<or> desired_state = Draining)
          \<or> (ch_desired_state self \<noteq> desired_state
             \<and> \<not> valid_desired_transition (ch_desired_state self) desired_state) then
        (Inl InvalidDesiredTransition, self)
      else try_in self (head_ensure_time self changed_at) (\<lambda>_.
        try_in self (map_err (\<lambda>_. ConnectorCounterExhausted) (checked_next (ch_spec_revision self))) (\<lambda>revision.
          (Inr revision, refresh_latest_revision (head_advance_time changed_at (self\<lparr>
             ch_spec_revision := revision, ch_desired_state := desired_state,
             ch_observed_state := (if desired_state = Draining then ObservedDraining
               else ch_observed_state self) \<rparr>))))))"

definition head_apply_desired_state :: "ConnectorDesiredState \<Rightarrow> ConnectorControlHead \<Rightarrow> ConnectorControlHead" where
  "head_apply_desired_state desired_state self =
     (case desired_state of
        Draining \<Rightarrow> self\<lparr> ch_observed_state := ObservedDraining \<rparr>
      | Stopped \<Rightarrow> self\<lparr> ch_current_boot := None, ch_active_lease := None, ch_observed_state := ObservedOffline \<rparr>
      | Revoked \<Rightarrow> self\<lparr> ch_current_boot := None, ch_active_lease := None, ch_observed_state := ObservedRevoked \<rparr>
      | Running \<Rightarrow> self)"

definition head_set_desired_state :: "Revision \<Rightarrow> ConnectorDesiredState \<Rightarrow> int \<Rightarrow> Revision head_op" where
  "head_set_desired_state expected_revision desired_state changed_at self =
     (if ch_spec_revision self \<noteq> expected_revision then (Inl ConnectorRevisionConflict, self)
      else if ch_desired_state self = Revoked then (Inl ConnectorRevoked, self)
      else if ch_desired_state self = desired_state then (Inr (ch_spec_revision self), self)
      else if \<not> valid_desired_transition (ch_desired_state self) desired_state then
        (Inl InvalidDesiredTransition, self)
      else try_in self (head_ensure_time self changed_at) (\<lambda>_.
        if (desired_state = Stopped \<or> desired_state = Revoked)
           \<and> is_some_and (ch_current_boot self) (\<lambda>boot. changed_at < cbs_started_at_millis boot) then
          (Inl BootTimeRegressed, self)
        else try_in self (map_err (\<lambda>_. ConnectorCounterExhausted) (checked_next (ch_spec_revision self))) (\<lambda>revision.
          (Inr revision, refresh_latest_revision (head_advance_time changed_at
             (head_apply_desired_state desired_state (self\<lparr> ch_spec_revision := revision,
                ch_desired_state := desired_state \<rparr>)))))))"

end
