(* ===== verification/Connector_Refinement.thy ===== *)
theory Connector_Refinement
  imports Connector_Rehydrate Connector_Head
begin

text \<open>
  The control head against the aggregate it projects: the projection, that a control operation that
  succeeds on the aggregate succeeds on the head with the projected result, and where the two differ.
\<close>

section \<open>The projection\<close>

definition head_of :: "Connector \<Rightarrow> ConnectorControlHead" where
  "head_of c =
     \<lparr> ch_tenant_id = cn_tenant_id c, ch_connector_id = cn_id c, ch_host_id = cn_host_id c,
       ch_adapter_kind = cn_adapter_kind c, ch_generation = gen_get (cn_generation c),
       ch_desired_state = cn_desired_state c, ch_observed_state = cn_observed_state c,
       ch_max_concurrency = cn_max_concurrency c, ch_spec_revision = cn_spec_revision c,
       ch_latest_revision = revision_image (last (cn_revisions c)),
       ch_current_boot = map_option boot_image (open_boot (cn_boots c)),
       ch_active_lease = (if cn_active_lease_index c = None then None
         else map_option lease_image (last_of (cn_leases c))),
       ch_highest_lease_epoch = map_option epoch_get (cn_highest_lease_epoch c),
       ch_server_time_high_water_millis = cn_server_time_high_water_millis c \<rparr>"

lemma head_ensure_time_Ok: "head_ensure_time (head_of c) at = Inr u \<longleftrightarrow> not_regressed (cn_server_time_high_water_millis c) at"
  by (cases "cn_server_time_high_water_millis c") (auto simp: head_ensure_time_def head_of_def not_regressed_def)

lemma head_ensure_time_now: "not_regressed (cn_server_time_high_water_millis c) at \<Longrightarrow> head_ensure_time (head_of c) at = Inr ()"
  by (simp add: head_ensure_time_Ok)

lemma open_boot_started:
  assumes "histories_ok c" "not_regressed (cn_server_time_high_water_millis c) at" "open_boot (cn_boots c) = Some b"
  shows "cb_started_at_millis b \<le> at"
  using histories_facts(6) [OF assms(1)] assms(3) seen_not_after [OF _ assms(2)]
  by (cases "cn_boots c" rule: rev_cases) (auto simp: open_boot_def times_ok_def boot_seen_def split: if_splits)

section \<open>Revisions and desired states\<close>

lemma last_append_revision [simp]:
  "last (cn_revisions (append_current_revision c)) =
     \<lparr> cr_tenant_id = cn_tenant_id c, cr_connector_id = cn_id c, cr_revision = cn_spec_revision c,
       cr_generation = cn_generation c, cr_adapter_kind = cn_adapter_kind c,
       cr_desired_state = cn_desired_state c, cr_max_concurrency = cn_max_concurrency c \<rparr>"
  by (simp add: append_current_revision_def)

lemma head_append:
  "head_of (append_current_revision (advance_server_time_high_water at c))
   = refresh_latest_revision (head_advance_time at (head_of c))"
  by (simp add: head_of_def refresh_latest_revision_def head_advance_time_def revision_image_def)
     (auto simp: append_current_revision_def advance_server_time_high_water_def)

lemma head_revised:
  "head_of (revised at d r c) = refresh_latest_revision (head_advance_time at ((head_of c)\<lparr>
     ch_spec_revision := r, ch_desired_state := d,
     ch_observed_state := (if d = Draining then ObservedDraining else ch_observed_state (head_of c)) \<rparr>))"
  unfolding revised_def head_append by (simp add: head_of_def)

lemma head_retired:
  assumes "histories_ok c" "not_regressed (cn_server_time_high_water_millis c) at"
  shows "head_of (retired st at g d ob r c) = refresh_latest_revision (head_advance_time at ((head_of c)\<lparr>
     ch_generation := gen_get g, ch_spec_revision := r, ch_desired_state := d, ch_current_boot := None,
     ch_active_lease := None, ch_observed_state := ob \<rparr>))"
proof -
  have "open_boot (closed at (cn_boots c)) = None"
    by (rule open_boot_closed [OF closed_boots_ok(2) [OF histories_facts(1,6) [OF assms(1)] assms(2)]])
  then show ?thesis unfolding retired_def head_append by (simp add: head_of_def shut_def)
qed

lemma head_booted:
  "head_of (booted b at c) = head_advance_time at ((head_of c)\<lparr>
     ch_current_boot := Some \<lparr> cbs_tenant_id = cn_tenant_id c, cbs_connector_id = cn_id c, cbs_boot_id = b,
       cbs_generation = gen_get (cn_generation c), cbs_started_at_millis = at, cbs_ended_at_millis = None \<rparr>,
     ch_active_lease := None, ch_observed_state := ObservedStarting \<rparr>)"
  by (simp add: head_of_def booted_def head_advance_time_def open_boot_def boot_image_def)

lemma head_leased:
  "head_of (leased l c) = head_advance_time (cl_issued_at_millis l) ((head_of c)\<lparr>
     ch_highest_lease_epoch := Some (epoch_get (cf_lease_epoch (cl_fence l))),
     ch_active_lease := Some (lease_image l), ch_observed_state := ObservedStarting \<rparr>)"
  by (simp add: head_of_def leased_def head_advance_time_def)


section \<open>Operations\<close>

lemma head_fields [simp]:
  "ch_desired_state (head_of c) = cn_desired_state c" "ch_spec_revision (head_of c) = cn_spec_revision c"
  "ch_current_boot (head_of c) = map_option boot_image (open_boot (cn_boots c))"
  "ch_tenant_id (head_of c) = cn_tenant_id c" "ch_connector_id (head_of c) = cn_id c"
  "ch_generation (head_of c) = gen_get (cn_generation c)"
  "ch_highest_lease_epoch (head_of c) = map_option epoch_get (cn_highest_lease_epoch c)"
  by (simp_all add: head_of_def)

lemma head_state_fields [simp]:
  "ch_observed_state (head_of c) = cn_observed_state c" "ch_max_concurrency (head_of c) = cn_max_concurrency c"
  "ch_server_time_high_water_millis (head_of c) = cn_server_time_high_water_millis c"
  by (simp_all add: head_of_def)

lemma head_lease_field:
  "ch_active_lease (head_of c) =
     (if cn_active_lease_index c = None then None else map_option lease_image (last_of (cn_leases c)))"
  by (simp add: head_of_def)

lemma lease_image_fields [simp]:
  "cls_tenant_id (lease_image l) = cf_tenant_id (cl_fence l)" "cls_connector_id (lease_image l) = cf_connector_id (cl_fence l)"
  "cls_generation (lease_image l) = gen_get (cf_generation (cl_fence l))" "cls_boot_id (lease_image l) = cf_boot_id (cl_fence l)"
  "cls_lease_id (lease_image l) = cf_lease_id (cl_fence l)"
  "cls_lease_epoch (lease_image l) = epoch_get (cf_lease_epoch (cl_fence l))"
  "cls_issued_at_millis (lease_image l) = cl_issued_at_millis l" "cls_expires_at_millis (lease_image l) = cl_expires_at_millis l"
  "cls_ttl_millis (lease_image l) = cl_ttl_millis l" "cls_status (lease_image l) = cl_status l"
  "cls_last_heartbeat_at_millis (lease_image l) = cl_last_heartbeat_at_millis l"
  by (simp_all add: lease_image_def)

lemma boot_image_fields [simp]:
  "cbs_boot_id (boot_image b) = cb_boot_id b" "cbs_started_at_millis (boot_image b) = cb_started_at_millis b"
  by (simp_all add: boot_image_def)

lemma begin_boot_cases:
  assumes h: "histories_ok c" and b: "begin_boot b at c = (Inr u, c')"
  obtains x where "open_boot (cn_boots c) = Some x" "cb_boot_id x = b" "cb_started_at_millis x = at" "c' = c"
      "live_state (cn_desired_state c)"
  | "b \<notin> set (map cb_boot_id (cn_boots c))" "c' = booted b at c" "live_state (cn_desired_state c)"
      "not_regressed (cn_server_time_high_water_millis c) at"
proof (cases "find (\<lambda>x. cb_boot_id x = b) (cn_boots c)")
  case None
  have "c' \<noteq> c"
  proof
    assume "c' = c"
    moreover have "length (cn_boots c') = length (cn_boots c) + 1"
      using b None by (auto simp: begin_boot_def Let_def terminalize_active_lease_def advance_server_time_high_water_def
          close_current_boot_def result_simps split: if_splits option.splits)
    ultimately show False by simp
  qed
  then show ?thesis using that(2) begin_boot_Ok [OF h b] by blast
next
  case (Some x)
  then have x: "x \<in> set (cn_boots c)" "cb_boot_id x = b" by (auto simp: find_Some_iff)
  have v: "cb_started_at_millis x = at" "c' = c" "cn_current_boot_id c = Some b" "live_state (cn_desired_state c)"
    using b Some by (cases "cn_desired_state c"; auto simp: begin_boot_def live_state_def split: if_splits)+
  obtain y where y: "open_boot (cn_boots c) = Some y" "cb_boot_id y = b"
    using histories_facts(2) [OF h] v(3) by (cases "open_boot (cn_boots c)") (auto simp: current_ok_def)
  have "y \<in> set (cn_boots c)"
    using y(1) by (cases "cn_boots c" rule: rev_cases) (auto simp: open_boot_def split: if_splits)
  then have "x = y"
    using x y(2) histories_facts(1) [OF h] unfolding boots_ok_def distinct_map by (metis inj_onD)
  then show ?thesis using that(1) y v by simp
qed

lemma head_begins:
  assumes h: "histories_ok c" and b: "begin_boot b at c = (Inr u, c')"
  shows "head_begin_boot b at (head_of c) = (Inr u, head_of c')"
  using assms
proof (cases rule: begin_boot_cases)
  case (1 x)
  then show ?thesis by (auto simp: head_begin_boot_def Let_def live_state_def)
next
  case 2
  have "cb_boot_id x \<noteq> b \<and> cb_started_at_millis x \<le> at" if "open_boot (cn_boots c) = Some x" for x
    using that 2(1) open_boot_started [OF h 2(4) that]
    by (cases "cn_boots c" rule: rev_cases) (auto simp: open_boot_def split: if_splits)
  then show ?thesis using 2(2,3) head_ensure_time_now [OF 2(4)]
    by (cases "open_boot (cn_boots c)") (auto simp: head_begin_boot_def Let_def live_state_def head_booted)
qed

lemma issue_fresh:
  assumes h: "histories_ok c" and i: "issue_lease lid b at ex c = (Inr f, c')" "lid \<notin> set (map lease_id_of (cn_leases c))"
  obtains e where "live_state (cn_desired_state c)" "cn_current_boot_id c = Some b" "at < ex" "is_i64 (ex - at)"
    "ex - at \<le> MAX_LEASE_TTL_MILLIS" "not_regressed (cn_server_time_high_water_millis c) at"
    "epoch_checked_next (cn_highest_lease_epoch c) = Inr e"
    "f = cl_fence (new_lease c lid b at ex e)" "c' = leased (new_lease c lid b at ex e) c"
proof -
  have n: "find (\<lambda>l. cf_lease_id (cl_fence l) = lid) (cn_leases c) = None"
    using i(2) by (auto simp: lease_id_of_def)
  have "length (cn_leases c') = length (cn_leases c) + 1" "is_i64 (ex - at)"
    using i(1) n by (auto simp: issue_lease_def Let_def terminalize_active_lease_def advance_server_time_high_water_def
          result_simps split: if_splits option.splits)
  then show thesis using that issue_lease_Ok [OF h i(1)] by auto
qed

lemma head_epochs:
  assumes "histories_ok c"
  shows "transpose_epoch (map_option epoch_get (cn_highest_lease_epoch c)) = Inr (cn_highest_lease_epoch c)"
proof (cases "cn_leases c" rule: rev_cases)
  case Nil
  then show ?thesis using histories_facts(5) [OF assms] by (simp add: epoch_ok_def transpose_epoch_def)
next
  case (snoc xs x)
  then have "cn_highest_lease_epoch c = Some (cf_lease_epoch (cl_fence x))"
      "unat (epoch_get (cf_lease_epoch (cl_fence x))) = length xs + 1" "epoch_get (cf_lease_epoch (cl_fence x)) \<le> Revision_MAX"
    using histories_facts(3,5) [OF assms] by (auto simp: leases_ok_def lease_ok_def epoch_ok_def)
  then show ?thesis by (auto simp: transpose_epoch_def snapshot_epoch_def not_less)
qed

lemma head_leases:
  assumes inv: "connector_inv c" and i: "issue_lease lid b at ex c = (Inr f, c')" "lid \<notin> set (map lease_id_of (cn_leases c))"
  shows "head_issue_lease lid b at ex (head_of c) = (Inr f, head_of c')"
proof -
  have h: "histories_ok c" and g: "snapshot_generation (gen_get (cn_generation c)) = Inr (cn_generation c)"
    using inv by (auto simp: connector_inv_def generation_ok_def snapshot_generation_def word_gt_0 not_less)
  obtain e where e: "live_state (cn_desired_state c)" "cn_current_boot_id c = Some b" "at < ex" "is_i64 (ex - at)"
    "ex - at \<le> MAX_LEASE_TTL_MILLIS" "not_regressed (cn_server_time_high_water_millis c) at"
    "epoch_checked_next (cn_highest_lease_epoch c) = Inr e"
    "f = cl_fence (new_lease c lid b at ex e)" "c' = leased (new_lease c lid b at ex e) c"
    using issue_fresh [OF h i] by blast
  have cur: "head_current_boot_id (head_of c) = Some b"
    using histories_facts(2) [OF h] e(2)
    by (cases "open_boot (cn_boots c)") (auto simp: head_current_boot_id_def current_ok_def)
  have act: "cls_lease_id l \<noteq> lid" if "ch_active_lease (head_of c) = Some l" for l
    using that i(2) by (cases "cn_leases c" rule: rev_cases) (auto simp: head_of_def lease_image_def lease_id_of_def split: if_splits)
  have "head_new_lease lid b at ex (ex - at) (head_of c) = (Inr f, head_of c')"
    using e(7-9) g head_ensure_time_now [OF e(6)] head_epochs [OF h]
    by (simp add: head_new_lease_def head_leased) (simp add: new_lease_def lease_image_def)
  then show ?thesis using e(1,3-5) cur act
    by (cases "ch_active_lease (head_of c)") (auto simp: head_issue_lease_def checked_sub_i64_def live_state_def)
qed

lemma head_open:
  assumes "histories_ok c" "not_regressed (cn_server_time_high_water_millis c) at"
  shows "\<not> is_some_and (ch_current_boot (head_of c)) (\<lambda>boot. at < cbs_started_at_millis boot)"
  using open_boot_started [OF assms] by (cases "open_boot (cn_boots c)") auto

lemma checked_add_succ: "a < a + 1 \<Longrightarrow> checked_add a 1 = Some (a + 1)" for a :: u64
  by (simp add: checked_add_def word_less_nat_alt unat_word_ariths)

lemma head_generation:
  assumes inv: "connector_inv c" and a: "advance_generation e at c = (Inr g, c')"
  shows "head_advance_generation e at (head_of c) = (Inr (gen_get g), head_of c')"
proof -
  have h: "histories_ok c" and g: "generation_ok (ConnectorGeneration Revision_MAX) (cn_generation c)"
    using inv by (simp_all add: connector_inv_def)
  obtain r where r: "e = cn_spec_revision c" "cn_desired_state c \<noteq> Revoked"
      "not_regressed (cn_server_time_high_water_millis c) at" "generation_checked_next (cn_generation c) = Inr g"
      "checked_next (cn_spec_revision c) = Inr r"
      "c' = retired LeaseSuperseded at g (cn_desired_state c) ObservedOffline r c"
    by (rule advance_generation_Ok [OF h a])
  have "checked_add (gen_get (cn_generation c)) 1 = Some (gen_get g)" "gen_get g \<le> Revision_MAX"
    using generation_next [OF r(4) g] checked_add_succ [of "gen_get (cn_generation c)"] by (auto simp: generation_ok_def)
  then show ?thesis
    using r(1,2,5,6) head_open [OF h r(3)] head_ensure_time_now [OF r(3)]
    by (simp add: head_advance_generation_def head_retired [OF h r(3)]) (simp add: head_of_def)
qed

lemma head_revises:
  assumes "revise_live_configuration e d at c = (Inr r, c')"
  shows "head_revise_live_configuration e d at (head_of c) = (Inr r, head_of c')"
  using revise_Ok [OF assms] head_ensure_time_now [OF revise_Ok(5) [OF assms]]
  by (auto simp: head_revise_live_configuration_def head_revised live_state_def)

lemma head_desired_change:
  assumes "histories_ok c" "not_regressed (cn_server_time_high_water_millis c) at"
  shows "head_of (desired_change d at r c) = refresh_latest_revision (head_advance_time at
    (head_apply_desired_state d ((head_of c)\<lparr> ch_spec_revision := r, ch_desired_state := d \<rparr>)))"
  by (cases d) (simp_all add: desired_change_def head_apply_desired_state_def head_revised head_retired [OF assms],
      simp_all add: head_of_def)

lemma head_sets:
  assumes h: "histories_ok c" and s: "set_desired_state e d at c = (Inr r, c')"
  shows "head_set_desired_state e d at (head_of c) = (Inr r, head_of c')"
proof (cases "cn_desired_state c = d")
  case True
  then show ?thesis using set_desired_Ok [OF h s] by (simp add: head_set_desired_state_def)
next
  case False
  then have o: "e = cn_spec_revision c" "cn_desired_state c \<noteq> Revoked" "valid_desired_transition (cn_desired_state c) d"
      "not_regressed (cn_server_time_high_water_millis c) at" "checked_next (cn_spec_revision c) = Inr r"
      "c' = desired_change d at r c"
    using set_desired_Ok [OF h s] by simp_all
  then show ?thesis using False head_open [OF h o(4)] head_ensure_time_now [OF o(4)]
    by (simp add: head_set_desired_state_def head_desired_change [OF h o(4)])
qed

text \<open>C39. The control head refines the aggregate: on a well-formed connector, whenever beginning a boot,
  issuing a lease under a fresh identifier, advancing the generation, revising the live configuration or
  setting the desired state succeeds on the complete aggregate, the constant-size head projected from it
  accepts the same call, returns the same value, and becomes the projection of the new aggregate.\<close>
theorem connector_head_refines:
  assumes "connector_inv c"
  shows "(begin_boot b at c = (Inr (), c') \<longrightarrow> head_begin_boot b at (head_of c) = (Inr (), head_of c'))
    \<and> (issue_lease l b at ex c = (Inr f, c') \<and> l \<notin> set (map lease_id_of (cn_leases c)) \<longrightarrow>
         head_issue_lease l b at ex (head_of c) = (Inr f, head_of c'))
    \<and> (advance_generation e at c = (Inr g, c') \<longrightarrow>
         head_advance_generation e at (head_of c) = (Inr (gen_get g), head_of c'))
    \<and> (revise_live_configuration e d at c = (Inr r, c') \<longrightarrow>
         head_revise_live_configuration e d at (head_of c) = (Inr r, head_of c'))
    \<and> (set_desired_state e d at c = (Inr r, c') \<longrightarrow>
         head_set_desired_state e d at (head_of c) = (Inr r, head_of c'))"
proof -
  have h: "histories_ok c" using assms by (simp add: connector_inv_def)
  show ?thesis
    by (auto intro: head_begins [OF h] head_leases [OF assms] head_generation [OF assms] head_revises head_sets [OF h])
qed

section \<open>Draining and resuming\<close>

lemma revised_fields [simp]:
  "cn_tenant_id (revised at d r c) = cn_tenant_id c" "cn_id (revised at d r c) = cn_id c"
  "cn_generation (revised at d r c) = cn_generation c" "cn_current_boot_id (revised at d r c) = cn_current_boot_id c"
  "cn_leases (revised at d r c) = cn_leases c" "cn_active_lease_index (revised at d r c) = cn_active_lease_index c"
  "cn_desired_state (revised at d r c) = d"
  "cn_observed_state (revised at d r c) = (if d = Draining then ObservedDraining else cn_observed_state c)"
  by (simp_all add: revised_def append_current_revision_def advance_server_time_high_water_def)

lemma coordinates_revised [simp]:
  "validate_fence_coordinates (revised at d r c) f = validate_fence_coordinates c f"
  unfolding validate_fence_coordinates_def revised_fields by (rule refl)

definition settled :: "Connector \<Rightarrow> ConnectorLease \<Rightarrow> bool" where
  "settled c l \<longleftrightarrow> cn_desired_state c = Draining \<and> cn_observed_state c = ObservedDraining
     \<or> cn_observed_state c = (case cl_last_heartbeat l of None \<Rightarrow> ObservedStarting | Some b \<Rightarrow> hb_state b)"

lemma heartbeat_head_of:
  assumes inv: "connector_inv c" and l: "cn_leases c = xs @ [l]" "cn_active_lease_index c = Some i"
  shows "if settled c l then \<exists>k. heartbeat_head (head_of c) = Inr k \<and> hh_active_lease k = l \<and> hh_tenant_id k = cn_tenant_id c
      \<and> hh_connector_id k = cn_id c \<and> hh_generation k = cn_generation c \<and> cn_current_boot_id c = Some (hh_current_boot_id k)
    else heartbeat_head (head_of c) = Inl InvalidHeartbeat"
proof -
  have h: "histories_ok c" and g: "snapshot_generation (gen_get (cn_generation c)) = Inr (cn_generation c)"
      and m: "cn_max_concurrency c \<noteq> 0"
    using inv by (auto simp: connector_inv_def generation_ok_def snapshot_generation_def word_gt_0 not_less)
  let ?l = "lease_image l"
  have act: "cl_status l = LeaseActive" "cn_current_boot_id c = Some (cf_boot_id (cl_fence l))"
      "cf_generation (cl_fence l) = cn_generation c"
    using histories_facts(4) [OF h] l by (auto simp: active_ok_def)
  have lok: "lease_ok (cn_tenant_id c) (cn_id c) (cn_generation c) (cn_max_concurrency c) (cn_boots c) (length xs) l"
    using histories_facts(3) [OF h] l by (auto simp: leases_ok_def)
  have hb: "snapshot_heartbeat ?l (cn_max_concurrency c) = Inr (cl_last_heartbeat l)"
    using lok by (simp add: snapshot_heartbeat_Ok lease_ok_def) (simp add: lease_image_def option.map_comp comp_def option.map_ident)
  have e: "cn_highest_lease_epoch c = Some (cf_lease_epoch (cl_fence l))"
    using histories_facts(5) [OF h] l by (auto simp: epoch_ok_def)
  then have e': "snapshot_epoch (epoch_get (cf_lease_epoch (cl_fence l))) = Inr (cf_lease_epoch (cl_fence l))"
    using head_epochs [OF h] by (auto simp: transpose_epoch_def result_simps)
  have cur: "head_current_boot_id (head_of c) = Some (cf_boot_id (cl_fence l))"
    using histories_facts(2) [OF h] act(2) by (cases "open_boot (cn_boots c)") (auto simp: head_current_boot_id_def current_ok_def)
  have seen: "\<not> is_none_or (cn_server_time_high_water_millis c) (\<lambda>high. high < cl_issued_at_millis l
      \<or> is_some_and (cl_last_heartbeat_at_millis l) (\<lambda>at. high < at))"
    using histories_facts(6) [OF h] l(1)
    by (cases "cn_server_time_high_water_millis c"; cases "cl_last_heartbeat_at_millis l") (auto simp: times_ok_def lease_seen_def seen_by_def)
  have img: "lease_of_image (cn_generation c) (cf_lease_epoch (cl_fence l)) (cl_last_heartbeat l) ?l = l"
    using act(3) by (simp add: lease_of_image_def lease_image_def)
  have live: "live_state (cn_desired_state c)"
    using inv l(2) by (auto simp: connector_inv_def terminal_ok_def)
  show ?thesis
    using act lok m e live cur g e' hb seen img l
    by (cases "cl_last_heartbeat l")
      (simp_all add: heartbeat_head_def heartbeat_head_from_snapshot_def settled_def lease_ok_def head_lease_field Let_def)
qed

lemma head_validates_settled:
  assumes inv: "connector_inv c" and v: "validate_fence_coordinates c f = Inr l"
  shows "head_validate_fence (head_of c) f now = (if settled c l then validate_fence c f now else Inl StaleLease)"
proof -
  have h: "histories_ok c" using inv by (simp add: connector_inv_def)
  obtain xs where l: "cn_leases c = xs @ [l]" "cn_active_lease_index c = Some (length xs)" "cl_fence l = f"
    by (rule coordinates_Ok [OF h v])
  have f: "cf_tenant_id f = cn_tenant_id c" "cf_connector_id f = cn_id c" "cf_generation f = cn_generation c"
      "cn_current_boot_id c = Some (cf_boot_id f)"
    using v by (auto simp: validate_fence_coordinates_def split: if_splits)
  show ?thesis
    using heartbeat_head_of [OF inv l(1,2)] v f l(3)
    by (auto simp: head_validate_fence_def heartbeat_head_validate_fence_def heartbeat_head_coordinates_def validate_fence_def
        split: if_splits)
qed

text \<open>C40. Resuming a drained connector strands its lease on the online path. Take a well-formed running
  connector whose lease, held under a fence the aggregate accepts, has not itself reported draining, and
  let an owner drain it and then set it back to running. Draining is harmless: the aggregate and the
  control head both still accept the fence. After the resume the aggregate still accepts it, while the
  control head refuses the same fence as stale and yields no heartbeat head, because the observed state
  that the drain set is not reset and no longer matches the lease's last heartbeat.\<close>
theorem connector_resume_strands_lease:
  assumes "connector_inv c" "cn_desired_state c = Running"
    and "validate_fence_coordinates c f = Inr l" "now < cl_expires_at_millis l"
    and "\<not> is_some_and (cl_last_heartbeat l) (\<lambda>b. hb_state b = ObservedDraining)"
    and "set_desired_state e Draining t1 c = (Inr r1, c1)" "set_desired_state r1 Running t2 c1 = (Inr r2, c2)"
  shows "validate_fence c1 f now = Inr () \<and> head_validate_fence (head_of c1) f now = Inr ()
    \<and> validate_fence c2 f now = Inr () \<and> head_validate_fence (head_of c2) f now = Inl StaleLease
    \<and> heartbeat_head (head_of c2) = Inl InvalidHeartbeat"
proof -
  have h: "histories_ok c" using assms(1) by (simp add: connector_inv_def)
  have c1: "valid_desired_transition (cn_desired_state c) Draining" "checked_next (cn_spec_revision c) = Inr r1"
      "c1 = revised t1 Draining r1 c"
    using set_desired_Ok [OF h assms(6)] assms(2) by (auto simp: desired_change_def)
  have i1: "connector_inv c1" using revised_inv [OF assms(1) c1(2), of Draining] c1 by simp
  then have h1: "histories_ok c1" by (simp add: connector_inv_def)
  have c2: "valid_desired_transition Draining Running" "checked_next (cn_spec_revision c1) = Inr r2"
      "c2 = revised t2 Running r2 c1"
    using set_desired_Ok [OF h1 assms(7)] c1(3) by (auto simp: desired_change_def)
  have i2: "connector_inv c2" using revised_inv [OF i1 c2(2), of Running] c1(3) c2 by simp
  have v: "validate_fence_coordinates c1 f = Inr l" "validate_fence_coordinates c2 f = Inr l"
    using c1(3) c2(3) assms(3) by simp_all
  have s: "settled c1 l" "\<not> settled c2 l"
    using c1(3) c2(3) assms(5) by (auto simp: settled_def split: option.splits)
  obtain xs where "cn_leases c2 = xs @ [l]" "cn_active_lease_index c2 = Some (length xs)"
    using coordinates_Ok [OF _ v(2)] i2 by (metis connector_inv_def)
  from heartbeat_head_of [OF i2 this] show ?thesis
    using head_validates_settled [OF i1 v(1)] head_validates_settled [OF i2 v(2)] s v assms(4)
    by (simp add: validate_fence_def)
qed

section \<open>Witnesses\<close>

definition demo_drained :: Connector where
  "demo_drained = run connector_call [CallSetDesiredState (Revision 1) Draining 40] demo_leased"

definition demo_resumed :: Connector where
  "demo_resumed = run connector_call [CallSetDesiredState (Revision 2) Running 50] demo_drained"

lemmas resume_eval = demo_drained_def demo_resumed_def connector_eval apply_desired_state_def
  connector_next_revision_def valid_desired_transition_def append_current_revision_def checked_next_def

theorem connector_head_refines_witness:
  "head_issue_lease (UuidId 41) (UuidId 30) 30 1030 (head_of demo_leased)
   = (Inr (demo_fence\<lparr> cf_lease_id := UuidId 41, cf_lease_epoch := LeaseEpoch 2 \<rparr>),
      head_of (run connector_call [CallIssueLease (UuidId 41) (UuidId 30) 30 1030] demo_leased))"
proof -
  have "issue_lease (UuidId 41) (UuidId 30) 30 1030 demo_leased
      = (Inr (demo_fence\<lparr> cf_lease_id := UuidId 41, cf_lease_epoch := LeaseEpoch 2 \<rparr>),
         run connector_call [CallIssueLease (UuidId 41) (UuidId 30) 30 1030] demo_leased)"
    by (simp add: connector_eval)
  moreover have "UuidId 41 \<notin> set (map lease_id_of (cn_leases demo_leased))"
    by (simp add: connector_eval lease_id_of_def)
  ultimately show ?thesis using connector_head_refines [OF demo_leased_inv] by blast
qed

theorem connector_resume_strands_lease_witness:
  "validate_fence demo_resumed demo_fence 60 = Inr ()
   \<and> head_validate_fence (head_of demo_resumed) demo_fence 60 = Inl StaleLease"
proof -
  have "cn_desired_state demo_leased = Running" by (simp add: connector_eval)
  moreover obtain l where "validate_fence_coordinates demo_leased demo_fence = Inr l" "60 < cl_expires_at_millis l"
      "cl_last_heartbeat l = None"
    by (simp add: connector_eval)
  moreover have "set_desired_state (Revision 1) Draining 40 demo_leased = (Inr (Revision 2), demo_drained)"
    by (simp add: resume_eval)
  moreover have "set_desired_state (Revision 2) Running 50 demo_drained = (Inr (Revision 3), demo_resumed)"
    by (simp add: resume_eval)
  ultimately show ?thesis
    using connector_resume_strands_lease [OF demo_leased_inv, where f = demo_fence and now = 60] by simp
qed

end
