(* ===== verification/Spec2Isabelle.thy ===== *)
theory Spec2Isabelle
  imports Wire_Codec Group_Rehydrate Membership_Rehydrate Agent_Grant Agent_Definition Connector_Refinement
begin

text \<open>
  Verification of the domain core of the Dirextalk vNext server.

  \<^bold>\<open>The program.\<close> The repository is a Rust workspace. Its storage-independent crates under
  \<open>src/crates\<close> hold the rules of the system, and the node binaries and PostgreSQL adapters load an
  aggregate from a stored image, call one method, and store the new image. This development models
  those crates: the identifiers and the wire format that all parts share (\<open>dtx-domain\<close>, \<open>dtx-wire\<close>),
  the group policy with its invitations and join requests (\<open>dtx-group-policy\<close>), the membership
  commands that carry a join through an external sequencer (\<open>dtx-membership-command\<close>), and the Agent
  control plane: hosts (\<open>dtx-agent-host\<close>), installations, devices, conversation grants and
  definitions (\<open>dtx-agent-registry\<close>), and connectors (\<open>dtx-connect-registry\<close>).

  \<^bold>\<open>Conventions.\<close> A Rust struct is a record whose fields carry a short prefix, an enum is a datatype
  with the constructors of the source, a \<open>Result\<close> is a sum with the error on the left, and a method on
  \<open>&mut self\<close> returns its result together with the new state, so that what a failed call leaves behind
  is part of the model. A \<open>panic\<close>, an index out of range or a failed \<open>expect\<close> is the value \<open>Panic\<close> of
  \<open>'e fault\<close>. Unsigned integers are words, \<open>i64\<close> instants are integers with the checked operations
  written out (\<open>Instants\<close>), \<open>BTreeMap\<close> and \<open>BTreeSet\<close> are finite maps and sets that are iterated in key
  order. SHA-256, the point check of Ed25519, base64 and the printing of UUIDs are arguments of the
  definitions that use them; what is assumed of them is a hypothesis of the theorem.

  \<^bold>\<open>Prelude, contracts.\<close> \<open>Prelude\<close> has results, loops with early return, checked arithmetic, big-endian
  numbers and finite maps. Four locales are the interfaces: \<open>canonical_codec\<close> and \<open>field_codec\<close>
  (\<open>Codec\<close>) for encoders with a unique encoding, \<open>revisioned_aggregate\<close> (\<open>Revisioned\<close>) for aggregates
  fenced by a revision, and \<open>stepping_calls\<close> (\<open>Calls\<close>) for state machines driven by method calls; each
  is interpreted on the model of every component that has the contract.

  \<^bold>\<open>Identifiers and wire format.\<close> \<open>Domain_Ids\<close> models \<open>revision.rs\<close> and \<open>ids.rs\<close>, \<open>Public_Id\<close> models
  \<open>public_id.rs\<close>: a public identifier has exactly one text, and parsing never panics. \<open>Cbor\<close> models the
  encoder and decoder of \<open>canonical_cbor.rs\<close> with their byte, depth and item budgets; \<open>Cbor_Encode\<close> and
  \<open>Cbor_Decode\<close> prove that they compute a reference encoding and accept exactly the canonical inputs.
  \<open>Wire\<close> and \<open>Wire_Codec\<close> model primitives, protocol versions, typed decoding and the plan hash.

  \<^bold>\<open>Group policy.\<close> \<open>Group_Policy\<close> has the aggregate of \<open>aggregate.rs\<close> with all its methods,
  \<open>Group_Snapshot\<close> its stored image and the validator of \<open>validation.rs\<close>. \<open>Group_Outcomes\<close> describes every
  method by its outcome, \<open>Group_Calls\<close> and \<open>Group_Invariant\<close> give the dispatcher and the invariant,
  \<open>Group_Safety\<close> the safety of sequences of calls (capacity of invitations; admission only by the
  owner's grant of the administrator role, the approval of a pending request or the completion of a
  reservation; permanence of revocation up to the reservations made before it), \<open>Group_Validator\<close>, \<open>Group_Roundtrip\<close> and
  \<open>Group_Rehydrate\<close> that storing and loading is exact on what the methods produce.

  \<^bold>\<open>Membership commands.\<close> \<open>Membership\<close>, \<open>Membership_Book\<close> and \<open>Membership_Snapshot\<close> model \<open>header.rs\<close>,
  \<open>codec.rs\<close> and \<open>book.rs\<close>; \<open>Membership_Digest\<close> proves that the digest of a command binds it,
  \<open>Membership_Steps\<close>, \<open>Membership_Invariant\<close>, \<open>Membership_Calls\<close> and \<open>Membership_Safety\<close> that commands are
  idempotent, submitted at most once, only queried while their result is unknown and answered
  permanently, \<open>Membership_Validator\<close> and \<open>Membership_Rehydrate\<close> what the stored form guarantees.

  \<^bold>\<open>Agent control plane.\<close> \<open>Agent_Host\<close> models \<open>host.rs\<close>, \<open>Agent_Registry\<close> models \<open>installation.rs\<close> and
  \<open>device.rs\<close>, \<open>Agent_Grant\<close> models \<open>grant.rs\<close> and \<open>Agent_Definition\<close> models \<open>definition.rs\<close>, each with its
  dispatcher, its invariant, the safety of call sequences and the exactness of rehydration.
  \<open>Connector\<close>, \<open>Connector_Snapshot\<close> and \<open>Connector_Head\<close> model \<open>connector.rs\<close>: the aggregate, its stored
  image and the constant-size heads of the online paths; \<open>Connector_Invariant\<close> states the invariant of
  the aggregate and how ending a lease or a boot acts on it, \<open>Connector_Steps\<close> what a successful method
  does, \<open>Connector_Safety\<close> the step relation, the dispatcher and the safety of fences over sequences of
  calls, \<open>Connector_Rehydrate\<close> that the validator accepts exactly the images of well-formed connectors, and
  \<open>Connector_Refinement\<close> that the control head refines the aggregate and where the two disagree.

  \<^bold>\<open>Bounds.\<close> Loops of the source are structural recursions over the list they traverse. The two
  recursive functions over CBOR values terminate by the size of the value and by the depth limit, so no fuel is
  used anywhere in the development.

  \<^bold>\<open>Not modelled.\<close> The PostgreSQL adapters, the HTTP and gRPC nodes and the supervisor are I/O around
  these aggregates; the wire types of the catalogue are generated by the build; signatures, TLS and
  push providers are external code. Getters, \<open>Display\<close> texts and \<open>serde\<close> implementations carry no rules.
  \<open>binding.rs\<close> of \<open>dtx-connect-registry\<close>, \<open>dtx-agent-router\<close> and \<open>dtx-agent-control\<close> are pure code that
  is not yet covered.
\<close>

end
